(* ===== verification/Prelude.thy ===== *)
theory Prelude
  imports Main "HOL-Library.Word"
begin

text \<open>
  Shared vocabulary of the development: the machine integers of the gateway, the
  saturating and widening operations it uses on them, the byte order of its wire
  formats, hash-map totals and hash-map iteration orders.  The lemmas that every
  component needs are declared \<open>simp\<close> or collected in \<open>width_simps\<close> (reading
  fixed-width words as natural numbers) and \<open>wire_simps\<close> (byte strings).
\<close>

section \<open>Machine integers\<close>

type_synonym u8 = "8 word"
type_synonym u16 = "16 word"
type_synonym u32 = "32 word"
type_synonym u64 = "64 word"

named_theorems width_simps "machine words read as natural numbers"
named_theorems wire_simps "byte strings and their lengths"

text \<open>Rust's \<open>saturating_sub\<close> on an unsigned type, and its value as a number.\<close>

definition saturating_sub :: "'a::len word \<Rightarrow> 'a word \<Rightarrow> 'a word" where
  "saturating_sub a b = (if b \<le> a then a - b else 0)"

lemma unat_saturating_sub [width_simps]: "unat (saturating_sub a b) = unat a - unat b"
  by (auto simp: saturating_sub_def unat_sub word_le_nat_alt)

lemma saturating_sub_0 [simp]: "saturating_sub a 0 = a"
  by (simp add: saturating_sub_def)

text \<open>The cast \<open>as u64\<close> of a \<open>u32\<close> keeps the value.\<close>

lemma unat_u32_as_u64 [width_simps]: "unat (ucast (n :: u32) :: u64) = unat n"
  proof -
  have "unat n < 2 ^ 32"
    using unsigned_less [where 'a = nat, of n] by simp
  then have "unat n < 2 ^ 64" by simp
  then show ?thesis by (simp add: unsigned_ucast_eq take_bit_nat_eq_self)
qed

lemma unat_u32_less: "unat (n :: u32) < 2 ^ 32"
  using unsigned_less [where 'a = nat, of n] by simp

lemma unat_u64_less: "unat (n :: u64) < 2 ^ 64"
  using unsigned_less [where 'a = nat, of n] by simp

lemma unat_u64_of_nat: "n < 2 ^ 64 \<Longrightarrow> unat (of_nat n :: u64) = n"
  by (rule of_nat_inverse [OF refl]) simp

lemma unat_u16_of_nat: "n < 2 ^ 16 \<Longrightarrow> unat (word_of_nat n :: u16) = n"
  by (rule of_nat_inverse [OF refl]) simp

lemma unat_u64_add [width_simps]:
  "unat a + unat b < 2 ^ 64 \<Longrightarrow> unat (a + b :: u64) = unat a + unat b"
  by (simp add: unat_plus_if')

lemma unat_min [width_simps]: "unat (min a b) = min (unat a) (unat b)"
  by (auto simp: min_def word_le_nat_alt)

lemma unat_minus_min [width_simps]:
  "unat (b - min a b) = unat b - unat (a :: 'a::len word)"
proof -
  have "unat (b - min a b) = unat b - unat (min a b)"
    by (rule unat_sub) simp
  then show ?thesis by (simp add: unat_min)
qed

text \<open>
  A \<open>u64\<close> sum whose parts add up to less than \<open>2 ^ 64\<close> does not wrap (the release
  profile of the crate wraps on overflow).
\<close>

lemma unat_u64_add_u32 [width_simps]:
  "unat a + unat n < 2 ^ 64 \<Longrightarrow> unat (a + ucast (n :: u32) :: u64) = unat a + unat n"
  by (simp add: unat_u64_add unat_u32_as_u64)

section \<open>Hash maps\<close>

text \<open>
  \<open>AHashMap\<close> is the standard library's \<open>HashMap\<close> with another hasher: the model
  keeps it as a partial function.  Its iteration order depends on the hasher and is not
  specified, so every operation of the code that iterates takes the order of the keys as
  an argument \<open>ks\<close>; \<open>enumerates ks m\<close> says that \<open>ks\<close> visits each key of
  \<open>m\<close> once.
\<close>

definition enumerates :: "'k list \<Rightarrow> ('k \<rightharpoonup> 'v) \<Rightarrow> bool" where
  "enumerates ks m \<longleftrightarrow> distinct ks \<and> set ks = dom m"

definition map_values :: "'k list \<Rightarrow> ('k \<rightharpoonup> 'v) \<Rightarrow> 'v list" where
  "map_values ks m = List.map_filter m ks"

lemma map_values_simps [simp]:
  "map_values [] m = []"
  "map_values (k # ks) m = (case m k of None \<Rightarrow> map_values ks m | Some v \<Rightarrow> v # map_values ks m)"
  by (simp_all add: map_values_def List.map_filter_simps split: option.split)

lemma map_values_member: "k \<in> set ks \<Longrightarrow> m k = Some v \<Longrightarrow> v \<in> set (map_values ks m)"
  by (induction ks) (auto split: option.splits)

lemma map_filter_agree:
  "(\<And>x. x \<in> set xs \<Longrightarrow> f x = g x) \<Longrightarrow> List.map_filter f xs = List.map_filter g xs"
  by (induction xs) (auto simp: List.map_filter_simps split: option.split)

lemma set_map_values: "enumerates ks m \<Longrightarrow> set (map_values ks m) = ran m"
  by (auto simp: enumerates_def map_values_def List.map_filter_def ran_def image_iff) force+

lemma enumerates_finite: "enumerates ks m \<Longrightarrow> finite (dom m)"
  by (auto simp: enumerates_def dest: sym)

lemma enumerates_exists: "finite (dom m) \<Longrightarrow> \<exists>ks. enumerates ks m"
  by (metis enumerates_def finite_distinct_list)

text \<open>
  The total of a measure over the values of a map, and how storing and removing one key
  changes it.
\<close>

definition map_total :: "('v \<Rightarrow> nat) \<Rightarrow> ('k \<rightharpoonup> 'v) \<Rightarrow> nat" where
  "map_total f m = (\<Sum>k \<in> dom m. f (the (m k)))"

definition opt_measure :: "('v \<Rightarrow> nat) \<Rightarrow> 'v option \<Rightarrow> nat" where
  "opt_measure f x = (case x of None \<Rightarrow> 0 | Some v \<Rightarrow> f v)"

lemma opt_measure_simps [simp]: "opt_measure f None = 0" "opt_measure f (Some v) = f v"
  by (simp_all add: opt_measure_def)

lemma map_total_empty [simp]: "map_total f Map.empty = 0"
  by (simp add: map_total_def)

lemma map_total_delete:
  assumes "finite (dom m)"
  shows "map_total f (m(k := None)) + opt_measure f (m k) = map_total f m"
proof (cases "m k")
  case None
  then show ?thesis by (simp add: fun_upd_idem)
next
  case (Some v)
  have "map_total f m = f v + (\<Sum>j \<in> dom m - {k}. f (the (m j)))"
    unfolding map_total_def
    by (subst sum.remove [of _ k]) (use assms Some in auto)
  moreover have "map_total f (m(k := None)) = (\<Sum>j \<in> dom m - {k}. f (the (m j)))"
    unfolding map_total_def by (rule sum.cong) auto
  ultimately show ?thesis using Some by simp
qed

lemma map_total_update:
  assumes "finite (dom m)"
  shows "map_total f (m(k \<mapsto> v)) + opt_measure f (m k) = map_total f m + f v"
proof -
  have "(m(k \<mapsto> v))(k := None) = m(k := None)" by simp
  then show ?thesis
    using map_total_delete [of "m(k \<mapsto> v)" f k] map_total_delete [of m f k] assms by simp
qed

lemma map_total_pos:
  assumes "finite (dom m)" "m k = Some v" "f v \<noteq> 0"
  shows "map_total f m \<noteq> 0"
  using map_total_delete [OF assms(1), of f k] assms(2,3) by simp

lemma map_total_le:
  assumes "\<And>v. v \<in> ran m \<Longrightarrow> f v \<le> b"
  shows "map_total f m \<le> card (dom m) * b"
  unfolding map_total_def
proof (rule sum_bounded_above [where K = b, simplified])
  fix k assume "k \<in> dom m"
  then obtain v where "m k = Some v" by blast
  then show "f (the (m k)) \<le> b" using assms [OF ranI] by simp
qed

lemma card_dom_update:
  "finite (dom m) \<Longrightarrow> card (dom (m(k \<mapsto> v))) = (if m k = None then Suc (card (dom m)) else card (dom m))"
  by (auto simp: card_insert_if insert_absorb domIff)

lemma card_dom_delete_le: "finite (dom m) \<Longrightarrow> card (dom (m(k := None))) \<le> card (dom m)"
  by (auto intro: card_mono)

end
