(* ===== verification/Bytes.thy ===== *)
theory Bytes
  imports Prelude
begin

text \<open>
  The byte order of the two wire formats: the feed is big-endian, the broadcast is
  little-endian (\<open>to_le_bytes\<close> of the standard library).  A fixed-width integer is
  its digits in base 256; reading a byte string of the width of the word gives the
  word back.
\<close>

section \<open>Base 256\<close>

fun le_digits :: "nat \<Rightarrow> nat \<Rightarrow> u8 list" where
  "le_digits 0 v = []"
| "le_digits (Suc n) v = word_of_nat (v mod 256) # le_digits n (v div 256)"

fun le_value :: "u8 list \<Rightarrow> nat" where
  "le_value [] = 0"
| "le_value (b # bs) = unat b + 256 * le_value bs"

definition be_digits :: "nat \<Rightarrow> nat \<Rightarrow> u8 list" where
  "be_digits n v = rev (le_digits n v)"

definition be_value :: "u8 list \<Rightarrow> nat" where
  "be_value bs = le_value (rev bs)"

lemma length_le_digits [simp, wire_simps]: "length (le_digits n v) = n"
  by (induction n arbitrary: v) auto

lemma le_digits_numeral:
  "le_digits (numeral k) v = word_of_nat (v mod 256) # le_digits (pred_numeral k) (v div 256)"
  by (simp only: numeral_eq_Suc [of k] le_digits.simps)

lemma length_be_digits [simp, wire_simps]: "length (be_digits n v) = n"
  by (simp add: be_digits_def)

lemma unat_byte_of_nat: "unat (word_of_nat (v mod 256) :: u8) = v mod 256"
  by (simp add: unat_of_nat)

lemma le_value_digits [simp]: "le_value (le_digits n v) = v mod 256 ^ n"
proof (induction n arbitrary: v)
  case 0
  then show ?case by simp
next
  case (Suc n)
  have "le_value (le_digits (Suc n) v) = v mod 256 + 256 * (v div 256 mod 256 ^ n)"
    using Suc.IH by (simp add: unat_byte_of_nat)
  also have "\<dots> = v mod (256 * 256 ^ n)"
    by (simp add: mod_mult2_eq)
  finally show ?case by simp
qed

lemma be_value_digits [simp]: "be_value (be_digits n v) = v mod 256 ^ n"
  by (simp add: be_value_def be_digits_def)

lemma le_value_less: "le_value bs < 256 ^ length bs"
proof (induction bs)
  case Nil
  then show ?case by simp
next
  case (Cons b bs)
  have "unat b < 256"
    using unsigned_less [where 'a = nat, of b] by simp
  with Cons show ?case by simp
qed

lemma be_value_less: "be_value bs < 256 ^ length bs"
  using le_value_less [of "rev bs"] by (simp add: be_value_def)

lemma le_digits_value [simp]: "le_digits (length bs) (le_value bs) = bs"
proof (induction bs)
  case Nil
  then show ?case by simp
next
  case (Cons b bs)
  have "unat b < 256"
    using unsigned_less [where 'a = nat, of b] by simp
  then have "(unat b + 256 * le_value bs) mod 256 = unat b"
    and "(unat b + 256 * le_value bs) div 256 = le_value bs" by simp_all
  with Cons.IH show ?case by simp
qed

lemma be_value_append: "be_value (xs @ ys) = be_value xs * 256 ^ length ys + be_value ys"
proof -
  have "le_value (as @ bs) = le_value as + 256 ^ length as * le_value bs" for as bs
    by (induction as) (auto simp: algebra_simps)
  then show ?thesis by (simp add: be_value_def algebra_simps)
qed

section \<open>Little-endian words\<close>

text \<open>\<open>to_le_bytes\<close> and \<open>from_le_bytes\<close> of the unsigned types.\<close>

definition u16_to_le_bytes :: "u16 \<Rightarrow> u8 list" where
  "u16_to_le_bytes w = le_digits 2 (unat w)"

definition u32_to_le_bytes :: "u32 \<Rightarrow> u8 list" where
  "u32_to_le_bytes w = le_digits 4 (unat w)"

definition u64_to_le_bytes :: "u64 \<Rightarrow> u8 list" where
  "u64_to_le_bytes w = le_digits 8 (unat w)"

definition from_le_bytes :: "u8 list \<Rightarrow> 'a::len word" where
  "from_le_bytes bs = word_of_nat (le_value bs)"

lemma length_to_le_bytes [simp, wire_simps]:
  "length (u16_to_le_bytes a) = 2"
  "length (u32_to_le_bytes b) = 4"
  "length (u64_to_le_bytes c) = 8"
  by (simp_all add: u16_to_le_bytes_def u32_to_le_bytes_def u64_to_le_bytes_def)

lemma from_to_le_bytes [simp]:
  "from_le_bytes (u16_to_le_bytes a) = a"
  "from_le_bytes (u32_to_le_bytes b) = b"
  "from_le_bytes (u64_to_le_bytes c) = c"
proof -
  have "unat a < 256 ^ 2" "unat b < 256 ^ 4" "unat c < 256 ^ 8"
    using unsigned_less [where 'a = nat, of a] unsigned_less [where 'a = nat, of b]
      unsigned_less [where 'a = nat, of c] by simp_all
  then show "from_le_bytes (u16_to_le_bytes a) = a"
    "from_le_bytes (u32_to_le_bytes b) = b"
    "from_le_bytes (u64_to_le_bytes c) = c"
    by (simp_all add: from_le_bytes_def u16_to_le_bytes_def u32_to_le_bytes_def
        u64_to_le_bytes_def del: power_numeral le_digits.simps)
qed

section \<open>Fields of a byte string\<close>

text \<open>The \<open>n\<close> bytes at offset \<open>k\<close>.\<close>

definition bytes_at :: "nat \<Rightarrow> nat \<Rightarrow> 'a list \<Rightarrow> 'a list" where
  "bytes_at k n bs = take n (drop k bs)"

lemma length_bytes_at [simp]: "k + n \<le> length bs \<Longrightarrow> length (bytes_at k n bs) = n"
  by (simp add: bytes_at_def)

lemma bytes_at_append_left [wire_simps]: "k + n \<le> length xs \<Longrightarrow> bytes_at k n (xs @ ys) = bytes_at k n xs"
  by (simp add: bytes_at_def)

lemma bytes_at_append_right [wire_simps]:
  "length xs \<le> k \<Longrightarrow> bytes_at k n (xs @ ys) = bytes_at (k - length xs) n ys"
  by (simp add: bytes_at_def)

lemma bytes_at_all [wire_simps]: "length xs = n \<Longrightarrow> bytes_at 0 n (xs @ ys) = xs"
  by (simp add: bytes_at_def)

end
