(* ===== verification/Protocol.thy ===== *)
theory Protocol
  imports Bytes "HOL-Library.Monad_Syntax"
begin

unbundle bit_operations_syntax

text \<open>
  \<open>src/protocol/mod.rs\<close>: the events of the feed, the message parser and the
  splitter of multicast packets.  The cursor reads of the \<open>byteorder\<close> crate are a
  parameter \<open>rd\<close>; the locale \<open>big_endian_reader\<close> states what its documentation
  promises, and every lemma about the parser rests on that contract.  A \<open>None\<close> of the
  parsing functions is a panic (an \<open>unwrap\<close> of a failed read).
\<close>

section \<open>Events and errors\<close>

datatype protocol_error =
    InvalidMessageType u8
  | InsufficientData (expected: nat) (got: nat)
  | ParseError string

datatype side = Buy | Sell

definition side_from_byte :: "u8 \<Rightarrow> protocol_error + side" where
  "side_from_byte b =
     (if b = 0x42 then Inr Buy
      else if b = 0x53 then Inr Sell
      else Inl (InvalidMessageType b))"

text \<open>
  The constructors and their fields in the order of the source:
  \<open>AddOrder timestamp order_ref side shares stock price\<close>,
  \<open>AddOrderMpid timestamp order_ref side shares stock price mpid\<close>,
  \<open>OrderExecuted timestamp order_ref shares match_number\<close>,
  \<open>OrderExecutedPrice timestamp order_ref shares match_number printable price\<close>,
  \<open>OrderCancel timestamp order_ref shares\<close>, \<open>OrderDelete timestamp order_ref\<close>,
  \<open>OrderReplace timestamp order_ref new_order_ref shares price\<close>,
  \<open>StockDirectory timestamp stock market_category financial_status round_lot_size
  round_lots_only issue_classification\<close>, \<open>SystemEvent timestamp event_code\<close>.
\<close>

datatype itch_event =
    AddOrder u64 u64 side u32 u64 u64
  | AddOrderMpid u64 u64 side u32 u64 u64 u32
  | OrderExecuted u64 u64 u32 u64
  | OrderExecutedPrice u64 u64 u32 u64 bool u64
  | OrderCancel u64 u64 u32
  | OrderDelete u64 u64
  | OrderReplace u64 u64 u64 u32 u64
  | StockDirectory u64 u64 u8 u8 u32 bool u8
  | SystemEvent u64 u8

fun timestamp :: "itch_event \<Rightarrow> u64" where
  "timestamp (AddOrder t r sd n s p) = t"
| "timestamp (AddOrderMpid t r sd n s p mpid) = t"
| "timestamp (OrderExecuted t r n mn) = t"
| "timestamp (OrderExecutedPrice t r n mn pr p) = t"
| "timestamp (OrderCancel t r n) = t"
| "timestamp (OrderDelete t r) = t"
| "timestamp (OrderReplace t r r' n p) = t"
| "timestamp (StockDirectory t s mc fs rl rlo ic) = t"
| "timestamp (SystemEvent t c) = t"

section \<open>Cursors\<close>

record cursor =
  get_ref :: "u8 list"
  position :: nat

text \<open>
  The reads of \<open>byteorder::ReadBytesExt\<close> at type \<open>BigEndian\<close>: \<open>None\<close> is an
  \<open>Err\<close>.
\<close>

record byte_reader =
  read_u8 :: "cursor \<Rightarrow> (u8 \<times> cursor) option"
  read_u16 :: "cursor \<Rightarrow> (u16 \<times> cursor) option"
  read_u32 :: "cursor \<Rightarrow> (u32 \<times> cursor) option"
  read_u64 :: "cursor \<Rightarrow> (u64 \<times> cursor) option"

definition new_cursor :: "u8 list \<Rightarrow> cursor" where
  "new_cursor bs = \<lparr>get_ref = bs, position = 0\<rparr>"

definition remaining :: "cursor \<Rightarrow> nat" where
  "remaining c = length (get_ref c) - position c"

definition be_at :: "nat \<Rightarrow> nat \<Rightarrow> u8 list \<Rightarrow> 'a::len word" where
  "be_at k n bs = word_of_nat (be_value (bytes_at k n bs))"

text \<open>The documented behaviour of a read: \<open>n\<close> bytes at the position, big-endian.\<close>

definition be_read :: "nat \<Rightarrow> cursor \<Rightarrow> ('a::len word \<times> cursor) option" where
  "be_read n c =
     (if position c + n \<le> length (get_ref c)
      then Some (be_at (position c) n (get_ref c), c\<lparr>position := position c + n\<rparr>)
      else None)"

section \<open>The message parser\<close>

text \<open>The six-byte timestamp, read as a \<open>u16\<close> and a \<open>u32\<close>.\<close>

definition read_timestamp :: "byte_reader \<Rightarrow> cursor \<Rightarrow> (u64 \<times> cursor) option" where
  "read_timestamp rd c = do {
     (t1, c) \<leftarrow> read_u16 rd c;
     (t2, c) \<leftarrow> read_u32 rd c;
     Some (push_bit 32 (ucast t1) OR ucast t2, c)
   }"

definition parse_add_order ::
  "byte_reader \<Rightarrow> cursor \<Rightarrow> bool \<Rightarrow> (protocol_error + itch_event) option" where
  "parse_add_order rd c with_mpid =
     (let expected = (if with_mpid then 36 else 32) in
      if remaining c < expected then Some (Inl (InsufficientData expected (remaining c)))
      else do {
        (timestamp, c) \<leftarrow> read_timestamp rd c;
        (order_ref, c) \<leftarrow> read_u64 rd c;
        (buy_sell, c) \<leftarrow> read_u8 rd c;
        (case side_from_byte buy_sell of
           Inl e \<Rightarrow> Some (Inl e)
         | Inr side \<Rightarrow> do {
             (shares, c) \<leftarrow> read_u32 rd c;
             (stock, c) \<leftarrow> read_u64 rd c;
             (price, c) \<leftarrow> read_u32 rd c;
             (if with_mpid then do {
                (mpid, c) \<leftarrow> read_u32 rd c;
                Some (Inr (AddOrderMpid timestamp order_ref side shares stock (ucast price) mpid))
              }
              else Some (Inr (AddOrder timestamp order_ref side shares stock (ucast price))))
           })
      })"

definition parse_order_executed ::
  "byte_reader \<Rightarrow> cursor \<Rightarrow> bool \<Rightarrow> (protocol_error + itch_event) option" where
  "parse_order_executed rd c with_price =
     (let expected = (if with_price then 31 else 26) in
      if remaining c < expected then Some (Inl (InsufficientData expected (remaining c)))
      else do {
        (timestamp, c) \<leftarrow> read_timestamp rd c;
        (order_ref, c) \<leftarrow> read_u64 rd c;
        (shares, c) \<leftarrow> read_u32 rd c;
        (match_number, c) \<leftarrow> read_u64 rd c;
        (if with_price then do {
           (printable, c) \<leftarrow> read_u8 rd c;
           (price, c) \<leftarrow> read_u32 rd c;
           Some (Inr (OrderExecutedPrice timestamp order_ref shares match_number
             (printable = 0x59) (ucast price)))
         }
         else Some (Inr (OrderExecuted timestamp order_ref shares match_number)))
      })"

definition parse_order_cancel ::
  "byte_reader \<Rightarrow> cursor \<Rightarrow> (protocol_error + itch_event) option" where
  "parse_order_cancel rd c =
     (let expected = 22 in
      if remaining c < expected then Some (Inl (InsufficientData expected (remaining c)))
      else do {
        (timestamp, c) \<leftarrow> read_timestamp rd c;
        (order_ref, c) \<leftarrow> read_u64 rd c;
        (shares, c) \<leftarrow> read_u32 rd c;
        Some (Inr (OrderCancel timestamp order_ref shares))
      })"

definition parse_order_delete ::
  "byte_reader \<Rightarrow> cursor \<Rightarrow> (protocol_error + itch_event) option" where
  "parse_order_delete rd c =
     (let expected = 18 in
      if remaining c < expected then Some (Inl (InsufficientData expected (remaining c)))
      else do {
        (timestamp, c) \<leftarrow> read_timestamp rd c;
        (order_ref, c) \<leftarrow> read_u64 rd c;
        Some (Inr (OrderDelete timestamp order_ref))
      })"

definition parse_order_replace ::
  "byte_reader \<Rightarrow> cursor \<Rightarrow> (protocol_error + itch_event) option" where
  "parse_order_replace rd c =
     (let expected = 34 in
      if remaining c < expected then Some (Inl (InsufficientData expected (remaining c)))
      else do {
        (timestamp, c) \<leftarrow> read_timestamp rd c;
        (order_ref, c) \<leftarrow> read_u64 rd c;
        (new_order_ref, c) \<leftarrow> read_u64 rd c;
        (shares, c) \<leftarrow> read_u32 rd c;
        (price, c) \<leftarrow> read_u32 rd c;
        Some (Inr (OrderReplace timestamp order_ref new_order_ref shares (ucast price)))
      })"

definition parse_stock_directory ::
  "byte_reader \<Rightarrow> cursor \<Rightarrow> (protocol_error + itch_event) option" where
  "parse_stock_directory rd c =
     (let expected = 39 in
      if remaining c < expected then Some (Inl (InsufficientData expected (remaining c)))
      else do {
        (timestamp, c) \<leftarrow> read_timestamp rd c;
        (stock, c) \<leftarrow> read_u64 rd c;
        (market_category, c) \<leftarrow> read_u8 rd c;
        (financial_status, c) \<leftarrow> read_u8 rd c;
        (round_lot_size, c) \<leftarrow> read_u32 rd c;
        (round_lots_only, c) \<leftarrow> read_u8 rd c;
        (issue_classification, c) \<leftarrow> read_u8 rd c;
        Some (Inr (StockDirectory timestamp stock market_category financial_status
          round_lot_size (round_lots_only = 0x59) issue_classification))
      })"

definition parse_system_event ::
  "byte_reader \<Rightarrow> cursor \<Rightarrow> (protocol_error + itch_event) option" where
  "parse_system_event rd c =
     (let expected = 11 in
      if remaining c < expected then Some (Inl (InsufficientData expected (remaining c)))
      else do {
        (timestamp, c) \<leftarrow> read_timestamp rd c;
        (event_code, c) \<leftarrow> read_u8 rd c;
        Some (Inr (SystemEvent timestamp event_code))
      })"

definition parse_message ::
  "byte_reader \<Rightarrow> u8 list \<Rightarrow> (protocol_error + itch_event) option" where
  "parse_message rd data =
     (if length data < 3 then Some (Inl (InsufficientData 3 (length data)))
      else
        let msg_type = data ! 2; c = new_cursor (drop 3 data) in
        if msg_type = 0x41 then parse_add_order rd c False
        else if msg_type = 0x46 then parse_add_order rd c True
        else if msg_type = 0x45 then parse_order_executed rd c False
        else if msg_type = 0x43 then parse_order_executed rd c True
        else if msg_type = 0x58 then parse_order_cancel rd c
        else if msg_type = 0x44 then parse_order_delete rd c
        else if msg_type = 0x55 then parse_order_replace rd c
        else if msg_type = 0x52 then parse_stock_directory rd c
        else if msg_type = 0x53 then parse_system_event rd c
        else Some (Inl (InvalidMessageType msg_type)))"

section \<open>Multicast packets\<close>

text \<open>
  \<open>parse_multicast_packet\<close> is an iterator whose state is \<open>offset\<close>.  One call of its
  closure yields the bytes_at of the next message, or ends the iteration.
\<close>

definition packet_next :: "u8 list \<Rightarrow> nat \<Rightarrow> u8 list option \<times> nat" where
  "packet_next packet offset =
     (if offset + 2 > length packet then (None, offset)
      else
        let len = push_bit 8 (unat (packet ! offset)) OR unat (packet ! (offset + 1)) in
        if len < 2 \<or> offset + 2 + len > length packet then (None, length packet)
        else (Some (bytes_at offset (2 + len) packet), offset + 2 + len))"

lemma packet_next_Some:
  "packet_next packet offset = (Some m, offset') \<Longrightarrow>
     offset + 4 \<le> offset' \<and> offset' \<le> length packet \<and> m = bytes_at offset (offset' - offset) packet"
  by (auto simp: packet_next_def Let_def split: if_splits)

text \<open>The consumer's loop: it takes items until the iterator ends; a panic ends it all.\<close>

function parse_packet_from ::
  "byte_reader \<Rightarrow> u8 list \<Rightarrow> nat \<Rightarrow> (protocol_error + itch_event) list option" where
  "parse_packet_from rd packet offset =
     (case packet_next packet offset of
        (None, _) \<Rightarrow> Some []
      | (Some m, offset') \<Rightarrow> do {
          item \<leftarrow> parse_message rd m;
          items \<leftarrow> parse_packet_from rd packet offset';
          Some (item # items)
        })"
  by pat_completeness auto
termination
  by (relation "measure (\<lambda>(rd, packet, offset). length packet - offset)")
    (auto dest!: packet_next_Some [OF sym])

declare parse_packet_from.simps [simp del]

definition parse_multicast_packet ::
  "byte_reader \<Rightarrow> u8 list \<Rightarrow> (protocol_error + itch_event) list option" where
  "parse_multicast_packet rd packet = parse_packet_from rd packet 0"

end
