(* ===== verification/Protocol_Correct.thy ===== *)
theory Protocol_Correct
  imports Protocol
begin

text \<open>
  The parser against offset tables: what the cursor code of \<open>Protocol\<close> reads is the field
  at its offset, an encoder for round trips, and the splitting of packets into frames.  The
  cursor reads of the byte-order crate satisfy the contract \<open>big_endian_reader\<close>.
\<close>

section \<open>Shifts and ors of byte-sized parts are sums\<close>

lemma or_push_bit_nat:
  assumes "b < 2 ^ n"
  shows "push_bit n a OR b = a * 2 ^ n + (b :: nat)"
proof -
  have "push_bit n a AND b = 0"
    using assms by (auto intro!: bit_eqI simp: bit_simps) (metis bit_take_bit_iff not_le take_bit_nat_eq_self)
  then have "push_bit n a OR b = push_bit n a + b"
    by (simp add: disjunctive_add_eq_or)
  then show ?thesis by (simp add: push_bit_eq_mult)
qed

lemma timestamp_of_parts:
  fixes a :: u16 and b :: u32
  shows "push_bit 32 (ucast a) OR ucast b = (word_of_nat (unat a * 2 ^ 32 + unat b) :: u64)"
proof -
  have a: "unat a < 2 ^ 16" and b: "unat b < 2 ^ 32"
    using unsigned_less [where 'a = nat, of a] unsigned_less [where 'a = nat, of b] by simp_all
  have "unat (ucast a :: u64) = unat a"
    using a by (simp add: unsigned_ucast_eq take_bit_nat_eq_self)
  moreover have "unat a * 2 ^ 32 < 2 ^ 64" using a by simp
  ultimately have "unat (push_bit 32 (ucast a) :: u64) = push_bit 32 (unat a)"
    unfolding unsigned_push_bit_eq by (simp add: take_bit_nat_eq_self push_bit_eq_mult)
  then have "unat (push_bit 32 (ucast a) OR ucast b :: u64) = unat a * 2 ^ 32 + unat b"
    using b unfolding unsigned_or_eq unat_u32_as_u64 by (simp only: or_push_bit_nat)
  then show ?thesis by (metis word_of_nat_eq_iff of_nat_unat ucast_id)
qed

lemma bytes_at_split: "bytes_at k (m + n) bs = bytes_at k m bs @ bytes_at (k + m) n bs"
  by (simp add: bytes_at_def take_add add.commute)

lemma unat_be_at:
  assumes "n * 8 \<le> LENGTH('a)" "k + n \<le> length bs"
  shows "unat (be_at k n bs :: 'a::len word) = be_value (bytes_at k n bs)"
proof -
  have "be_value (bytes_at k n bs) < 256 ^ n"
    using be_value_less [of "bytes_at k n bs"] assms(2) by simp
  also have "(256 :: nat) ^ n = 2 ^ (n * 8)" by (simp add: mult.commute [of n] power_mult)
  also have "\<dots> \<le> 2 ^ LENGTH('a)" using assms(1) by simp
  finally show ?thesis by (simp add: be_at_def unat_of_nat)
qed

section \<open>The message layouts\<close>

text \<open>
  What the feed's messages look like, independently of the cursor: the bytes after the
  type byte, by offset.  \<open>guard_length\<close> is the length the parser insists on,
  \<open>field_length\<close> the length its fields take.
\<close>

definition guard_length :: "u8 \<Rightarrow> nat option" where
  "guard_length ty =
     map_of [(0x41, 32), (0x46, 36), (0x45, 26), (0x43, 31), (0x58, 22), (0x44, 18),
             (0x55, 34), (0x52, 39), (0x53, 11)] ty"

definition decode_fields :: "u8 \<Rightarrow> u8 list \<Rightarrow> protocol_error + itch_event" where
  "decode_fields ty bs =
     (let price_at = (\<lambda>k. ucast (be_at k 4 bs :: u32) :: u64) in
      if ty = 0x41 then
        (case side_from_byte (be_at 14 1 bs) of Inl e \<Rightarrow> Inl e
         | Inr sd \<Rightarrow> Inr (AddOrder (be_at 0 6 bs) (be_at 6 8 bs) sd (be_at 15 4 bs)
             (be_at 19 8 bs) (price_at 27)))
      else if ty = 0x46 then
        (case side_from_byte (be_at 14 1 bs) of Inl e \<Rightarrow> Inl e
         | Inr sd \<Rightarrow> Inr (AddOrderMpid (be_at 0 6 bs) (be_at 6 8 bs) sd (be_at 15 4 bs)
             (be_at 19 8 bs) (price_at 27) (be_at 31 4 bs)))
      else if ty = 0x45 then
        Inr (OrderExecuted (be_at 0 6 bs) (be_at 6 8 bs) (be_at 14 4 bs) (be_at 18 8 bs))
      else if ty = 0x43 then
        Inr (OrderExecutedPrice (be_at 0 6 bs) (be_at 6 8 bs) (be_at 14 4 bs) (be_at 18 8 bs)
          ((be_at 26 1 bs :: u8) = 0x59) (price_at 27))
      else if ty = 0x58 then
        Inr (OrderCancel (be_at 0 6 bs) (be_at 6 8 bs) (be_at 14 4 bs))
      else if ty = 0x44 then Inr (OrderDelete (be_at 0 6 bs) (be_at 6 8 bs))
      else if ty = 0x55 then
        Inr (OrderReplace (be_at 0 6 bs) (be_at 6 8 bs) (be_at 14 8 bs) (be_at 22 4 bs) (price_at 26))
      else if ty = 0x52 then
        Inr (StockDirectory (be_at 0 6 bs) (be_at 6 8 bs) (be_at 14 1 bs) (be_at 15 1 bs)
          (be_at 16 4 bs) ((be_at 20 1 bs :: u8) = 0x59) (be_at 21 1 bs))
      else Inr (SystemEvent (be_at 0 6 bs) (be_at 6 1 bs)))"

definition decode_message :: "u8 list \<Rightarrow> protocol_error + itch_event" where
  "decode_message data =
     (if length data < 3 then Inl (InsufficientData 3 (length data))
      else case guard_length (data ! 2) of
        None \<Rightarrow> Inl (InvalidMessageType (data ! 2))
      | Some g \<Rightarrow>
          (let body = drop 3 data in
           if length body < g then Inl (InsufficientData g (length body))
           else decode_fields (data ! 2) body))"

text \<open>No event is shorter than eleven bytes after its header.\<close>

lemma decode_message_length: "decode_message data = Inr ev \<Longrightarrow> 14 \<le> length data"
  by (auto simp: decode_message_def guard_length_def Let_def split: if_splits option.splits)

text \<open>The sender's side: the fields of an event, big-endian, and the two-byte length.\<close>

definition flag_byte :: "bool \<Rightarrow> u8" where
  "flag_byte b = (if b then 0x59 else 0x4E)"

definition side_byte :: "side \<Rightarrow> u8" where
  "side_byte sd = (case sd of Buy \<Rightarrow> 0x42 | Sell \<Rightarrow> 0x53)"

fun encode_type :: "itch_event \<Rightarrow> u8" where
  "encode_type (AddOrder t r sd n s p) = 0x41"
| "encode_type (AddOrderMpid t r sd n s p mpid) = 0x46"
| "encode_type (OrderExecuted t r n mn) = 0x45"
| "encode_type (OrderExecutedPrice t r n mn pr p) = 0x43"
| "encode_type (OrderCancel t r n) = 0x58"
| "encode_type (OrderDelete t r) = 0x44"
| "encode_type (OrderReplace t r r' n p) = 0x55"
| "encode_type (StockDirectory t s mc fs rl rlo ic) = 0x52"
| "encode_type (SystemEvent t c) = 0x53"

definition be64 :: "u64 \<Rightarrow> u8 list" where "be64 w = be_digits 8 (unat w)"
definition be32 :: "u32 \<Rightarrow> u8 list" where "be32 w = be_digits 4 (unat w)"
definition be48 :: "u64 \<Rightarrow> u8 list" where "be48 w = be_digits 6 (unat w)"
definition be_price :: "u64 \<Rightarrow> u8 list" where "be_price w = be_digits 4 (unat w)"

fun encode_fields :: "itch_event \<Rightarrow> u8 list" where
  "encode_fields (AddOrder t r sd n s p) =
     be48 t @ be64 r @ [side_byte sd] @ be32 n @ be64 s @ be_price p"
| "encode_fields (AddOrderMpid t r sd n s p mpid) =
     be48 t @ be64 r @ [side_byte sd] @ be32 n @ be64 s @ be_price p @ be32 mpid"
| "encode_fields (OrderExecuted t r n mn) = be48 t @ be64 r @ be32 n @ be64 mn"
| "encode_fields (OrderExecutedPrice t r n mn pr p) =
     be48 t @ be64 r @ be32 n @ be64 mn @ [flag_byte pr] @ be_price p"
| "encode_fields (OrderCancel t r n) = be48 t @ be64 r @ be32 n"
| "encode_fields (OrderDelete t r) = be48 t @ be64 r"
| "encode_fields (OrderReplace t r r' n p) = be48 t @ be64 r @ be64 r' @ be32 n @ be_price p"
| "encode_fields (StockDirectory t s mc fs rl rlo ic) =
     be48 t @ be64 s @ [mc, fs] @ be32 rl @ [flag_byte rlo, ic]"
| "encode_fields (SystemEvent t c) = be48 t @ [c]"

definition length_prefixed :: "u8 list \<Rightarrow> u8 list" where
  "length_prefixed m = be_digits 2 (length m) @ m"

text \<open>A message: type, fields and padding behind its length.\<close>

definition encode_message :: "itch_event \<Rightarrow> u8 list \<Rightarrow> u8 list" where
  "encode_message ev pad = length_prefixed (encode_type ev # encode_fields ev @ pad)"

text \<open>The events the wire format can carry: 48-bit timestamps, 32-bit prices.\<close>

definition timestamp_ok :: "u64 \<Rightarrow> bool" where "timestamp_ok t \<longleftrightarrow> unat t < 2 ^ 48"
definition price_ok :: "u64 \<Rightarrow> bool" where "price_ok p \<longleftrightarrow> unat p < 2 ^ 32"

fun wire_event :: "itch_event \<Rightarrow> bool" where
  "wire_event (AddOrder t r sd n s p) \<longleftrightarrow> timestamp_ok t \<and> price_ok p"
| "wire_event (AddOrderMpid t r sd n s p mpid) \<longleftrightarrow> timestamp_ok t \<and> price_ok p"
| "wire_event (OrderExecutedPrice t r n mn pr p) \<longleftrightarrow> timestamp_ok t \<and> price_ok p"
| "wire_event (OrderReplace t r r' n p) \<longleftrightarrow> timestamp_ok t \<and> price_ok p"
| "wire_event ev \<longleftrightarrow> timestamp_ok (timestamp ev)"

section \<open>Reading back encoded fields\<close>

lemma length_be [simp, wire_simps]:
  "length (be64 w) = 8" "length (be32 n) = 4" "length (be48 w) = 6" "length (be_price w) = 4"
  by (simp_all add: be64_def be32_def be48_def be_price_def)

lemma be_at_skip [wire_simps]:
  "length xs \<le> k \<Longrightarrow> be_at k n (xs @ ys) = be_at (k - length xs) n ys"
  by (simp add: be_at_def bytes_at_append_right)

lemma be_at_skip_byte [wire_simps]: "0 < k \<Longrightarrow> be_at k n (b # ys) = be_at (k - 1) n ys"
  using be_at_skip [of "[b]" k n ys] by simp

lemma be_at_first: "length xs = n \<Longrightarrow> be_at 0 n (xs @ ys) = word_of_nat (be_value xs)"
  by (simp add: be_at_def bytes_at_all)

lemma be_at_exact: "length xs = n \<Longrightarrow> be_at 0 n xs = word_of_nat (be_value xs)"
  using be_at_first [of xs n "[]"] by simp

lemma be_at_byte [wire_simps]: "be_at 0 (Suc 0) (b # ys) = (b :: u8)"
  using be_at_first [of "[b]" 1 ys, where 'a = 8] by (simp add: be_value_def ucast_id)

lemma value_be64: "word_of_nat (be_value (be64 w)) = w"
proof -
  have "unat w < 256 ^ 8" using unat_u64_less [of w] by simp
  then show ?thesis by (simp add: be64_def del: power_numeral)
qed

lemma value_be32: "word_of_nat (be_value (be32 w)) = w"
proof -
  have "unat w < 256 ^ 4" using unat_u32_less [of w] by simp
  then show ?thesis by (simp add: be32_def del: power_numeral)
qed

lemma value_be48: "timestamp_ok w \<Longrightarrow> word_of_nat (be_value (be48 w)) = w"
  by (simp add: be48_def timestamp_ok_def)

lemma value_be_price: "price_ok w \<Longrightarrow> ucast (word_of_nat (be_value (be_price w)) :: u32) = w"
  by (simp add: be_price_def price_ok_def word_unat_eq_iff unat_u32_as_u64 unat_of_nat del: of_nat_unat)

lemma be_at_be [wire_simps]:
  "be_at 0 8 (be64 w @ ys) = w" "be_at 0 8 (be64 w) = w"
  "be_at 0 4 (be32 n @ ys) = n" "be_at 0 4 (be32 n) = n"
  by (simp_all add: be_at_first be_at_exact value_be64 value_be32)

lemma be_at_be48 [wire_simps]:
  "timestamp_ok w \<Longrightarrow> be_at 0 6 (be48 w @ ys) = w"
  by (simp add: be_at_first value_be48)

lemma be_at_price [wire_simps]:
  "price_ok w \<Longrightarrow> ucast (be_at 0 4 (be_price w @ ys) :: u32) = w"
  "price_ok w \<Longrightarrow> ucast (be_at 0 4 (be_price w) :: u32) = w"
  by (simp_all add: be_at_first be_at_exact value_be_price)

lemma flag_byte_iff [simp]: "flag_byte b = 0x59 \<longleftrightarrow> b"
  by (simp add: flag_byte_def)

lemma side_from_side_byte [simp]: "side_from_byte (side_byte sd) = Inr sd"
  by (cases sd) (simp_all add: side_from_byte_def side_byte_def)

lemma decode_encode_fields:
  "wire_event ev \<Longrightarrow> decode_fields (encode_type ev) (encode_fields ev @ pad) = Inr ev"
  by (cases ev) (simp_all add: decode_fields_def wire_simps)

lemma timestamp_ok_be_at: "timestamp_ok (be_at k 6 bs)"
proof -
  have "be_value (bytes_at k 6 bs) < 256 ^ length (bytes_at k 6 bs)" by (rule be_value_less)
  also have "\<dots> \<le> 256 ^ 6" by (rule power_increasing) (simp_all add: bytes_at_def)
  finally show ?thesis by (simp add: timestamp_ok_def be_at_def unat_of_nat)
qed

lemma price_ok_u32: "price_ok (ucast (n :: u32))"
  using unat_u32_less [of n] by (simp add: price_ok_def unat_u32_as_u64)

section \<open>The contract of the cursor reads\<close>

locale big_endian_reader =
  fixes rd :: byte_reader
  assumes read_u8_be: "read_u8 rd c = be_read 1 c"
    and read_u16_be: "read_u16 rd c = be_read 2 c"
    and read_u32_be: "read_u32 rd c = be_read 4 c"
    and read_u64_be: "read_u64 rd c = be_read 8 c"
begin

lemmas reads = read_u8_be read_u16_be read_u32_be read_u64_be

text \<open>The six timestamp bytes are one big-endian number.\<close>

lemma read_timestamp_be: "read_timestamp rd c = be_read 6 c"
proof (cases "position c + 6 \<le> length (get_ref c)")
  case True
  let ?k = "position c" and ?bs = "get_ref c"
  have "bytes_at ?k 6 ?bs = bytes_at ?k 2 ?bs @ bytes_at (?k + 2) 4 ?bs"
    using bytes_at_split [of ?k 2 4 ?bs] by simp
  then have six: "be_value (bytes_at ?k 6 ?bs) =
      be_value (bytes_at ?k 2 ?bs) * 2 ^ 32 + be_value (bytes_at (?k + 2) 4 ?bs)"
    using True by (simp add: be_value_append)
  have "unat (be_at ?k 2 ?bs :: u16) = be_value (bytes_at ?k 2 ?bs)"
    and "unat (be_at (?k + 2) 4 ?bs :: u32) = be_value (bytes_at (?k + 2) 4 ?bs)"
    using True by (simp_all add: unat_be_at)
  then have "push_bit 32 (ucast (be_at ?k 2 ?bs :: u16)) OR ucast (be_at (?k + 2) 4 ?bs :: u32)
      = (be_at ?k 6 ?bs :: u64)"
    unfolding timestamp_of_parts by (simp only: be_at_def [of ?k 6] six)
  then show ?thesis using True
    by (simp add: read_timestamp_def reads be_read_def)
next
  case False
  then show ?thesis
    by (auto simp: read_timestamp_def reads be_read_def split: if_splits)
qed

text \<open>Each parsing function computes the offset table; no read of it can fail.\<close>

lemmas parser_defs =
  parse_add_order_def parse_order_executed_def parse_order_cancel_def parse_order_delete_def
  parse_order_replace_def parse_stock_directory_def parse_system_event_def

lemma parse_message_eq: "parse_message rd data = Some (decode_message data)"
proof (cases "length data < 3")
  case True
  then show ?thesis by (simp add: parse_message_def decode_message_def)
next
  case False
  then show ?thesis
    by (simp add: parse_message_def decode_message_def Let_def guard_length_def decode_fields_def
        parser_defs read_timestamp_be reads be_read_def new_cursor_def remaining_def
        split: sum.split)
qed

lemma parse_packet_from_eq:
  "parse_packet_from rd packet offset =
     (case packet_next packet offset of
        (None, _) \<Rightarrow> Some []
      | (Some m, offset') \<Rightarrow>
          map_option ((#) (decode_message m)) (parse_packet_from rd packet offset'))"
  by (subst parse_packet_from.simps)
    (auto simp: parse_message_eq map_option_case split: prod.split option.split)

end

section \<open>Framing\<close>

lemma length_prefix_value:
  assumes "length m < 2 ^ 16"
  shows "push_bit 8 (unat (length_prefixed m ! 0)) OR unat (length_prefixed m ! 1) = length m"
proof -
  have "length m div 256 < 256" using assms by simp
  then have "length_prefixed m = [word_of_nat (length m div 256), word_of_nat (length m mod 256)] @ m"
    by (simp add: length_prefixed_def be_digits_def numeral_2_eq_2)
  moreover have "unat (word_of_nat (length m div 256) :: u8) = length m div 256"
    using \<open>length m div 256 < 256\<close> by (simp add: unat_of_nat)
  moreover have "length m mod 256 < 2 ^ 8" by simp
  then have "push_bit 8 (length m div 256) OR length m mod 256 = length m"
    by (simp only: or_push_bit_nat) (simp add: div_mult_mod_eq [of _ 256])
  ultimately show ?thesis by (simp add: unat_byte_of_nat)
qed

lemma length_length_prefixed [simp]: "length (length_prefixed m) = length m + 2"
  by (simp add: length_prefixed_def)

lemma packet_next_frame:
  assumes "2 \<le> length m" "length m < 2 ^ 16"
  shows "packet_next (pre @ length_prefixed m @ post) (length pre) =
           (Some (length_prefixed m), length (pre @ length_prefixed m))"
proof -
  have "(pre @ length_prefixed m @ post) ! length pre = length_prefixed m ! 0"
    and "(pre @ length_prefixed m @ post) ! (length pre + 1) = length_prefixed m ! 1"
    by (simp_all add: nth_append)
  then show ?thesis
    using assms length_prefix_value [OF assms(2)]
    by (simp add: packet_next_def Let_def bytes_at_def)
qed

text \<open>Where the iteration ends: fewer than two bytes left, or a length that does not fit.\<close>

definition packet_ends :: "u8 list \<Rightarrow> bool" where
  "packet_ends bs \<longleftrightarrow>
     length bs < 2 \<or>
     (let len = push_bit 8 (unat (bs ! 0)) OR unat (bs ! 1) in len < 2 \<or> 2 + len > length bs)"

lemma packet_next_ends: "packet_ends bs \<Longrightarrow> fst (packet_next (pre @ bs) (length pre)) = None"
  by (auto simp: packet_ends_def packet_next_def Let_def nth_append)

context big_endian_reader
begin

lemma parse_packet_frames:
  assumes "\<forall>m \<in> set ms. 2 \<le> length m \<and> length m < 2 ^ 16" "packet_ends tail"
  shows "parse_packet_from rd (pre @ concat (map length_prefixed ms) @ tail) (length pre) =
           Some (map (decode_message \<circ> length_prefixed) ms)"
  using assms(1)
proof (induction ms arbitrary: pre)
  case Nil
  then show ?case
    using packet_next_ends [OF assms(2), of pre]
    by (subst parse_packet_from_eq) (auto split: prod.split)
next
  case (Cons m ms)
  let ?pre = "pre @ length_prefixed m"
  have "parse_packet_from rd (?pre @ concat (map length_prefixed ms) @ tail) (length ?pre) =
          Some (map (decode_message \<circ> length_prefixed) ms)"
    by (rule Cons.IH) (use Cons.prems in auto)
  with Cons.prems show ?case
    by (subst parse_packet_from_eq) (simp add: packet_next_frame)
qed

lemma parse_packet_bound:
  assumes "offset \<le> length packet"
  shows "\<exists>items. parse_packet_from rd packet offset = Some items
    \<and> 4 * length items + offset \<le> length packet \<and> 14 * length [ev. Inr ev \<leftarrow> items] + offset \<le> length packet"
  using assms
proof (induction "length packet - offset" arbitrary: offset rule: less_induct)
  case less
  obtain mo offset' where step: "packet_next packet offset = (mo, offset')" by fastforce
  show ?case
  proof (cases mo)
    case None
    with step less.prems show ?thesis by (subst parse_packet_from_eq) auto
  next
    case (Some m)
    then have bounds: "offset + 4 \<le> offset'" "offset' \<le> length packet"
      and m: "m = bytes_at offset (offset' - offset) packet"
      using packet_next_Some [of packet offset m offset'] step by auto
    then obtain items where items: "parse_packet_from rd packet offset' = Some items"
      "4 * length items + offset' \<le> length packet" "14 * length [ev. Inr ev \<leftarrow> items] + offset' \<le> length packet"
      using less.hyps [of offset'] by force
    have "14 * length [ev. Inr ev \<leftarrow> [decode_message m]] + offset \<le> offset'"
    proof (cases "decode_message m")
      case (Inr ev)
      from decode_message_length [OF this] show ?thesis using m bounds Inr by simp
    qed (use bounds in simp)
    with items(3) have "14 * length [ev. Inr ev \<leftarrow> decode_message m # items] + offset \<le> length packet"
      by (simp add: algebra_simps)
    with step Some bounds items(1,2) show ?thesis
      by (subst parse_packet_from_eq) simp
  qed
qed

end

section \<open>Instances of the contract\<close>

text \<open>The documented reads, as a concrete reader: the contract can be met.\<close>

definition byteorder_be :: byte_reader where
  "byteorder_be =
     \<lparr>read_u8 = be_read 1, read_u16 = be_read 2, read_u32 = be_read 4, read_u64 = be_read 8\<rparr>"

interpretation feed: big_endian_reader byteorder_be
  by unfold_locales (simp_all add: byteorder_be_def)

section \<open>Properties\<close>

text \<open>
  C17: For every byte string the parser returns, without a panic, exactly what the offset
  table of the message type says, errors included: each \<open>unwrap\<close> of a cursor read is
  covered by the length check before it.
\<close>

theorem parse_message_decodes:
  assumes "big_endian_reader rd"
  shows "parse_message rd data = Some (decode_message data)"
  using assms by (rule big_endian_reader.parse_message_eq)

theorem parse_message_decodes_witness:
  "parse_message byteorder_be
     [0, 19, 0x44, 0, 0, 0, 0, 0, 7, 0, 0, 0, 0, 0, 0, 1, 2, 0, 0, 0, 0]
   = Some (Inr (OrderDelete 7 258))"
proof -
  let ?d = "[0, 19, 0x44, 0, 0, 0, 0, 0, 7, 0, 0, 0, 0, 0, 0, 1, 2, 0, 0, 0, 0] :: u8 list"
  have "decode_message ?d = Inr (OrderDelete 7 258)"
    by (simp add: decode_message_def guard_length_def decode_fields_def be_at_def bytes_at_def
        be_value_def)
  then show ?thesis
    using parse_message_decodes [OF feed.big_endian_reader_axioms, of ?d] by simp
qed

text \<open>
  C18: Round trip of the feed: an event whose timestamp and prices fit their wire fields,
  sent with enough padding to reach the length the parser insists on, is parsed back to
  itself.
\<close>

theorem parse_encode_roundtrip:
  assumes "big_endian_reader rd" "wire_event ev"
    and "guard_length (encode_type ev) = Some g" "g \<le> length (encode_fields ev @ pad)"
  shows "parse_message rd (encode_message ev pad) = Some (Inr ev)"
proof -
  have "encode_message ev pad ! 2 = encode_type ev"
    and "drop 3 (encode_message ev pad) = encode_fields ev @ pad"
    and "\<not> length (encode_message ev pad) < 3"
    by (simp_all add: encode_message_def length_prefixed_def nth_append)
  then show ?thesis
    using assms
    by (simp add: big_endian_reader.parse_message_eq decode_message_def decode_encode_fields)
qed

theorem parse_encode_roundtrip_witness:
  "parse_message byteorder_be
     (encode_message (OrderReplace 5 1 2 300 1500000) [0, 0, 0, 0])
   = Some (Inr (OrderReplace 5 1 2 300 1500000))"
  by (rule parse_encode_roundtrip [OF feed.big_endian_reader_axioms, where g = 34])
    (simp_all add: guard_length_def timestamp_ok_def price_ok_def)

text \<open>
  Every event the parser delivers is one the wire format can carry: its timestamp is
  below \<open>2 ^ 48\<close> and its price below \<open>2 ^ 32\<close>, so price arithmetic downstream
  starts from 32-bit values.
\<close>

theorem parse_message_range:
  assumes "big_endian_reader rd" "parse_message rd data = Some (Inr ev)"
  shows "wire_event ev"
proof -
  have "decode_message data = Inr ev"
    using assms by (simp add: big_endian_reader.parse_message_eq)
  then show ?thesis
    by (auto simp: decode_message_def decode_fields_def Let_def timestamp_ok_be_at price_ok_u32
        split: if_splits option.splits sum.splits)
qed

theorem parse_message_range_witness: "wire_event (SystemEvent 0x010203040506 0x4F)"
  by (rule parse_message_range [OF feed.big_endian_reader_axioms,
        of "[0, 12, 0x53, 1, 2, 3, 4, 5, 6, 0x4F, 0, 0, 0, 0]"])
    (simp add: feed.parse_message_eq decode_message_def guard_length_def decode_fields_def
      be_at_def bytes_at_def be_value_def)

text \<open>
  A message sent without padding is refused whenever the parser's length check asks
  for more bytes than the fields take: so for six of the nine message types (add, cancel,
  delete, replace, directory and system events) the exact encoding is an error.
\<close>

theorem exact_encoding_refused:
  assumes "big_endian_reader rd"
    and "guard_length (encode_type ev) = Some g" "length (encode_fields ev) < g"
  shows "parse_message rd (encode_message ev []) =
           Some (Inl (InsufficientData g (length (encode_fields ev))))"
proof -
  have "encode_message ev [] ! 2 = encode_type ev"
    and "drop 3 (encode_message ev []) = encode_fields ev"
    and "\<not> length (encode_message ev []) < 3"
    by (simp_all add: encode_message_def length_prefixed_def nth_append)
  then show ?thesis
    using assms by (simp add: big_endian_reader.parse_message_eq decode_message_def)
qed

theorem exact_encoding_refused_witness:
  "parse_message byteorder_be (encode_message (OrderDelete 7 258) []) =
     Some (Inl (InsufficientData 18 14))"
  using exact_encoding_refused [OF feed.big_endian_reader_axioms, of "OrderDelete 7 258" 18]
  by (simp add: guard_length_def)

text \<open>
  C19: A packet that is a sequence of well-formed frames is split into exactly these
  frames, in order, each parsed on its own (a bad message does not disturb the next);
  what follows the first malformed length is dropped.
\<close>

theorem multicast_packet_frames:
  assumes "big_endian_reader rd"
    and "\<forall>m \<in> set ms. 2 \<le> length m \<and> length m < 2 ^ 16" "packet_ends tail"
  shows "parse_multicast_packet rd (concat (map length_prefixed ms) @ tail) =
           Some (map (decode_message \<circ> length_prefixed) ms)"
  using big_endian_reader.parse_packet_frames [OF assms, of "[]"]
  by (simp add: parse_multicast_packet_def)

theorem multicast_packet_frames_witness:
  "parse_multicast_packet byteorder_be
     (concat (map length_prefixed [[0x51, 0], [0x53, 0, 0, 0, 0, 0, 9, 0x4F, 0, 0, 0, 0]]) @ [0])
   = Some [Inl (InvalidMessageType 0x51), Inr (SystemEvent 9 0x4F)]"
proof -
  let ?ms = "[[0x51, 0], [0x53, 0, 0, 0, 0, 0, 9, 0x4F, 0, 0, 0, 0]] :: u8 list list"
  have "decode_message (length_prefixed [0x51, 0]) = Inl (InvalidMessageType 0x51)"
    by (simp add: decode_message_def guard_length_def length_prefixed_def be_digits_def
        le_digits_numeral)
  moreover have "decode_message (length_prefixed [0x53, 0, 0, 0, 0, 0, 9, 0x4F, 0, 0, 0, 0]) =
      Inr (SystemEvent 9 0x4F)"
    by (simp add: decode_message_def guard_length_def length_prefixed_def be_digits_def
        le_digits_numeral decode_fields_def be_at_def bytes_at_def be_value_def)
  moreover have "packet_ends [0]" by (simp add: packet_ends_def)
  ultimately show ?thesis
    using multicast_packet_frames [OF feed.big_endian_reader_axioms, of ?ms "[0]"] by simp
qed

text \<open>
  The splitter is safe on every packet: it terminates without a panic, whatever the
  bytes, and yields at most one item per four bytes and at most one event per fourteen: a
  datagram of 65536 bytes holds at most 4681 events.
\<close>

theorem multicast_packet_safe:
  assumes "big_endian_reader rd"
  shows "\<exists>items. parse_multicast_packet rd packet = Some items \<and>
           4 * length items \<le> length packet \<and> 14 * length [ev. Inr ev \<leftarrow> items] \<le> length packet"
  using big_endian_reader.parse_packet_bound [OF assms, of 0 packet]
  by (simp add: parse_multicast_packet_def)

theorem multicast_packet_safe_witness:
  "\<exists>items. parse_multicast_packet byteorder_be [0, 9, 1] = Some items \<and>
     4 * length items \<le> length [0, 9, 1 :: u8]"
  using multicast_packet_safe [OF feed.big_endian_reader_axioms, of "[0, 9, 1]"] by blast

end
