(* ===== verification/Keyed_Map.thy ===== *)
theory Keyed_Map
  imports Prelude
begin

text \<open>
  The two maps of the code behind one interface.  \<open>BTreeMap\<close> (the levels of a book
  side) is an association list with strictly ascending keys, whose order is the
  iteration order of \<open>values()\<close>; \<open>AHashMap\<close> is a partial function.  The locale
  \<open>keyed_map\<close> is what their clients use: lookup after an insert and after a remove.
\<close>

section \<open>The interface\<close>

locale keyed_map =
  fixes get :: "'m \<Rightarrow> 'k \<Rightarrow> 'v option"
    and insert :: "'k \<Rightarrow> 'v \<Rightarrow> 'm \<Rightarrow> 'm"
    and remove :: "'k \<Rightarrow> 'm \<Rightarrow> 'm"
    and inv :: "'m \<Rightarrow> bool"
  assumes get_insert: "inv m \<Longrightarrow> get (insert k v m) j = (if j = k then Some v else get m j)"
    and get_remove: "inv m \<Longrightarrow> get (remove k m) j = (if j = k then None else get m j)"
    and inv_insert: "inv m \<Longrightarrow> inv (insert k v m)"
    and inv_remove: "inv m \<Longrightarrow> inv (remove k m)"

section \<open>BTreeMap\<close>

type_synonym ('k, 'v) btree_map = "('k \<times> 'v) list"

definition bt_inv :: "('k::linorder, 'v) btree_map \<Rightarrow> bool" where
  "bt_inv m \<longleftrightarrow> sorted_wrt (<) (map fst m)"

definition bt_get :: "('k, 'v) btree_map \<Rightarrow> 'k \<Rightarrow> 'v option" where
  "bt_get m k = map_of m k"

fun bt_insert :: "'k::linorder \<Rightarrow> 'v \<Rightarrow> ('k, 'v) btree_map \<Rightarrow> ('k, 'v) btree_map" where
  "bt_insert k v [] = [(k, v)]"
| "bt_insert k v (e # m) =
     (if k < fst e then (k, v) # e # m
      else if k = fst e then (k, v) # m
      else e # bt_insert k v m)"

definition bt_remove :: "'k \<Rightarrow> ('k, 'v) btree_map \<Rightarrow> ('k, 'v) btree_map" where
  "bt_remove k m = filter (\<lambda>e. fst e \<noteq> k) m"

definition bt_values :: "('k, 'v) btree_map \<Rightarrow> 'v list" where
  "bt_values m = map snd m"

text \<open>\<open>Iterator::next\<close> of a fresh iterator.\<close>

definition iter_next :: "'a list \<Rightarrow> 'a option" where
  "iter_next xs = (case xs of [] \<Rightarrow> None | x # _ \<Rightarrow> Some x)"

lemma iter_next_simps [simp]: "iter_next [] = None" "iter_next (x # xs) = Some x"
  by (simp_all add: iter_next_def)

lemma iter_next_eq_None [simp]: "iter_next xs = None \<longleftrightarrow> xs = []"
  by (cases xs) simp_all

lemma iter_next_mem: "iter_next xs = Some x \<Longrightarrow> x \<in> set xs"
  by (cases xs) simp_all

lemma map_of_bt_insert: "map_of (bt_insert k v m) j = (if j = k then Some v else map_of m j)"
  by (induction m) (auto split: if_splits)

lemma map_of_bt_remove: "map_of (bt_remove k m) j = (if j = k then None else map_of m j)"
  by (induction m) (auto simp: bt_remove_def)

lemma keys_bt_insert: "fst ` set (bt_insert k v m) = Set.insert k (fst ` set m)"
  by (induction m) auto

lemma bt_inv_insert: "bt_inv m \<Longrightarrow> bt_inv (bt_insert k v m)"
proof (induction m)
  case Nil
  then show ?case by (simp add: bt_inv_def)
next
  case (Cons e m)
  then have IH: "sorted_wrt (<) (map fst (bt_insert k v m))" by (simp add: bt_inv_def)
  consider "k < fst e" | "k = fst e" | "fst e < k" by fastforce
  then show ?case
    using Cons.prems IH by cases (auto simp: bt_inv_def keys_bt_insert)
qed

lemma bt_inv_remove: "bt_inv m \<Longrightarrow> bt_inv (bt_remove k m)"
  by (induction m) (auto simp: bt_inv_def bt_remove_def)

interpretation bt: keyed_map bt_get bt_insert bt_remove bt_inv
  by unfold_locales
    (simp_all add: bt_get_def map_of_bt_insert map_of_bt_remove bt_inv_insert bt_inv_remove)

lemma bt_inv_empty [simp]: "bt_inv []"
  by (simp add: bt_inv_def)

lemma bt_get_empty [simp]: "bt_get [] k = None"
  by (simp add: bt_get_def)

text \<open>
  The iteration order: the first value is the one at the least key, the last one at the
  greatest, and the values come in the order of their keys.
\<close>

lemma bt_first:
  "bt_inv m \<Longrightarrow> iter_next (bt_values m) = Some v \<Longrightarrow>
     \<exists>k. bt_get m k = Some v \<and> (\<forall>j. bt_get m j \<noteq> None \<longrightarrow> k \<le> j)"
proof (cases m)
  case Nil
  then show "iter_next (bt_values m) = Some v \<Longrightarrow> ?thesis" by (simp add: bt_values_def)
next
  case (Cons e m')
  assume "bt_inv m" "iter_next (bt_values m) = Some v"
  with Cons have "bt_get m (fst e) = Some v" "\<forall>j. bt_get m j \<noteq> None \<longrightarrow> fst e \<le> j"
    by (auto simp: bt_inv_def bt_get_def bt_values_def dest!: map_of_SomeD intro: less_imp_le)
  then show ?thesis by blast
qed

lemma bt_last:
  assumes "bt_inv m" "iter_next (rev (bt_values m)) = Some v"
  shows "\<exists>k. bt_get m k = Some v \<and> (\<forall>j. bt_get m j \<noteq> None \<longrightarrow> j \<le> k)"
proof (cases m rule: rev_cases)
  case Nil
  with assms(2) show ?thesis by (simp add: bt_values_def)
next
  case (snoc m' e)
  then have keys: "distinct (map fst m)" and v: "v = snd e"
    using assms by (auto simp: bt_inv_def bt_values_def strict_sorted_iff)
  have "bt_get m (fst e) = Some v"
    unfolding bt_get_def by (rule map_of_is_SomeI [OF keys]) (simp add: snoc v)
  moreover have "\<forall>j. bt_get m j \<noteq> None \<longrightarrow> j \<le> fst e"
    using assms(1) snoc
    by (auto simp: bt_inv_def bt_get_def map_of_eq_None_iff sorted_wrt_append less_imp_le)
  ultimately show ?thesis by blast
qed

lemma bt_values_empty_iff: "bt_values m = [] \<longleftrightarrow> (\<forall>k. bt_get m k = None)"
  by (cases m) (auto simp: bt_values_def bt_get_def)

lemma set_bt_values: "bt_inv m \<Longrightarrow> set (bt_values m) = {v. \<exists>k. bt_get m k = Some v}"
proof -
  assume "bt_inv m"
  then have "distinct (map fst m)" by (simp add: bt_inv_def strict_sorted_iff)
  then show ?thesis by (force simp: bt_values_def bt_get_def)
qed

lemma map_key_bt_values:
  assumes "bt_inv m" "\<And>k v. bt_get m k = Some v \<Longrightarrow> key v = k"
  shows "map key (bt_values m) = map fst m"
proof -
  have "distinct (map fst m)" using assms(1) by (simp add: bt_inv_def strict_sorted_iff)
  then have "key v = k" if "(k, v) \<in> set m" for k v
    using that assms(2) by (simp add: bt_get_def)
  then show ?thesis by (auto simp: bt_values_def)
qed

section \<open>AHashMap\<close>

definition hm_get :: "('k \<rightharpoonup> 'v) \<Rightarrow> 'k \<Rightarrow> 'v option" where
  "hm_get m k = m k"

definition hm_insert :: "'k \<Rightarrow> 'v \<Rightarrow> ('k \<rightharpoonup> 'v) \<Rightarrow> ('k \<rightharpoonup> 'v)" where
  "hm_insert k v m = m(k \<mapsto> v)"

definition hm_remove :: "'k \<Rightarrow> ('k \<rightharpoonup> 'v) \<Rightarrow> ('k \<rightharpoonup> 'v)" where
  "hm_remove k m = m(k := None)"

definition hm_inv :: "('k \<rightharpoonup> 'v) \<Rightarrow> bool" where
  "hm_inv m \<longleftrightarrow> finite (dom m)"

lemmas hm_defs = hm_get_def hm_insert_def hm_remove_def hm_inv_def

interpretation hm: keyed_map hm_get hm_insert hm_remove hm_inv
  by unfold_locales (simp_all add: hm_defs)

end
