(* ===== verification/Levels.thy ===== *)
theory Levels
  imports Keyed_Map
begin

text \<open>
  Price levels (\<open>PriceLevel\<close> of \<open>src/orderbook/mod.rs\<close>) and what both books do
  with them.  The spot book keeps its levels in a \<open>BTreeMap\<close>, the option book in an
  \<open>AHashMap\<close>; adding an order to a level and taking shares out of one is the same
  code in both.  The locale \<open>level_map\<close> proves, once for any keyed map, what that code
  does to the volume shown at each price.
\<close>

section \<open>Price levels\<close>

record price_level =
  pl_price :: u64
  pl_volume :: u64
  order_count :: u32

definition price_level_zero :: price_level where
  "price_level_zero = \<lparr>pl_price = 0, pl_volume = 0, order_count = 0\<rparr>"

definition price_level_new :: "u64 \<Rightarrow> u64 \<Rightarrow> u32 \<Rightarrow> price_level" where
  "price_level_new price volume count =
     \<lparr>pl_price = price, pl_volume = volume, order_count = count\<rparr>"

text \<open>
  The two in-place updates of a level.  Both wrap as the release build does: only the
  count of an addition can (the additions of the count and of the volume are unchecked).
\<close>

definition level_grow :: "u32 \<Rightarrow> price_level \<Rightarrow> price_level" where
  "level_grow shares level =
     level\<lparr>pl_volume := pl_volume level + ucast shares, order_count := order_count level + 1\<rparr>"

definition level_shrink :: "u32 \<Rightarrow> price_level \<Rightarrow> price_level" where
  "level_shrink shares level =
     level\<lparr>pl_volume := saturating_sub (pl_volume level) (ucast shares),
           order_count := saturating_sub (order_count level) 1\<rparr>"

lemma level_price_simps [simp]:
  "pl_price (price_level_new p v c) = p"
  "pl_volume (price_level_new p v c) = v"
  "pl_price (level_grow n l) = pl_price l"
  "pl_price (level_shrink n l) = pl_price l"
  by (simp_all add: price_level_new_def level_grow_def level_shrink_def)

abbreviation level_volume :: "price_level option \<Rightarrow> nat" where
  "level_volume l \<equiv> opt_measure (\<lambda>l. unat (pl_volume l)) l"

section \<open>Levels kept in a keyed map\<close>

locale level_map = keyed_map get insert remove inv
  for get :: "'m \<Rightarrow> u64 \<Rightarrow> price_level option"
    and insert :: "u64 \<Rightarrow> price_level \<Rightarrow> 'm \<Rightarrow> 'm"
    and remove :: "u64 \<Rightarrow> 'm \<Rightarrow> 'm"
    and inv :: "'m \<Rightarrow> bool"
begin

text \<open>The code of \<open>add_order\<close> and of \<open>remove_shares\<close> over the map.\<close>

definition grow :: "u64 \<Rightarrow> u32 \<Rightarrow> 'm \<Rightarrow> 'm" where
  "grow price shares m =
     (case get m price of
        Some level \<Rightarrow> insert price (level_grow shares level) m
      | None \<Rightarrow> insert price (price_level_new price (ucast shares) 1) m)"

definition shrink :: "u64 \<Rightarrow> u32 \<Rightarrow> 'm \<Rightarrow> 'm" where
  "shrink price shares m =
     (case get m price of
        Some level \<Rightarrow>
          (let level = level_shrink shares level; m = insert price level m in
           if pl_volume level = 0 then remove price m else m)
      | None \<Rightarrow> m)"

definition well_formed :: "'m \<Rightarrow> bool" where
  "well_formed m \<longleftrightarrow> inv m \<and> (\<forall>p l. get m p = Some l \<longrightarrow> pl_price l = p)"

definition positive :: "'m \<Rightarrow> bool" where
  "positive m \<longleftrightarrow> (\<forall>p l. get m p = Some l \<longrightarrow> pl_volume l \<noteq> 0)"

lemma well_formed_grow: "well_formed m \<Longrightarrow> well_formed (grow p n m)"
  by (auto simp: well_formed_def grow_def get_insert inv_insert split: option.split)

lemma well_formed_shrink: "well_formed m \<Longrightarrow> well_formed (shrink p n m)"
  by (auto simp: well_formed_def shrink_def get_insert get_remove inv_insert inv_remove Let_def
      split: option.split)

text \<open>Volumes: an addition adds at its price only, provided the level cannot wrap.\<close>

lemma volume_grow:
  assumes "inv m" "level_volume (get m p) + unat n < 2 ^ 64"
  shows "level_volume (get (grow p n m) q) =
           level_volume (get m q) + (if q = p then unat n else 0)"
proof (cases "get m p")
  case None
  then show ?thesis using assms
    by (simp add: grow_def get_insert unat_u32_as_u64)
next
  case (Some l)
  then show ?thesis using assms
    by (simp add: grow_def get_insert level_grow_def unat_u64_add_u32)
qed

lemma volume_shrink:
  assumes "inv m"
  shows "level_volume (get (shrink p n m) q) =
           level_volume (get m q) - (if q = p then unat n else 0)"
proof (cases "get m p")
  case None
  then show ?thesis by (simp add: shrink_def)
next
  case (Some l)
  have "unat (pl_volume (level_shrink n l)) = unat (pl_volume l) - unat n"
    by (simp add: level_shrink_def unat_saturating_sub unat_u32_as_u64)
  then show ?thesis using Some assms
    by (auto simp: shrink_def get_insert get_remove inv_insert Let_def unat_eq_0)
qed

lemma positive_grow:
  assumes "inv m" "positive m" "level_volume (get m p) + unat n < 2 ^ 64" "n \<noteq> 0"
  shows "positive (grow p n m)"
  unfolding positive_def
proof (intro allI impI)
  fix q l assume l: "get (grow p n m) q = Some l"
  have "unat n > 0" using assms(4) by (simp add: unat_gt_0)
  show "pl_volume l \<noteq> 0"
  proof (cases "q = p")
    case True
    then have "unat (pl_volume l) > 0"
      using l volume_grow [OF assms(1,3), of q] \<open>unat n > 0\<close> by simp
    then show ?thesis by auto
  next
    case False
    then have "get m q = Some l"
      using l assms(1) by (simp add: grow_def get_insert split: option.splits)
    then show ?thesis using assms(2) by (simp add: positive_def)
  qed
qed

lemma positive_shrink: "inv m \<Longrightarrow> positive m \<Longrightarrow> positive (shrink p n m)"
  by (auto simp: positive_def shrink_def get_insert get_remove inv_insert Let_def
      split: option.splits if_splits)

text \<open>With positive levels, a price is present exactly when it shows volume.\<close>

lemma positive_present: "positive m \<Longrightarrow> get m p \<noteq> None \<longleftrightarrow> level_volume (get m p) \<noteq> 0"
  by (cases "get m p") (auto simp: positive_def unat_eq_0)

end

interpretation bt_levels: level_map bt_get bt_insert bt_remove bt_inv
  by unfold_locales

interpretation hm_levels: level_map hm_get hm_insert hm_remove hm_inv
  by unfold_locales

end
