(* ===== verification/Order_Ledger.thy ===== *)
theory Order_Ledger
  imports Levels
begin

text \<open>
  The contract between a table of live orders and the levels that aggregate them: the
  volume shown at a price is the number of shares live there.  \<open>amount ord p\<close> is what one
  order contributes to the level at \<open>p\<close> (nothing when it rests on the other side of the
  book).  The spot book and the option book, on both their sides, are instances.
\<close>

locale order_ledger = level_map get insert remove inv
  for get :: "'m \<Rightarrow> u64 \<Rightarrow> price_level option"
    and insert :: "u64 \<Rightarrow> price_level \<Rightarrow> 'm \<Rightarrow> 'm"
    and remove :: "u64 \<Rightarrow> 'm \<Rightarrow> 'm"
    and inv :: "'m \<Rightarrow> bool" +
  fixes amount :: "'o \<Rightarrow> u64 \<Rightarrow> nat"
  assumes amount_less: "amount ord p < 2 ^ 32"
begin

definition shares_at :: "(u64 \<rightharpoonup> 'o) \<Rightarrow> u64 \<Rightarrow> nat" where
  "shares_at orders p = map_total (\<lambda>ord. amount ord p) orders"

definition tracks :: "(u64 \<rightharpoonup> 'o) \<Rightarrow> 'm \<Rightarrow> bool" where
  "tracks orders m \<longleftrightarrow>
     finite (dom orders) \<and> well_formed m \<and> (\<forall>p. level_volume (get m p) = shares_at orders p)"

lemma tracks_empty: "inv m \<Longrightarrow> \<forall>p. get m p = None \<Longrightarrow> tracks Map.empty m"
  by (simp add: tracks_def well_formed_def shares_at_def)

text \<open>Up to \<open>2 ^ 32\<close> live orders of 32-bit sizes cannot wrap a 64-bit volume.\<close>

lemma shares_at_bound: "shares_at orders p \<le> card (dom orders) * (2 ^ 32 - 1)"
proof -
  have "amount ord p \<le> 2 ^ 32 - 1" for ord using amount_less [of ord p] by simp
  then show ?thesis unfolding shares_at_def by (intro map_total_le)
qed

lemma no_wrap:
  assumes "tracks orders m" "card (dom orders) \<le> 2 ^ 32"
  shows "level_volume (get m p) + unat (n :: u32) < 2 ^ 64"
proof -
  have "level_volume (get m p) \<le> 2 ^ 32 * (2 ^ 32 - 1)"
    using shares_at_bound [of orders p] assms
      mult_le_mono1 [of "card (dom orders)" "2 ^ 32" "2 ^ 32 - 1"]
    by (simp add: tracks_def)
  moreover have "unat n < 2 ^ 32" by (rule unat_u32_less)
  ultimately show ?thesis by simp
qed

text \<open>
  One order changes and the levels change by the same amounts: the ledger still balances.
\<close>

lemma tracks_balance:
  assumes "tracks orders m" "well_formed m'"
    and "\<And>p. level_volume (get m' p) + opt_measure (\<lambda>ord. amount ord p) (orders r) =
               level_volume (get m p) + opt_measure (\<lambda>ord. amount ord p) new"
  shows "tracks (orders(r := new)) m'"
proof -
  have fin: "finite (dom orders)" using assms(1) by (simp add: tracks_def)
  have "level_volume (get m' p) = shares_at (orders(r := new)) p" for p
  proof -
    have "level_volume (get m p) = shares_at orders p"
      using assms(1) by (simp add: tracks_def)
    moreover have "shares_at (orders(r := new)) p + opt_measure (\<lambda>ord. amount ord p) (orders r) =
        shares_at orders p + opt_measure (\<lambda>ord. amount ord p) new"
      using map_total_delete [OF fin, of "\<lambda>ord. amount ord p" r]
        map_total_update [OF fin, of "\<lambda>ord. amount ord p" r]
      by (cases new) (simp_all add: shares_at_def)
    ultimately show ?thesis using assms(3) [of p] by simp
  qed
  then show ?thesis using fin assms(2) by (auto simp: tracks_def)
qed

lemma tracks_wf: "tracks orders m \<Longrightarrow> well_formed m" "tracks orders m \<Longrightarrow> inv m"
  by (simp_all add: tracks_def well_formed_def)

lemma tracks_ge: "tracks orders m \<Longrightarrow> orders r = Some ord \<Longrightarrow> amount ord p \<le> level_volume (get m p)"
proof -
  assume t: "tracks orders m" and r: "orders r = Some ord"
  then have "map_total (\<lambda>ord. amount ord p) (orders(r := None)) + amount ord p = shares_at orders p"
    using map_total_delete [of orders "\<lambda>ord. amount ord p" r] by (simp add: tracks_def shares_at_def)
  with t show ?thesis by (simp add: tracks_def)
qed

lemma tracks_add:
  assumes "tracks orders m" "orders r = None" "card (dom orders) \<le> 2 ^ 32"
    and "\<And>q. amount ord q = (if q = p then unat n else 0)"
  shows "tracks (orders(r \<mapsto> ord)) (grow p n m)"
proof (rule tracks_balance [OF assms(1)])
  show "well_formed (grow p n m)"
    by (rule well_formed_grow) (rule tracks_wf [OF assms(1)])
  fix q
  show "level_volume (get (grow p n m) q) + opt_measure (\<lambda>ord. amount ord q) (orders r) =
      level_volume (get m q) + opt_measure (\<lambda>ord. amount ord q) (Some ord)"
    using volume_grow [OF tracks_wf(2) [OF assms(1)] no_wrap [OF assms(1,3)], of p n q] assms(2,4)
    by simp
qed

lemma tracks_shrink:
  assumes "tracks orders m" "orders r = Some ord"
    and "\<And>q. opt_measure (\<lambda>ord. amount ord q) new + (if q = p then unat n else 0) = amount ord q"
  shows "tracks (orders(r := new)) (shrink p n m)"
proof (rule tracks_balance [OF assms(1)])
  show "well_formed (shrink p n m)"
    by (rule well_formed_shrink) (rule tracks_wf [OF assms(1)])
  fix q
  have "(if q = p then unat n else 0) \<le> level_volume (get m q)"
    using assms(3) [of q] tracks_ge [OF assms(1,2), of q] by simp
  then show "level_volume (get (shrink p n m) q) + opt_measure (\<lambda>ord. amount ord q) (orders r) =
      level_volume (get m q) + opt_measure (\<lambda>ord. amount ord q) new"
    using volume_shrink [OF tracks_wf(2) [OF assms(1)], of p n q] assms(2) assms(3) [of q, symmetric]
    by (auto split: if_splits)
qed

text \<open>Only the volumes count: levels that show the same ones balance as well.\<close>

lemma tracks_cong:
  "tracks orders m \<Longrightarrow> well_formed m' \<Longrightarrow>
     (\<And>p. level_volume (get m' p) = level_volume (get m p)) \<Longrightarrow> tracks orders m'"
  by (simp add: tracks_def)

lemma tracks_silent:
  assumes "tracks orders m"
    and "\<And>q. opt_measure (\<lambda>ord. amount ord q) (orders r) = opt_measure (\<lambda>ord. amount ord q) new"
  shows "tracks (orders(r := new)) m"
  by (rule tracks_balance [OF assms(1)]) (simp_all add: assms tracks_wf [OF assms(1)])

end

end
