(* ===== verification/Book_Side.thy ===== *)
theory Book_Side
  imports Order_Ledger Protocol
begin

text \<open>
  \<open>BookSide\<close> of \<open>src/orderbook/mod.rs\<close>: one side of a spot book, its levels in a
  \<open>BTreeMap\<close> keyed by price.
\<close>

section \<open>State and operations\<close>

record book_side =
  levels :: "(u64, price_level) btree_map"
  bs_side :: side

definition book_side_new :: "side \<Rightarrow> book_side" where
  "book_side_new sd = \<lparr>levels = [], bs_side = sd\<rparr>"

definition best_snapshot :: "book_side \<Rightarrow> u64 \<times> u64" where
  "best_snapshot s =
     (case bs_side s of
        Buy \<Rightarrow> (case map_option (\<lambda>l. (pl_price l, pl_volume l)) (iter_next (rev (bt_values (levels s)))) of
                  Some pv \<Rightarrow> pv | None \<Rightarrow> (0, 0))
      | Sell \<Rightarrow> (case map_option (\<lambda>l. (pl_price l, pl_volume l)) (iter_next (bt_values (levels s))) of
                  Some pv \<Rightarrow> pv | None \<Rightarrow> (0, 0)))"

definition best :: "book_side \<Rightarrow> price_level option" where
  "best s =
     (case bs_side s of
        Buy \<Rightarrow> iter_next (rev (bt_values (levels s)))
      | Sell \<Rightarrow> iter_next (bt_values (levels s)))"

definition add_order :: "book_side \<Rightarrow> u64 \<Rightarrow> u32 \<Rightarrow> book_side" where
  "add_order s price shares =
     (case bt_get (levels s) price of
        Some level \<Rightarrow> s\<lparr>levels := bt_insert price (level_grow shares level) (levels s)\<rparr>
      | None \<Rightarrow> s\<lparr>levels := bt_insert price (price_level_new price (ucast shares) 1) (levels s)\<rparr>)"

definition remove_shares :: "book_side \<Rightarrow> u64 \<Rightarrow> u32 \<Rightarrow> book_side" where
  "remove_shares s price shares =
     (case bt_get (levels s) price of
        Some level \<Rightarrow>
          (let level = level_shrink shares level; ls = bt_insert price level (levels s) in
           s\<lparr>levels := (if pl_volume level = 0 then bt_remove price ls else ls)\<rparr>)
      | None \<Rightarrow> s)"

definition delete_all_at_price :: "book_side \<Rightarrow> u64 \<Rightarrow> u32 \<Rightarrow> book_side" where
  "delete_all_at_price s price shares =
     (case bt_get (levels s) price of
        Some level \<Rightarrow>
          (let level = level_shrink shares level; ls = bt_insert price level (levels s) in
           s\<lparr>levels := (if pl_volume level = 0 then bt_remove price ls else ls)\<rparr>)
      | None \<Rightarrow> s)"

text \<open>
  At an unchanged price the count of the level is left alone; otherwise the old level is
  shrunk and the new one grown.  Both arms of the source's \<open>needs_insert_new\<close> yield
  \<open>true\<close>.
\<close>

definition replace_atomically :: "book_side \<Rightarrow> u64 \<Rightarrow> u32 \<Rightarrow> u64 \<Rightarrow> u32 \<Rightarrow> book_side" where
  "replace_atomically s old_price old_shares new_price new_shares =
     (if old_price = new_price then
        (case bt_get (levels s) old_price of
           Some level \<Rightarrow>
             (let level = level\<lparr>pl_volume :=
                    saturating_sub (pl_volume level) (ucast old_shares) + ucast new_shares\<rparr>;
                  ls = bt_insert old_price level (levels s) in
              s\<lparr>levels := (if pl_volume level = 0 then bt_remove old_price ls else ls)\<rparr>)
         | None \<Rightarrow>
             s\<lparr>levels := bt_insert new_price (price_level_new new_price (ucast new_shares) 1) (levels s)\<rparr>)
      else
        (let (s, needs_insert_new) =
             (case bt_get (levels s) old_price of
                Some level \<Rightarrow>
                  (let level = level_shrink old_shares level;
                       ls = bt_insert old_price level (levels s) in
                   (s\<lparr>levels := (if pl_volume level = 0 then bt_remove old_price ls else ls)\<rparr>, True))
              | None \<Rightarrow> (s, True)) in
         if needs_insert_new then
           (case bt_get (levels s) new_price of
              Some level \<Rightarrow> s\<lparr>levels := bt_insert new_price (level_grow new_shares level) (levels s)\<rparr>
            | None \<Rightarrow>
                s\<lparr>levels := bt_insert new_price (price_level_new new_price (ucast new_shares) 1) (levels s)\<rparr>)
         else s))"

text \<open>
  \<open>top_n\<close> pushes at most \<open>N\<close> levels (\<open>take(N)\<close>) into an \<open>ArrayVec\<close> of capacity
  \<open>N\<close>, so no push can fail.
\<close>

definition top_n :: "nat \<Rightarrow> book_side \<Rightarrow> price_level list" where
  "top_n n s =
     (case bs_side s of
        Buy \<Rightarrow> take n (rev (bt_values (levels s)))
      | Sell \<Rightarrow> take n (bt_values (levels s)))"

section \<open>The operations on the levels\<close>

lemma levels_add_order: "levels (add_order s p n) = bt_levels.grow p n (levels s)"
  by (simp add: add_order_def bt_levels.grow_def split: option.split)

lemma levels_remove_shares: "levels (remove_shares s p n) = bt_levels.shrink p n (levels s)"
  by (simp add: remove_shares_def bt_levels.shrink_def Let_def split: option.split)

lemma delete_is_remove: "delete_all_at_price s p n = remove_shares s p n"
  by (simp add: delete_all_at_price_def remove_shares_def)

lemma levels_replace_moved:
  "op \<noteq> np \<Longrightarrow> levels (replace_atomically s op on np nn) =
     bt_levels.grow np nn (bt_levels.shrink op on (levels s))"
  by (simp add: replace_atomically_def bt_levels.shrink_def bt_levels.grow_def Let_def
      split: option.split)

lemma bs_side_ops [simp]:
  "bs_side (add_order s p n) = bs_side s"
  "bs_side (remove_shares s p n) = bs_side s"
  "bs_side (delete_all_at_price s p n) = bs_side s"
  "bs_side (replace_atomically s op on np nn) = bs_side s"
  by (simp_all add: add_order_def remove_shares_def delete_all_at_price_def
      replace_atomically_def Let_def split: option.split)

abbreviation levels_ok :: "book_side \<Rightarrow> bool" where
  "levels_ok s \<equiv> bt_levels.well_formed (levels s)"

definition volume_at :: "book_side \<Rightarrow> u64 \<Rightarrow> nat" where
  "volume_at s p = level_volume (bt_get (levels s) p)"

lemma levels_ok_replace_same: "levels_ok s \<Longrightarrow> levels_ok (replace_atomically s p on p nn)"
  by (auto simp: replace_atomically_def bt_levels.well_formed_def bt.get_insert bt.get_remove
      bt.inv_insert bt.inv_remove Let_def split: option.split)

lemma levels_ok_replace: "levels_ok s \<Longrightarrow> levels_ok (replace_atomically s op on np nn)"
  by (cases "op = np")
    (simp_all add: levels_ok_replace_same levels_replace_moved bt_levels.well_formed_grow
      bt_levels.well_formed_shrink)

lemma volume_replace_same:
  assumes "levels_ok s" "volume_at s p + unat nn < 2 ^ 64"
  shows "volume_at (replace_atomically s p on p nn) q =
           (if q = p then volume_at s p - unat on + unat nn else volume_at s q)"
proof (cases "bt_get (levels s) p")
  case None
  then show ?thesis using assms(1)
    by (simp add: volume_at_def replace_atomically_def bt_levels.well_formed_def bt.get_insert
        unat_u32_as_u64)
next
  case (Some l)
  let ?v = "saturating_sub (pl_volume l) (ucast on) + ucast nn"
  have "unat (saturating_sub (pl_volume l) (ucast on)) = unat (pl_volume l) - unat on"
    by (simp add: unat_saturating_sub unat_u32_as_u64)
  then have "unat ?v = unat (pl_volume l) - unat on + unat nn"
    using assms(2) Some by (simp add: volume_at_def unat_u64_add_u32)
  then show ?thesis using assms(1) Some
    by (auto simp: volume_at_def replace_atomically_def bt_levels.well_formed_def bt.get_insert
        bt.get_remove bt.inv_insert Let_def simp flip: unat_eq_0)
qed

lemma volume_replace_moved:
  assumes "levels_ok s" "op \<noteq> np" "volume_at s np + unat nn < 2 ^ 64"
  shows "volume_at (replace_atomically s op on np nn) q =
           volume_at s q - (if q = op then unat on else 0) + (if q = np then unat nn else 0)"
proof -
  let ?m = "bt_levels.shrink op on (levels s)"
  have inv: "bt_inv (levels s)" "bt_inv ?m"
    using assms(1) bt_levels.well_formed_shrink [of "levels s" op on]
    by (simp_all add: bt_levels.well_formed_def)
  have m: "level_volume (bt_get ?m q) = volume_at s q - (if q = op then unat on else 0)" for q
    using bt_levels.volume_shrink [OF inv(1)] by (simp add: volume_at_def)
  then have "level_volume (bt_get ?m np) + unat nn < 2 ^ 64" using assms(2,3) by simp
  from bt_levels.volume_grow [OF inv(2) this, of q] show ?thesis
    by (simp only: volume_at_def [of "replace_atomically s op on np nn"]
        levels_replace_moved [OF assms(2)] m)
qed

lemma volume_replace:
  assumes "levels_ok s" "volume_at s np + unat nn < 2 ^ 64"
  shows "volume_at (replace_atomically s op on np nn) q =
           volume_at s q - (if q = op then unat on else 0) + (if q = np then unat nn else 0)"
  using assms volume_replace_moved [of s op np nn on q] volume_replace_same [of s np nn on q]
  by (cases "op = np") auto

text \<open>A replacement keeps every level positive when it brings shares.\<close>

abbreviation levels_positive :: "book_side \<Rightarrow> bool" where
  "levels_positive s \<equiv> bt_levels.positive (levels s)"

lemma levels_positive_replace:
  assumes "levels_ok s" "levels_positive s" "volume_at s np + unat nn < 2 ^ 64" "nn \<noteq> 0"
  shows "levels_positive (replace_atomically s op on np nn)"
proof (cases "op = np")
  case True
  have "levels_positive (replace_atomically s np on np nn)"
    unfolding bt_levels.positive_def
  proof (intro allI impI)
    fix q l assume l: "bt_get (levels (replace_atomically s np on np nn)) q = Some l"
    show "pl_volume l \<noteq> 0"
    proof (cases "q = np")
      case True
      then have "unat (pl_volume l) = volume_at s np - unat on + unat nn"
        using volume_replace_same [OF assms(1,3), of on q] l by (simp add: volume_at_def)
      moreover have "unat nn > 0" using assms(4) by (simp add: unat_gt_0)
      ultimately show ?thesis by auto
    next
      case False
      then have "bt_get (levels s) q = Some l"
        using l assms(1)
        by (auto simp: replace_atomically_def bt_levels.well_formed_def bt.get_insert
            bt.get_remove bt.inv_insert Let_def split: option.splits if_splits)
      then show ?thesis using assms(2) by (simp add: bt_levels.positive_def)
    qed
  qed
  with True show ?thesis by simp
next
  case False
  let ?m = "bt_levels.shrink op on (levels s)"
  have "bt_inv (levels s)" "bt_inv ?m"
    using assms(1) bt_levels.well_formed_shrink [of "levels s" op on]
    by (simp_all add: bt_levels.well_formed_def)
  moreover from this have "level_volume (bt_get ?m np) + unat nn < 2 ^ 64"
    using bt_levels.volume_shrink [of "levels s" op on np] assms(3) False
    by (simp add: volume_at_def)
  ultimately show ?thesis
    using False assms
    by (simp add: levels_replace_moved bt_levels.positive_grow bt_levels.positive_shrink)
qed

section \<open>The best levels\<close>

text \<open>Which of two prices is at least as good on a side.\<close>

definition at_least_as_good :: "side \<Rightarrow> u64 \<Rightarrow> u64 \<Rightarrow> bool" where
  "at_least_as_good sd p q = (case sd of Buy \<Rightarrow> q \<le> p | Sell \<Rightarrow> p \<le> q)"

definition best_price :: "book_side \<Rightarrow> u64 \<Rightarrow> bool" where
  "best_price s p \<longleftrightarrow>
     bt_get (levels s) p \<noteq> None \<and>
     (\<forall>q. bt_get (levels s) q \<noteq> None \<longrightarrow> at_least_as_good (bs_side s) p q)"

lemma best_price_unique: "best_price s p \<Longrightarrow> best_price s q \<Longrightarrow> p = q"
  by (cases "bs_side s") (simp_all add: best_price_def at_least_as_good_def order_antisym)

lemma best_None_iff: "best s = None \<longleftrightarrow> (\<forall>p. bt_get (levels s) p = None)"
  by (simp add: best_def bt_values_empty_iff split: side.split)

lemma best_Some_iff:
  assumes "levels_ok s"
  shows "best s = Some l \<longleftrightarrow> bt_get (levels s) (pl_price l) = Some l \<and> best_price s (pl_price l)"
proof -
  have inv: "bt_inv (levels s)" and key: "\<And>p l. bt_get (levels s) p = Some l \<Longrightarrow> pl_price l = p"
    using assms by (auto simp: bt_levels.well_formed_def)
  have sound: "bt_get (levels s) (pl_price l) = Some l \<and> best_price s (pl_price l)"
    if "best s = Some l" for l
  proof (cases "bs_side s")
    case Buy
    with that bt_last [OF inv, of l] obtain k where "bt_get (levels s) k = Some l"
      "\<forall>j. bt_get (levels s) j \<noteq> None \<longrightarrow> j \<le> k" by (auto simp: best_def)
    with Buy key [of k l] show ?thesis by (simp add: best_price_def at_least_as_good_def)
  next
    case Sell
    with that bt_first [OF inv, of l] obtain k where "bt_get (levels s) k = Some l"
      "\<forall>j. bt_get (levels s) j \<noteq> None \<longrightarrow> k \<le> j" by (auto simp: best_def)
    with Sell key [of k l] show ?thesis by (simp add: best_price_def at_least_as_good_def)
  qed
  show ?thesis
  proof
    assume l: "bt_get (levels s) (pl_price l) = Some l \<and> best_price s (pl_price l)"
    then obtain l' where l': "best s = Some l'" using best_None_iff [of s] by (cases "best s") auto
    then show "best s = Some l" using sound [OF l'] l best_price_unique by (metis option.inject)
  qed (rule sound)
qed

lemma best_snapshot_best:
  "best_snapshot s = (case best s of None \<Rightarrow> (0, 0) | Some l \<Rightarrow> (pl_price l, pl_volume l))"
  by (simp add: best_snapshot_def best_def split: side.split option.split)

text \<open>\<open>top_n\<close> lists the best prices in order.\<close>

definition prices_best_first :: "book_side \<Rightarrow> u64 list" where
  "prices_best_first s =
     (let ps = sorted_list_of_set {p. bt_get (levels s) p \<noteq> None} in
      case bs_side s of Buy \<Rightarrow> rev ps | Sell \<Rightarrow> ps)"

lemma keys_sorted_list:
  assumes "bt_inv m"
  shows "map fst m = sorted_list_of_set {p. bt_get m p \<noteq> None}"
proof -
  have "{p. bt_get m p \<noteq> None} = set (map fst m)"
    by (auto simp: bt_get_def map_of_eq_None_iff)
  then show ?thesis
    using assms by (simp only: bt_inv_def strict_sorted_iff sorted_list_of_set.idem_if_sorted_distinct)
qed

lemma top_n_prices:
  assumes "levels_ok s"
  shows "map pl_price (top_n n s) = take n (prices_best_first s)"
proof -
  have inv: "bt_inv (levels s)" using assms by (simp add: bt_levels.well_formed_def)
  have "map pl_price (bt_values (levels s)) = map fst (levels s)"
    using assms by (intro map_key_bt_values [OF inv]) (simp add: bt_levels.well_formed_def)
  then show ?thesis
    by (simp add: top_n_def prices_best_first_def keys_sorted_list [OF inv] take_map [symmetric]
        rev_map [symmetric] split: side.split)
qed

lemma top_n_levels:
  assumes "levels_ok s" "l \<in> set (top_n n s)"
  shows "bt_get (levels s) (pl_price l) = Some l"
proof -
  have inv: "bt_inv (levels s)" using assms by (simp add: bt_levels.well_formed_def)
  have "l \<in> set (bt_values (levels s))"
    using assms(2) by (auto simp: top_n_def split: side.splits dest: in_set_takeD)
  then show ?thesis
    using assms(1) by (auto simp: set_bt_values [OF inv] bt_levels.well_formed_def)
qed

lemma iter_next_top_n: "0 < n \<Longrightarrow> iter_next (top_n n s) = best s"
proof -
  assume "0 < n"
  then have "iter_next (take n xs) = iter_next xs" for xs :: "price_level list"
    by (cases xs; cases n) simp_all
  then show ?thesis by (simp add: top_n_def best_def split: side.split)
qed

end
