(* ===== verification/Single_Book.thy ===== *)
theory Single_Book
  imports Book_Side
begin

text \<open>
  \<open>SingleOrderBook\<close> of \<open>src/orderbook/mod.rs\<close>: the book of one stock, its table of
  live orders, its two sides, and the best bid and offer it last published.  The
  arithmetic is that of the release profile; \<open>debug_assert!\<close> is not compiled there and
  has no counterpart in \<open>apply_event\<close>, what it asks is \<open>is_consistent\<close>.
\<close>

section \<open>State\<close>

record bbo_snapshot =
  bid_price :: u64
  bid_volume :: u64
  ask_price :: u64
  ask_volume :: u64

definition bbo_snapshot_zero :: bbo_snapshot where
  "bbo_snapshot_zero = \<lparr>bid_price = 0, bid_volume = 0, ask_price = 0, ask_volume = 0\<rparr>"

definition is_crossed :: "bbo_snapshot \<Rightarrow> bool" where
  "is_crossed s \<longleftrightarrow> bid_price s \<noteq> 0 \<and> ask_price s \<noteq> 0 \<and> bid_price s > ask_price s"

record bbo_update =
  upd_stock :: u64
  upd_timestamp :: u64
  upd_seq_num :: u64
  upd_bid_price :: u64
  upd_bid_volume :: u64
  upd_ask_price :: u64
  upd_ask_volume :: u64
  top_bids :: "price_level list"
  top_asks :: "price_level list"

record order_info =
  oi_side :: side
  oi_price :: u64
  oi_shares :: u32

record single_book =
  sb_stock :: u64
  sb_bids :: book_side
  sb_asks :: book_side
  sb_orders :: "u64 \<rightharpoonup> order_info"
  last_snapshot :: bbo_snapshot
  seq_num :: u64
  generation :: u64

definition single_book_new :: "u64 \<Rightarrow> single_book" where
  "single_book_new stock =
     \<lparr>sb_stock = stock, sb_bids = book_side_new Buy, sb_asks = book_side_new Sell,
      sb_orders = Map.empty, last_snapshot = bbo_snapshot_zero, seq_num = 0, generation = 0\<rparr>"

definition snapshot_bbo :: "single_book \<Rightarrow> bbo_snapshot" where
  "snapshot_bbo b =
     (let (bp, bv) = best_snapshot (sb_bids b); (ap, av) = best_snapshot (sb_asks b) in
      \<lparr>bid_price = bp, bid_volume = bv, ask_price = ap, ask_volume = av\<rparr>)"

text \<open>The update takes the sequence number and advances it (\<open>fetch_add\<close>, wrapping).\<close>

definition create_bbo_update ::
  "single_book \<Rightarrow> u64 \<Rightarrow> bbo_snapshot \<Rightarrow> bbo_update \<times> single_book" where
  "create_bbo_update b ts snap =
     (\<lparr>upd_stock = sb_stock b, upd_timestamp = ts, upd_seq_num = seq_num b,
       upd_bid_price = bid_price snap, upd_bid_volume = bid_volume snap,
       upd_ask_price = ask_price snap, upd_ask_volume = ask_volume snap,
       top_bids = top_n 10 (sb_bids b), top_asks = top_n 10 (sb_asks b)\<rparr>,
      b\<lparr>seq_num := seq_num b + 1\<rparr>)"

definition best_bid :: "single_book \<Rightarrow> price_level option" where
  "best_bid b = best (sb_bids b)"

definition best_ask :: "single_book \<Rightarrow> price_level option" where
  "best_ask b = best (sb_asks b)"

definition book_top_bids :: "nat \<Rightarrow> single_book \<Rightarrow> price_level list" where
  "book_top_bids n b = top_n n (sb_bids b)"

definition book_top_asks :: "nat \<Rightarrow> single_book \<Rightarrow> price_level list" where
  "book_top_asks n b = top_n n (sb_asks b)"

definition is_consistent :: "single_book \<Rightarrow> bool" where
  "is_consistent b \<longleftrightarrow> \<not> is_crossed (snapshot_bbo b)"

section \<open>The branches of the event handler\<close>

text \<open>Each branch returns the book and the flag \<open>touched\<close>.\<close>

definition book_add :: "single_book \<Rightarrow> u64 \<Rightarrow> side \<Rightarrow> u32 \<Rightarrow> u64 \<Rightarrow> single_book \<times> bool" where
  "book_add b order_ref sd shares price =
     (let b = b\<lparr>sb_orders := (sb_orders b)(order_ref \<mapsto>
                  \<lparr>oi_side = sd, oi_price = price, oi_shares = shares\<rparr>)\<rparr>;
          b = (case sd of
                 Buy \<Rightarrow> b\<lparr>sb_bids := add_order (sb_bids b) price shares\<rparr>
               | Sell \<Rightarrow> b\<lparr>sb_asks := add_order (sb_asks b) price shares\<rparr>)
      in (b, True))"

text \<open>Executions and cancellations: the same code in two arms of the source.\<close>

definition book_reduce :: "single_book \<Rightarrow> u64 \<Rightarrow> u32 \<Rightarrow> single_book \<times> bool" where
  "book_reduce b order_ref shares =
     (case sb_orders b order_ref of
        None \<Rightarrow> (b, False)
      | Some info \<Rightarrow>
          (let taken = min shares (oi_shares info);
               (b, info, touched) =
                 (if taken > 0 then
                    (let info = info\<lparr>oi_shares := oi_shares info - taken\<rparr>;
                         b = b\<lparr>sb_orders := (sb_orders b)(order_ref \<mapsto> info)\<rparr>;
                         b = (case oi_side info of
                                Buy \<Rightarrow> b\<lparr>sb_bids := remove_shares (sb_bids b) (oi_price info) taken\<rparr>
                              | Sell \<Rightarrow> b\<lparr>sb_asks := remove_shares (sb_asks b) (oi_price info) taken\<rparr>)
                     in (b, info, True))
                  else (b, info, False))
           in (if oi_shares info = 0 then b\<lparr>sb_orders := (sb_orders b)(order_ref := None)\<rparr> else b,
               touched)))"

definition book_delete :: "single_book \<Rightarrow> u64 \<Rightarrow> single_book \<times> bool" where
  "book_delete b order_ref =
     (case sb_orders b order_ref of
        None \<Rightarrow> (b, False)
      | Some info \<Rightarrow>
          (let b = b\<lparr>sb_orders := (sb_orders b)(order_ref := None)\<rparr>;
               b = (case oi_side info of
                      Buy \<Rightarrow> b\<lparr>sb_bids :=
                        delete_all_at_price (sb_bids b) (oi_price info) (oi_shares info)\<rparr>
                    | Sell \<Rightarrow> b\<lparr>sb_asks :=
                        delete_all_at_price (sb_asks b) (oi_price info) (oi_shares info)\<rparr>)
           in (b, True)))"

definition book_replace ::
  "single_book \<Rightarrow> u64 \<Rightarrow> u64 \<Rightarrow> u32 \<Rightarrow> u64 \<Rightarrow> single_book \<times> bool" where
  "book_replace b order_ref new_order_ref shares price =
     (case sb_orders b order_ref of
        None \<Rightarrow> (b, False)
      | Some old_info \<Rightarrow>
          (let b = b\<lparr>sb_orders := (sb_orders b)(order_ref := None)\<rparr>;
               sd = oi_side old_info;
               b = (case sd of
                      Buy \<Rightarrow> b\<lparr>sb_bids := replace_atomically (sb_bids b)
                        (oi_price old_info) (oi_shares old_info) price shares\<rparr>
                    | Sell \<Rightarrow> b\<lparr>sb_asks := replace_atomically (sb_asks b)
                        (oi_price old_info) (oi_shares old_info) price shares\<rparr>);
               b = b\<lparr>sb_orders := (sb_orders b)(new_order_ref \<mapsto>
                        \<lparr>oi_side = sd, oi_price = price, oi_shares = shares\<rparr>)\<rparr>
           in (b, True)))"

fun touch_orders :: "single_book \<Rightarrow> itch_event \<Rightarrow> single_book \<times> bool" where
  "touch_orders b (AddOrder t r sd n s p) = book_add b r sd n p"
| "touch_orders b (AddOrderMpid t r sd n s p mpid) = book_add b r sd n p"
| "touch_orders b (OrderExecuted t r n mn) = book_reduce b r n"
| "touch_orders b (OrderExecutedPrice t r n mn pr p) = book_reduce b r n"
| "touch_orders b (OrderCancel t r n) = book_reduce b r n"
| "touch_orders b (OrderDelete t r) = book_delete b r"
| "touch_orders b (OrderReplace t r r' n p) = book_replace b r r' n p"
| "touch_orders b ev = (b, False)"

definition book_apply :: "single_book \<Rightarrow> itch_event \<Rightarrow> single_book \<times> bbo_update option" where
  "book_apply b event =
     (let ts = timestamp event; (b, touched) = touch_orders b event in
      if \<not> touched then (b, None)
      else
        let b = b\<lparr>generation := generation b + 1\<rparr>; snap = snapshot_bbo b in
        if snap = last_snapshot b then (b, None)
        else
          let b = b\<lparr>last_snapshot := snap\<rparr>; (upd, b) = create_bbo_update b ts snap
          in (b, Some upd))"

text \<open>The equations that evaluate the handler on a concrete book.\<close>

lemmas book_eval =
  Let_def book_apply_def book_add_def book_reduce_def book_delete_def book_replace_def
  single_book_new_def book_side_new_def bbo_snapshot_zero_def snapshot_bbo_def
  best_snapshot_def best_def best_bid_def best_ask_def create_bbo_update_def top_n_def
  add_order_def remove_shares_def delete_all_at_price_def replace_atomically_def
  level_shrink_def level_grow_def price_level_new_def bt_get_def bt_remove_def bt_values_def
  saturating_sub_def min_def

end
