(* ===== verification/Single_Book_Correct.thy ===== *)
theory Single_Book_Correct
  imports Single_Book
begin

text \<open>
  One book against its ledger: the table of live orders moves by \<open>live_step\<close>, both sides
  show at each price the shares live there, quotes and depth lists follow, and updates are
  published exactly when the quote changes.
\<close>

section \<open>The live orders\<close>

text \<open>
  The abstract state of a book is its table of live orders.  \<open>live_step\<close> is what an
  event means for it, without levels: a partial execution or cancellation leaves the rest
  of the order, a full one removes it.
\<close>

definition live_reduce :: "(u64 \<rightharpoonup> order_info) \<Rightarrow> u64 \<Rightarrow> u32 \<Rightarrow> (u64 \<rightharpoonup> order_info)" where
  "live_reduce live r n =
     (case live r of
        None \<Rightarrow> live
      | Some info \<Rightarrow>
          live(r := if oi_shares info \<le> n then None
                    else Some (info\<lparr>oi_shares := oi_shares info - n\<rparr>)))"

definition live_replace ::
  "(u64 \<rightharpoonup> order_info) \<Rightarrow> u64 \<Rightarrow> u64 \<Rightarrow> u32 \<Rightarrow> u64 \<Rightarrow> (u64 \<rightharpoonup> order_info)" where
  "live_replace live r r' n p =
     (case live r of
        None \<Rightarrow> live
      | Some info \<Rightarrow>
          (live(r := None))(r' \<mapsto> \<lparr>oi_side = oi_side info, oi_price = p, oi_shares = n\<rparr>))"

fun live_step :: "(u64 \<rightharpoonup> order_info) \<Rightarrow> itch_event \<Rightarrow> (u64 \<rightharpoonup> order_info)" where
  "live_step live (AddOrder t r sd n s p) =
     live(r \<mapsto> \<lparr>oi_side = sd, oi_price = p, oi_shares = n\<rparr>)"
| "live_step live (AddOrderMpid t r sd n s p mpid) =
     live(r \<mapsto> \<lparr>oi_side = sd, oi_price = p, oi_shares = n\<rparr>)"
| "live_step live (OrderExecuted t r n mn) = live_reduce live r n"
| "live_step live (OrderExecutedPrice t r n mn pr p) = live_reduce live r n"
| "live_step live (OrderCancel t r n) = live_reduce live r n"
| "live_step live (OrderDelete t r) = live(r := None)"
| "live_step live (OrderReplace t r r' n p) = live_replace live r r' n p"
| "live_step live ev = live"

text \<open>
  What the feed promises: an added order has a reference that is not in use, and so has
  the new reference of a replacement; a book holds at most \<open>2 ^ 32\<close> live orders.
\<close>

fun event_fresh :: "(u64 \<rightharpoonup> 'a) \<Rightarrow> itch_event \<Rightarrow> bool" where
  "event_fresh live (AddOrder t r sd n s p) \<longleftrightarrow> live r = None \<and> card (dom live) < 2 ^ 32"
| "event_fresh live (AddOrderMpid t r sd n s p mpid) \<longleftrightarrow> live r = None \<and> card (dom live) < 2 ^ 32"
| "event_fresh live (OrderReplace t r r' n p) \<longleftrightarrow> r' = r \<or> live r' = None"
| "event_fresh live ev \<longleftrightarrow> True"

text \<open>An added or replaced order brings shares.\<close>

fun event_sized :: "itch_event \<Rightarrow> bool" where
  "event_sized (AddOrder t r sd n s p) \<longleftrightarrow> n \<noteq> 0"
| "event_sized (AddOrderMpid t r sd n s p mpid) \<longleftrightarrow> n \<noteq> 0"
| "event_sized (OrderReplace t r r' n p) \<longleftrightarrow> n \<noteq> 0"
| "event_sized ev \<longleftrightarrow> True"

section \<open>One side of the book, either one\<close>

definition side_of :: "side \<Rightarrow> single_book \<Rightarrow> book_side" where
  "side_of sd b = (case sd of Buy \<Rightarrow> sb_bids b | Sell \<Rightarrow> sb_asks b)"

lemma side_of_simps [simp]: "side_of Buy b = sb_bids b" "side_of Sell b = sb_asks b"
  by (simp_all add: side_of_def)

lemma side_of_orders [simp]: "side_of sd (b\<lparr>sb_orders := live\<rparr>) = side_of sd b"
  by (cases sd) simp_all

definition taken :: "order_info \<Rightarrow> u32 \<Rightarrow> u32" where
  "taken info n = min n (oi_shares info)"

lemma side_of_add:
  "side_of sd' (fst (book_add b r sd n p)) =
     (if sd' = sd then add_order (side_of sd b) p n else side_of sd' b)"
  by (cases sd; cases sd') (simp_all add: book_add_def)

lemma side_of_reduce:
  "side_of sd (fst (book_reduce b r n)) =
     (case sb_orders b r of
        None \<Rightarrow> side_of sd b
      | Some info \<Rightarrow>
          if sd = oi_side info \<and> taken info n \<noteq> 0
          then remove_shares (side_of sd b) (oi_price info) (taken info n)
          else side_of sd b)"
  by (cases sd)
    (auto simp: book_reduce_def taken_def Let_def word_gt_0 split: option.split side.split)

lemma side_of_delete:
  "side_of sd (fst (book_delete b r)) =
     (case sb_orders b r of
        None \<Rightarrow> side_of sd b
      | Some info \<Rightarrow>
          if sd = oi_side info then remove_shares (side_of sd b) (oi_price info) (oi_shares info)
          else side_of sd b)"
  by (cases sd)
    (auto simp: book_delete_def delete_is_remove Let_def split: option.split side.split)

lemma side_of_replace:
  "side_of sd (fst (book_replace b r r' n p)) =
     (case sb_orders b r of
        None \<Rightarrow> side_of sd b
      | Some info \<Rightarrow>
          if sd = oi_side info
          then replace_atomically (side_of sd b) (oi_price info) (oi_shares info) p n
          else side_of sd b)"
  by (cases sd) (auto simp: book_replace_def Let_def split: option.split side.split)

lemmas side_of_branches = side_of_add side_of_reduce side_of_delete side_of_replace

text \<open>The handler refines the abstract step on the table of live orders.\<close>

lemma orders_add: "sb_orders (fst (book_add b r sd n p)) =
    (sb_orders b)(r \<mapsto> \<lparr>oi_side = sd, oi_price = p, oi_shares = n\<rparr>)"
  by (cases sd) (simp_all add: book_add_def)

lemma orders_reduce: "sb_orders (fst (book_reduce b r n)) = live_reduce (sb_orders b) r n"
  by (auto simp: book_reduce_def live_reduce_def Let_def min_def word_gt_0 fun_upd_idem
      split: option.split side.split)

lemma orders_delete: "sb_orders (fst (book_delete b r)) = (sb_orders b)(r := None)"
  by (auto simp: book_delete_def Let_def fun_upd_idem split: option.split side.split)

lemma orders_replace:
  "sb_orders (fst (book_replace b r r' n p)) = live_replace (sb_orders b) r r' n p"
  by (auto simp: book_replace_def live_replace_def Let_def split: option.split side.split)

lemma orders_touch: "sb_orders (fst (touch_orders b ev)) = live_step (sb_orders b) ev"
  by (cases ev) (simp_all add: orders_add orders_reduce orders_delete orders_replace)

lemma orders_book_apply: "sb_orders (fst (book_apply b ev)) = live_step (sb_orders b) ev"
  by (simp add: book_apply_def create_bbo_update_def Let_def orders_touch [symmetric]
      split: prod.split)

lemma side_of_book_apply: "side_of sd (fst (book_apply b ev)) = side_of sd (fst (touch_orders b ev))"
  by (cases sd) (simp_all add: book_apply_def create_bbo_update_def Let_def split: prod.split)

section \<open>The levels aggregate the live orders\<close>

definition spot_amount :: "side \<Rightarrow> order_info \<Rightarrow> u64 \<Rightarrow> nat" where
  "spot_amount sd info p =
     (if oi_side info = sd \<and> oi_price info = p then unat (oi_shares info) else 0)"

interpretation spot: order_ledger bt_get bt_insert bt_remove bt_inv "spot_amount sd" for sd
  by unfold_locales (use unat_u32_less in \<open>auto simp: spot_amount_def\<close>)

text \<open>The shares live on one side at one price.\<close>

definition live_volume :: "(u64 \<rightharpoonup> order_info) \<Rightarrow> side \<Rightarrow> u64 \<Rightarrow> nat" where
  "live_volume live sd p = map_total (\<lambda>info. spot_amount sd info p) live"

lemma spot_shares_at: "spot.shares_at sd live p = live_volume live sd p"
  by (simp add: spot.shares_at_def live_volume_def)

definition book_ok :: "single_book \<Rightarrow> bool" where
  "book_ok b \<longleftrightarrow>
     card (dom (sb_orders b)) \<le> 2 ^ 32 \<and>
     (\<forall>sd. bs_side (side_of sd b) = sd \<and> spot.tracks sd (sb_orders b) (levels (side_of sd b)))"

lemma book_ok_tracks: "book_ok b \<Longrightarrow> spot.tracks sd (sb_orders b) (levels (side_of sd b))"
  by (simp add: book_ok_def)

lemma book_ok_finite: "book_ok b \<Longrightarrow> finite (dom (sb_orders b))"
  using book_ok_tracks [of b Buy] by (simp add: spot.tracks_def)

lemma book_ok_levels: "book_ok b \<Longrightarrow> levels_ok (side_of sd b)"
  using book_ok_tracks [of b sd] by (simp add: spot.tracks_def)

lemma book_ok_volume: "book_ok b \<Longrightarrow> volume_at (side_of sd b) p = live_volume (sb_orders b) sd p"
  using book_ok_tracks [of b sd] by (simp add: spot.tracks_def spot_shares_at volume_at_def)

lemma book_ok_room: "book_ok b \<Longrightarrow> volume_at (side_of sd b) p + unat (n :: u32) < 2 ^ 64"
  using spot.no_wrap [OF book_ok_tracks [of b sd]] by (simp add: book_ok_def volume_at_def)

lemma book_ok_new: "book_ok (single_book_new s)"
proof -
  have "bs_side (side_of sd (single_book_new s)) = sd"
    and "levels (side_of sd (single_book_new s)) = []" for sd
    by (cases sd; simp add: single_book_new_def book_side_new_def)+
  then show ?thesis
    using spot.tracks_empty [of "[]"] by (simp add: book_ok_def single_book_new_def)
qed

subsection \<open>Each branch keeps the ledger\<close>

lemma tracks_book_add:
  assumes "book_ok b" "sb_orders b r = None"
  shows "spot.tracks sd' ((sb_orders b)(r \<mapsto> \<lparr>oi_side = sd, oi_price = p, oi_shares = n\<rparr>))
           (levels (side_of sd' (fst (book_add b r sd n p))))"
proof (cases "sd' = sd")
  case True
  have "spot.tracks sd ((sb_orders b)(r \<mapsto> \<lparr>oi_side = sd, oi_price = p, oi_shares = n\<rparr>))
      (bt_levels.grow p n (levels (side_of sd b)))"
    by (rule spot.tracks_add [OF book_ok_tracks [OF assms(1)] assms(2)])
      (use assms(1) in \<open>simp_all add: book_ok_def spot_amount_def\<close>)
  with True show ?thesis by (simp add: side_of_add levels_add_order)
next
  case False
  have "spot.tracks sd' ((sb_orders b)(r \<mapsto> \<lparr>oi_side = sd, oi_price = p, oi_shares = n\<rparr>))
      (levels (side_of sd' b))"
    by (rule spot.tracks_silent [OF book_ok_tracks [OF assms(1)]])
      (use False assms(2) in \<open>simp add: spot_amount_def\<close>)
  with False show ?thesis by (simp add: side_of_add)
qed

lemma tracks_book_reduce:
  assumes "book_ok b"
  shows "spot.tracks sd (live_reduce (sb_orders b) r n)
           (levels (side_of sd (fst (book_reduce b r n))))"
proof (cases "sb_orders b r")
  case None
  then show ?thesis
    using book_ok_tracks [OF assms, of sd] by (simp add: live_reduce_def side_of_reduce)
next
  case (Some info)
  let ?new = "if oi_shares info \<le> n then None
              else Some (info\<lparr>oi_shares := oi_shares info - n\<rparr>)"
  have rest: "unat (oi_shares info - n) = unat (oi_shares info) - unat n"
    if "\<not> oi_shares info \<le> n" using that by (simp add: unat_sub)
  have live: "live_reduce (sb_orders b) r n = (sb_orders b)(r := ?new)"
    using Some by (simp add: live_reduce_def)
  show ?thesis
  proof (cases "sd = oi_side info \<and> taken info n \<noteq> 0")
    case True
    have "spot.tracks sd ((sb_orders b)(r := ?new))
        (bt_levels.shrink (oi_price info) (taken info n) (levels (side_of sd b)))"
      by (rule spot.tracks_shrink [OF book_ok_tracks [OF assms] Some])
        (use True rest in \<open>auto simp: spot_amount_def taken_def unat_min word_le_nat_alt\<close>)
    with True Some show ?thesis by (simp add: live side_of_reduce levels_remove_shares)
  next
    case False
    have "spot.tracks sd ((sb_orders b)(r := ?new)) (levels (side_of sd b))"
      by (rule spot.tracks_silent [OF book_ok_tracks [OF assms]])
        (use False Some rest in \<open>auto simp: spot_amount_def taken_def min_def split: if_splits\<close>)
    moreover have "side_of sd (fst (book_reduce b r n)) = side_of sd b"
      using Some False by (auto simp: side_of_reduce)
    ultimately show ?thesis by (simp add: live)
  qed
qed

lemma tracks_book_delete:
  assumes "book_ok b"
  shows "spot.tracks sd ((sb_orders b)(r := None)) (levels (side_of sd (fst (book_delete b r))))"
proof (cases "sb_orders b r")
  case None
  then show ?thesis
    using book_ok_tracks [OF assms, of sd] by (simp add: side_of_delete fun_upd_idem)
next
  case (Some info)
  show ?thesis
  proof (cases "sd = oi_side info")
    case True
    have "spot.tracks sd ((sb_orders b)(r := None))
        (bt_levels.shrink (oi_price info) (oi_shares info) (levels (side_of sd b)))"
      by (rule spot.tracks_shrink [OF book_ok_tracks [OF assms] Some])
        (use True in \<open>auto simp: spot_amount_def\<close>)
    with True Some show ?thesis by (simp add: side_of_delete levels_remove_shares)
  next
    case False
    have "spot.tracks sd ((sb_orders b)(r := None)) (levels (side_of sd b))"
      by (rule spot.tracks_silent [OF book_ok_tracks [OF assms]])
        (use False Some in \<open>auto simp: spot_amount_def\<close>)
    with False Some show ?thesis by (simp add: side_of_delete)
  qed
qed

lemma tracks_book_replace:
  assumes "book_ok b" "r' = r \<or> sb_orders b r' = None"
  shows "spot.tracks sd (live_replace (sb_orders b) r r' n p)
           (levels (side_of sd (fst (book_replace b r r' n p))))"
proof (cases "sb_orders b r")
  case None
  then show ?thesis
    using book_ok_tracks [OF assms(1), of sd] by (simp add: live_replace_def side_of_replace)
next
  case (Some info)
  let ?gone = "(sb_orders b)(r := None)" and ?s = "side_of sd b"
  let ?ord = "\<lparr>oi_side = oi_side info, oi_price = p, oi_shares = n\<rparr>"
  have live: "live_replace (sb_orders b) r r' n p = ?gone(r' \<mapsto> ?ord)"
    using Some by (simp add: live_replace_def)
  have fresh: "?gone r' = None" using assms(2) by auto
  show ?thesis
  proof (cases "sd = oi_side info")
    case True
    let ?m = "bt_levels.shrink (oi_price info) (oi_shares info) (levels ?s)"
    have gone: "spot.tracks sd ?gone ?m"
      by (rule spot.tracks_shrink [OF book_ok_tracks [OF assms(1)] Some])
        (use True in \<open>auto simp: spot_amount_def\<close>)
    have room: "card (dom ?gone) \<le> 2 ^ 32"
      using card_dom_delete_le [OF book_ok_finite [OF assms(1)], of r] assms(1)
      by (simp add: book_ok_def)
    have "spot.tracks sd (?gone(r' \<mapsto> ?ord)) (bt_levels.grow p n ?m)"
      by (rule spot.tracks_add [OF gone fresh room]) (use True in \<open>simp add: spot_amount_def\<close>)
    then have "spot.tracks sd (?gone(r' \<mapsto> ?ord))
        (levels (replace_atomically ?s (oi_price info) (oi_shares info) p n))"
    proof (rule spot.tracks_cong)
      show "levels_ok (replace_atomically ?s (oi_price info) (oi_shares info) p n)"
        by (rule levels_ok_replace) (rule book_ok_levels [OF assms(1)])
      fix q
      have inv: "bt_inv (levels ?s)" "bt_inv ?m"
        using book_ok_levels [OF assms(1), of sd] gone
        by (simp_all add: bt_levels.well_formed_def spot.tracks_def)
      show "level_volume (bt_get (levels (replace_atomically ?s (oi_price info) (oi_shares info) p n)) q)
          = level_volume (bt_get (bt_levels.grow p n ?m) q)"
        using volume_replace [OF book_ok_levels book_ok_room, OF assms(1) assms(1), of sd
            "oi_price info" "oi_shares info" p n q]
          bt_levels.volume_grow [OF inv(2) spot.no_wrap [OF gone room], of p n q]
          bt_levels.volume_shrink [OF inv(1), of "oi_price info" "oi_shares info" q]
        by (simp add: volume_at_def)
    qed
    with True Some show ?thesis by (simp add: live side_of_replace)
  next
    case False
    have "spot.tracks sd ?gone (levels ?s)"
      by (rule spot.tracks_silent [OF book_ok_tracks [OF assms(1)]])
        (use False Some in \<open>auto simp: spot_amount_def\<close>)
    then have "spot.tracks sd (?gone(r' \<mapsto> ?ord)) (levels ?s)"
      by (rule spot.tracks_silent) (use False fresh in \<open>simp add: spot_amount_def\<close>)
    with False Some show ?thesis by (simp add: live side_of_replace)
  qed
qed

subsection \<open>The handler keeps the ledger\<close>

lemma card_live_step:
  assumes "finite (dom live)" "card (dom live) \<le> 2 ^ 32" "event_fresh live ev"
  shows "card (dom (live_step live ev)) \<le> 2 ^ 32"
proof -
  have same: "card (dom (live(r := new))) \<le> card (dom live)" if "live r \<noteq> None" for r new
    by (rule card_mono [OF assms(1)]) (use that in auto)
  have "card (dom (live_replace live r r' n p)) \<le> card (dom live)" for r r' n p
  proof (cases "live r")
    case None
    then show ?thesis by (simp add: live_replace_def)
  next
    case (Some info)
    then have "dom (live(r := None)) = dom live - {r}" and "r \<in> dom live" by auto
    then have "card (dom live) = Suc (card (dom (live(r := None))))"
      using card_Suc_Diff1 [OF assms(1), of r] by metis
    then show ?thesis
      using Some assms(1) card_insert_le_m1 [of "card (dom live)" "dom (live(r := None))" r']
      by (simp add: live_replace_def card_insert_if)
  qed
  moreover have "card (dom (live_reduce live r n)) \<le> card (dom live)" for r n
    using same [of r] by (simp add: live_reduce_def split: option.split)
  moreover have "card (dom (live(r := None))) \<le> card (dom live)" for r
    by (rule card_dom_delete_le [OF assms(1)])
  moreover have "x \<le> 4294967296" if "x \<le> card (dom live)" for x
    using that assms(2) by simp
  ultimately show ?thesis
    using assms by (cases ev) (auto simp: card_dom_update simp del: dom_fun_upd)
qed

lemma bs_side_touch: "bs_side (side_of sd (fst (touch_orders b ev))) = bs_side (side_of sd b)"
  by (cases ev) (simp_all add: side_of_branches split: option.split)

lemma book_apply_ok:
  assumes "book_ok b" "event_fresh (sb_orders b) ev"
  shows "book_ok (fst (book_apply b ev))"
proof -
  have "card (dom (live_step (sb_orders b) ev)) \<le> 2 ^ 32"
    by (rule card_live_step [OF book_ok_finite [OF assms(1)] _ assms(2)])
      (use assms(1) in \<open>simp add: book_ok_def\<close>)
  moreover have "spot.tracks sd (live_step (sb_orders b) ev)
      (levels (side_of sd (fst (touch_orders b ev))))" for sd
    using assms
    by (cases ev) (simp_all add: tracks_book_add tracks_book_reduce tracks_book_delete
        tracks_book_replace book_ok_tracks)
  ultimately show ?thesis
    using assms(1) by (simp add: book_ok_def orders_book_apply side_of_book_apply bs_side_touch)
qed

text \<open>Levels without volume appear only with orders without shares.\<close>

definition book_positive :: "single_book \<Rightarrow> bool" where
  "book_positive b \<longleftrightarrow> (\<forall>sd. levels_positive (side_of sd b))"

lemma book_apply_positive:
  assumes "book_ok b" "book_positive b" "event_sized ev"
  shows "book_positive (fst (book_apply b ev))"
proof -
  have inv: "bt_inv (levels (side_of sd b))" for sd
    using book_ok_levels [OF assms(1)] by (simp add: bt_levels.well_formed_def)
  have pos: "levels_positive (side_of sd b)" for sd
    using assms(2) by (simp add: book_positive_def)
  have room: "level_volume (bt_get (levels (side_of sd b)) p) + unat n < 2 ^ 64" for sd p and n :: u32
    using book_ok_room [OF assms(1)] by (simp add: volume_at_def)
  have "levels_positive (side_of sd (fst (touch_orders b ev)))" for sd
    using assms(3)
    by (cases ev) (simp_all add: side_of_branches levels_add_order levels_remove_shares
        bt_levels.positive_grow [OF inv pos room] bt_levels.positive_shrink [OF inv pos]
        levels_positive_replace [OF book_ok_levels [OF assms(1)] pos book_ok_room [OF assms(1)]]
        pos split: option.split)
  then show ?thesis by (simp add: book_positive_def side_of_book_apply)
qed

section \<open>The best bid and offer\<close>

text \<open>
  What the feed's live orders say a side should quote: nothing when no shares are live,
  otherwise the best price with live shares and their number.
\<close>

definition quotes :: "(u64 \<rightharpoonup> order_info) \<Rightarrow> side \<Rightarrow> u64 \<times> u64 \<Rightarrow> bool" where
  "quotes live sd quote \<longleftrightarrow>
     (if \<forall>p. live_volume live sd p = 0 then quote = (0, 0)
      else live_volume live sd (fst quote) = unat (snd quote) \<and> snd quote \<noteq> 0 \<and>
        (\<forall>q. live_volume live sd q \<noteq> 0 \<longrightarrow> at_least_as_good sd (fst quote) q))"

lemma quotes_best:
  "quotes live sd quote \<Longrightarrow> live_volume live sd p \<noteq> 0 \<Longrightarrow>
     live_volume live sd (fst quote) \<noteq> 0 \<and> at_least_as_good sd (fst quote) p"
  by (auto simp: quotes_def unat_gt_0 split: if_splits)

lemma best_snapshot_quotes:
  assumes "book_ok b" "book_positive b"
  shows "quotes (sb_orders b) sd (best_snapshot (side_of sd b))"
proof -
  let ?s = "side_of sd b"
  have present: "bt_get (levels ?s) p \<noteq> None \<longleftrightarrow> live_volume (sb_orders b) sd p \<noteq> 0" for p
    using assms bt_levels.positive_present [of "levels ?s" p] book_ok_volume [OF assms(1), of sd p]
    by (simp add: book_positive_def volume_at_def)
  show ?thesis
  proof (cases "best ?s")
    case None
    then have "\<forall>p. bt_get (levels ?s) p = None" by (simp add: best_None_iff)
    then have "\<forall>p. live_volume (sb_orders b) sd p = 0" using present by simp
    with None show ?thesis by (simp add: quotes_def best_snapshot_best)
  next
    case (Some l)
    then have l: "bt_get (levels ?s) (pl_price l) = Some l" "best_price ?s (pl_price l)"
      using best_Some_iff [OF book_ok_levels [OF assms(1)]] by simp_all
    then have "live_volume (sb_orders b) sd (pl_price l) = unat (pl_volume l)"
      using book_ok_volume [OF assms(1), of sd "pl_price l"] by (simp add: volume_at_def)
    moreover have "live_volume (sb_orders b) sd (pl_price l) \<noteq> 0"
      using l(1) present [of "pl_price l"] by simp
    moreover have "bs_side ?s = sd" using assms(1) by (simp add: book_ok_def)
    ultimately show ?thesis
      using l(2) Some present by (auto simp: quotes_def best_snapshot_best best_price_def)
  qed
qed

lemma snapshot_bbo_sides:
  "(bid_price (snapshot_bbo b), bid_volume (snapshot_bbo b)) = best_snapshot (sb_bids b)"
  "(ask_price (snapshot_bbo b), ask_volume (snapshot_bbo b)) = best_snapshot (sb_asks b)"
  by (simp_all add: snapshot_bbo_def split: prod.split)

lemma snapshot_bbo_cong:
  "sb_bids b = sb_bids b' \<Longrightarrow> sb_asks b = sb_asks b' \<Longrightarrow> snapshot_bbo b = snapshot_bbo b'"
  by (simp add: snapshot_bbo_def)

lemma untouched_sides: "\<not> snd (touch_orders b ev) \<Longrightarrow> side_of sd (fst (touch_orders b ev)) = side_of sd b"
  by (cases ev)
    (auto simp: side_of_branches book_add_def book_reduce_def book_delete_def book_replace_def
      taken_def Let_def word_gt_0 split: option.splits if_splits)

section \<open>The published stream\<close>

definition upd_bbo :: "bbo_update \<Rightarrow> bbo_snapshot" where
  "upd_bbo u = \<lparr>bid_price = upd_bid_price u, bid_volume = upd_bid_volume u,
                ask_price = upd_ask_price u, ask_volume = upd_ask_volume u\<rparr>"

definition synced :: "single_book \<Rightarrow> bool" where
  "synced b \<longleftrightarrow> last_snapshot b = snapshot_bbo b"

lemma synced_new: "synced (single_book_new s)" "snapshot_bbo (single_book_new s) = bbo_snapshot_zero"
  by (simp_all add: synced_def snapshot_bbo_def single_book_new_def bbo_snapshot_zero_def
      book_side_new_def best_snapshot_def bt_values_def)

lemma touch_frame:
  "last_snapshot (fst (touch_orders b ev)) = last_snapshot b"
  "seq_num (fst (touch_orders b ev)) = seq_num b"
  "sb_stock (fst (touch_orders b ev)) = sb_stock b"
  by (cases ev; auto simp: book_add_def book_reduce_def book_delete_def book_replace_def Let_def
      split: option.split side.split)+

text \<open>What one call of the handler returns, and what it leaves behind.\<close>

lemma book_apply_result:
  assumes "synced b" "book_apply b ev = (b', r)"
  shows "synced b' \<and> sb_stock b' = sb_stock b \<and>
    (if snapshot_bbo b' = snapshot_bbo b then r = None \<and> seq_num b' = seq_num b
     else seq_num b' = seq_num b + 1 \<and>
       (\<exists>u. r = Some u \<and> upd_bbo u = snapshot_bbo b' \<and> upd_stock u = sb_stock b \<and>
         upd_timestamp u = timestamp ev \<and> upd_seq_num u = seq_num b \<and>
         top_bids u = top_n 10 (sb_bids b') \<and> top_asks u = top_n 10 (sb_asks b')))"
proof -
  obtain t touched where t: "touch_orders b ev = (t, touched)" by fastforce
  have frame: "last_snapshot t = last_snapshot b" "seq_num t = seq_num b" "sb_stock t = sb_stock b"
    using touch_frame [of b ev] t by simp_all
  have sides: "sb_bids b' = sb_bids t" "sb_asks b' = sb_asks t"
    using assms(2) side_of_book_apply [of Buy b ev] side_of_book_apply [of Sell b ev] t by simp_all
  then have snap: "snapshot_bbo b' = snapshot_bbo t" by (rule snapshot_bbo_cong)
  have gen: "snapshot_bbo (t\<lparr>generation := g\<rparr>) = snapshot_bbo t" for g
    by (rule snapshot_bbo_cong) simp_all
  show ?thesis
  proof (cases touched)
    case False
    then have "snapshot_bbo t = snapshot_bbo b"
      using untouched_sides [of b ev Buy] untouched_sides [of b ev Sell] t
      by (intro snapshot_bbo_cong) simp_all
    then show ?thesis using False t assms frame snap
      by (simp add: book_apply_def synced_def)
  next
    case True
    show ?thesis
    proof (cases "snapshot_bbo t = snapshot_bbo b")
      case True
      then have "b' = t\<lparr>generation := generation t + 1\<rparr>" "r = None"
        using assms t \<open>touched\<close> frame by (auto simp: book_apply_def synced_def Let_def gen)
      then show ?thesis using True frame assms(1) gen by (simp add: synced_def)
    next
      case False
      then show ?thesis
        using assms t \<open>touched\<close> frame snap sides
        by (auto simp: book_apply_def synced_def Let_def gen create_bbo_update_def upd_bbo_def)
    qed
  qed
qed

fun book_run :: "single_book \<Rightarrow> itch_event list \<Rightarrow> single_book \<times> bbo_update list" where
  "book_run b [] = (b, [])"
| "book_run b (ev # evs) =
     (let (b, r) = book_apply b ev; (b, upds) = book_run b evs in
      (b, case r of None \<Rightarrow> upds | Some u \<Rightarrow> u # upds))"

lemma fst_book_run_Cons [simp]:
  "fst (book_run b (ev # evs)) = fst (book_run (fst (book_apply b ev)) evs)"
  by (simp add: Let_def split_def)

text \<open>
  From any synchronised book: the receiver's last update is the current best bid and
  offer, no update repeats the one before it, and the sequence numbers count up.
\<close>

lemma book_run_stream:
  assumes "synced b" "book_run b evs = (b', upds)"
  shows "synced b' \<and> last (snapshot_bbo b # map upd_bbo upds) = snapshot_bbo b' \<and>
    distinct_adj (snapshot_bbo b # map upd_bbo upds) \<and>
    map upd_seq_num upds = map (\<lambda>i. seq_num b + word_of_nat i) [0..<length upds]"
  using assms
proof (induction evs arbitrary: b upds)
  case Nil
  then show ?case by simp
next
  case (Cons ev evs)
  obtain b1 r where step: "book_apply b ev = (b1, r)" by fastforce
  obtain upds1 where rest: "book_run b1 evs = (b', upds1)"
    "upds = (case r of None \<Rightarrow> upds1 | Some u \<Rightarrow> u # upds1)"
    using Cons.prems(2) step by (auto split: prod.splits)
  have res: "synced b1" and cases: "if snapshot_bbo b1 = snapshot_bbo b
      then r = None \<and> seq_num b1 = seq_num b
      else seq_num b1 = seq_num b + 1 \<and> (\<exists>u. r = Some u \<and> upd_bbo u = snapshot_bbo b1 \<and>
        upd_seq_num u = seq_num b)"
    using book_apply_result [OF Cons.prems(1) step] by (auto split: if_splits)
  note IH = Cons.IH [OF res rest(1)]
  show ?case
  proof (cases "snapshot_bbo b1 = snapshot_bbo b")
    case True
    with cases IH rest(2) show ?thesis by simp
  next
    case False
    then obtain u where u: "r = Some u" "upd_bbo u = snapshot_bbo b1" "upd_seq_num u = seq_num b"
      and seq: "seq_num b1 = seq_num b + 1"
      using cases by auto
    have "map (\<lambda>i. seq_num b1 + word_of_nat i) [0..<length upds1] =
        map (\<lambda>i. seq_num b + word_of_nat i) [1..<length upds]"
      using rest(2) u(1) seq
      by (simp add: map_Suc_upt [of 0, symmetric] o_def algebra_simps del: upt_Suc)
    then have "map upd_seq_num upds = map (\<lambda>i. seq_num b + word_of_nat i) [0..<length upds]"
      using IH rest(2) u by (simp add: upt_conv_Cons del: upt_Suc)
    with IH rest(2) u False show ?thesis by simp
  qed
qed

section \<open>Properties\<close>

text \<open>A feed as a book expects it, event by event over the live orders.\<close>

fun feed_ok :: "(u64 \<rightharpoonup> order_info) \<Rightarrow> itch_event list \<Rightarrow> bool" where
  "feed_ok live [] \<longleftrightarrow> True"
| "feed_ok live (ev # evs) \<longleftrightarrow>
     event_fresh live ev \<and> event_sized ev \<and> feed_ok (live_step live ev) evs"

lemma book_run_ok:
  assumes "book_ok b" "book_positive b" "feed_ok (sb_orders b) evs"
  shows "book_ok (fst (book_run b evs)) \<and> book_positive (fst (book_run b evs)) \<and>
    sb_orders (fst (book_run b evs)) = foldl live_step (sb_orders b) evs"
  using assms
proof (induction evs arbitrary: b)
  case Nil
  then show ?case by simp
next
  case (Cons ev evs)
  let ?b = "fst (book_apply b ev)"
  have "book_ok ?b" "book_positive ?b"
    using Cons.prems by (simp_all add: book_apply_ok book_apply_positive)
  then have "book_ok (fst (book_run ?b evs)) \<and> book_positive (fst (book_run ?b evs)) \<and>
      sb_orders (fst (book_run ?b evs)) = foldl live_step (sb_orders ?b) evs"
    using Cons.prems(3) by (intro Cons.IH) (simp_all add: orders_book_apply)
  then show ?case by (simp only: fst_book_run_Cons orders_book_apply foldl_Cons simp_thms)
qed

lemma book_run_new_ok:
  assumes "feed_ok Map.empty evs" "book_run (single_book_new s) evs = (b, upds)"
  shows "book_ok b" "book_positive b" "sb_orders b = foldl live_step Map.empty evs"
proof -
  have "book_positive (single_book_new s)"
    unfolding book_positive_def
  proof
    fix sd show "levels_positive (side_of sd (single_book_new s))"
      by (cases sd)
        (simp_all add: single_book_new_def book_side_new_def bt_levels.positive_def)
  qed
  moreover have "sb_orders (single_book_new s) = Map.empty" by (simp add: single_book_new_def)
  ultimately show "book_ok b" "book_positive b" "sb_orders b = foldl live_step Map.empty evs"
    using book_run_ok [OF book_ok_new, of s evs] assms by simp_all
qed

text \<open>
  C3: The ledger of a book.  An event with a fresh reference keeps the book well-formed;
  its table of orders moves as the abstract table of live orders does (adds, partial and
  full executions and cancellations, deletions, replacements), and every level of either
  side shows exactly the shares live at its price, without wrap-around.
\<close>

theorem book_apply_ledger:
  assumes "book_ok b" "event_fresh (sb_orders b) ev" "book_apply b ev = (b', r)"
  shows "book_ok b' \<and> sb_orders b' = live_step (sb_orders b) ev \<and>
    (\<forall>sd p. volume_at (side_of sd b') p = live_volume (live_step (sb_orders b) ev) sd p)"
proof -
  have "book_ok b'" using book_apply_ok [OF assms(1,2)] assms(3) by simp
  moreover have "sb_orders b' = live_step (sb_orders b) ev"
    using orders_book_apply [of b ev] assms(3) by simp
  ultimately show ?thesis using book_ok_volume by simp
qed

theorem book_apply_ledger_witness:
  "volume_at (sb_bids (fst (book_apply (single_book_new 7) (AddOrder 1 1 Buy 100 7 1000000)))) 1000000
     = live_volume (live_step Map.empty (AddOrder 1 1 Buy 100 7 1000000)) Buy 1000000"
proof -
  have "sb_orders (single_book_new 7) = Map.empty" by (simp add: single_book_new_def)
  then show ?thesis
    using book_apply_ledger [OF book_ok_new, of 7 "AddOrder 1 1 Buy 100 7 1000000"]
    by (metis event_fresh.simps(1) card.empty dom_empty prod.collapse side_of_simps(1)
        zero_less_numeral zero_less_power)
qed

text \<open>
  The quoted best bid and offer.  After any feed of fresh, sized events the snapshot
  of the book is the one the live orders dictate: on each side the best price with live
  shares and the number of shares live there, or nothing.
\<close>

theorem snapshot_from_live_orders:
  assumes "feed_ok Map.empty evs" "book_run (single_book_new s) evs = (b, upds)"
  shows "quotes (foldl live_step Map.empty evs) Buy
           (bid_price (snapshot_bbo b), bid_volume (snapshot_bbo b)) \<and>
         quotes (foldl live_step Map.empty evs) Sell
           (ask_price (snapshot_bbo b), ask_volume (snapshot_bbo b))"
  using best_snapshot_quotes [OF book_run_new_ok(1,2) [OF assms], of Buy]
    best_snapshot_quotes [OF book_run_new_ok(1,2) [OF assms], of Sell]
    book_run_new_ok(3) [OF assms]
  by (simp add: snapshot_bbo_sides)

theorem snapshot_from_live_orders_witness:
  "quotes (foldl live_step Map.empty
       [AddOrder 1 1 Buy 100 7 1000000, AddOrder 2 2 Sell 50 7 1010000, OrderCancel 3 1 30]) Buy
     (bid_price (snapshot_bbo (fst (book_run (single_book_new 7)
        [AddOrder 1 1 Buy 100 7 1000000, AddOrder 2 2 Sell 50 7 1010000, OrderCancel 3 1 30]))),
      bid_volume (snapshot_bbo (fst (book_run (single_book_new 7)
        [AddOrder 1 1 Buy 100 7 1000000, AddOrder 2 2 Sell 50 7 1010000, OrderCancel 3 1 30]))))"
proof -
  let ?evs = "[AddOrder 1 1 Buy 100 7 1000000, AddOrder 2 2 Sell 50 7 1010000, OrderCancel 3 1 30]"
  have "feed_ok Map.empty ?evs" by simp
  from snapshot_from_live_orders [OF this, of 7] show ?thesis by (metis prod.collapse)
qed

text \<open>
  C16: The published stream, for any feed whatever: a receiver that keeps the last update
  has the current best bid and offer of the book, no update repeats the quote before it,
  and the updates are numbered 0, 1, 2, ... without a gap.
\<close>

theorem updates_follow_snapshot:
  assumes "book_run (single_book_new s) evs = (b, upds)"
  shows "last (bbo_snapshot_zero # map upd_bbo upds) = snapshot_bbo b \<and>
    distinct_adj (bbo_snapshot_zero # map upd_bbo upds) \<and>
    map upd_seq_num upds = map word_of_nat [0..<length upds]"
proof -
  have "seq_num (single_book_new s) = 0" by (simp add: single_book_new_def)
  then show ?thesis
    using book_run_stream [OF synced_new(1) assms] synced_new(2) by simp
qed

theorem updates_follow_snapshot_witness:
  "distinct_adj (bbo_snapshot_zero # map upd_bbo (snd (book_run (single_book_new 7)
     [AddOrder 1 1 Buy 100 7 1000000, AddOrder 2 2 Buy 50 7 900000])))"
  using updates_follow_snapshot by (metis prod.collapse)

text \<open>
  One call of the handler publishes exactly when the best bid or offer changed, and
  the update carries the new quote, the stock of the book, the time of the event, the
  next sequence number and the ten best levels of each side.
\<close>

theorem book_apply_publishes:
  assumes "synced b" "book_apply b ev = (b', r)"
  shows "synced b' \<and> (r = None \<longleftrightarrow> snapshot_bbo b' = snapshot_bbo b) \<and>
    (\<forall>u. r = Some u \<longrightarrow> upd_bbo u = snapshot_bbo b' \<and> upd_stock u = sb_stock b \<and>
       upd_timestamp u = timestamp ev \<and> upd_seq_num u = seq_num b \<and> seq_num b' = seq_num b + 1 \<and>
       top_bids u = top_n 10 (sb_bids b') \<and> top_asks u = top_n 10 (sb_asks b'))"
  using book_apply_result [OF assms] by (auto split: if_splits)

theorem book_apply_publishes_witness:
  "snd (book_apply (single_book_new 7) (OrderDelete 1 5)) = None \<longleftrightarrow>
     snapshot_bbo (fst (book_apply (single_book_new 7) (OrderDelete 1 5))) =
     snapshot_bbo (single_book_new 7)"
  using book_apply_publishes [OF synced_new(1), of 7 "OrderDelete 1 5"] by (metis prod.collapse)

text \<open>
  C21: The depth lists: the ten levels of an update of a well-formed book are its ten best
  prices, best first, each with the shares live there, and the first of them is the best
  level.
\<close>

theorem top_levels_best_first:
  assumes "book_ok b"
  shows "map pl_price (top_n n (side_of sd b)) = take n (prices_best_first (side_of sd b)) \<and>
    (\<forall>l \<in> set (top_n n (side_of sd b)).
       unat (pl_volume l) = live_volume (sb_orders b) sd (pl_price l)) \<and>
    (0 < n \<longrightarrow> iter_next (top_n n (side_of sd b)) = best (side_of sd b))"
proof -
  have "unat (pl_volume l) = live_volume (sb_orders b) sd (pl_price l)"
    if "l \<in> set (top_n n (side_of sd b))" for l
    using top_n_levels [OF book_ok_levels [OF assms] that]
      book_ok_volume [OF assms, of sd "pl_price l"] by (simp add: volume_at_def)
  then show ?thesis
    by (simp add: top_n_prices [OF book_ok_levels [OF assms]] iter_next_top_n)
qed

text \<open>A book with two bids and an ask below the better of them.\<close>

definition sample_feed :: "itch_event list" where
  "sample_feed = [AddOrder 1 1 Buy 100 7 1000000, AddOrder 2 2 Buy 50 7 990000,
     AddOrder 3 3 Sell 20 7 995000]"

definition sample_book :: single_book where
  "sample_book = fst (book_run (single_book_new 7) sample_feed)"

lemma sample_book_ok: "book_ok sample_book" "book_positive sample_book"
  "sb_orders sample_book = foldl live_step Map.empty sample_feed"
proof -
  have "feed_ok Map.empty sample_feed" by (simp add: sample_feed_def)
  from book_run_new_ok [OF this, of 7 sample_book]
  show "book_ok sample_book" "book_positive sample_book"
    "sb_orders sample_book = foldl live_step Map.empty sample_feed"
    by (simp_all add: sample_book_def) (metis prod.collapse)+
qed

lemma sample_book_depth:
  "sb_bids sample_book = \<lparr>levels =
     [(990000, \<lparr>pl_price = 990000, pl_volume = 50, order_count = 1\<rparr>),
      (1000000, \<lparr>pl_price = 1000000, pl_volume = 100, order_count = 1\<rparr>)], bs_side = Buy\<rparr>"
  "\<not> is_consistent sample_book"
  by (simp_all add: sample_book_def sample_feed_def book_eval is_consistent_def is_crossed_def)

theorem top_levels_best_first_witness:
  "take 2 (prices_best_first (sb_bids sample_book)) = [1000000, 990000]
   \<and> live_volume (sb_orders sample_book) Buy 1000000 = 100"
proof -
  have top: "top_n 2 (sb_bids sample_book) =
      [\<lparr>pl_price = 1000000, pl_volume = 100, order_count = 1\<rparr>,
       \<lparr>pl_price = 990000, pl_volume = 50, order_count = 1\<rparr>]"
    by (simp add: sample_book_depth(1) top_n_def bt_values_def)
  show ?thesis using top_levels_best_first [OF sample_book_ok(1), of 2 Buy] by (simp add: top)
qed

text \<open>The best prices decide the crossed-book check, hence the live orders do.\<close>

lemma consistent_not_crossed:
  assumes "book_ok b" "book_positive b" "live_volume (sb_orders b) Sell 0 = 0"
  shows "is_consistent b \<longleftrightarrow>
    (\<forall>p q. live_volume (sb_orders b) Buy p \<noteq> 0 \<longrightarrow> live_volume (sb_orders b) Sell q \<noteq> 0 \<longrightarrow> p \<le> q)"
proof -
  let ?bid = "best_snapshot (sb_bids b)" and ?ask = "best_snapshot (sb_asks b)"
  have bid: "quotes (sb_orders b) Buy ?bid" and ask: "quotes (sb_orders b) Sell ?ask"
    using best_snapshot_quotes [OF assms(1,2), of Buy] best_snapshot_quotes [OF assms(1,2), of Sell]
    by simp_all
  have check: "is_consistent b \<longleftrightarrow> fst ?bid = 0 \<or> fst ?ask = 0 \<or> fst ?bid \<le> fst ?ask"
    using snapshot_bbo_sides [of b]
    by (auto simp: is_consistent_def is_crossed_def not_less prod_eq_iff)
  show ?thesis
  proof (cases "(\<forall>p. live_volume (sb_orders b) Buy p = 0) \<or> (\<forall>p. live_volume (sb_orders b) Sell p = 0)")
    case True
    with bid ask show ?thesis unfolding check by (auto simp: quotes_def)
  next
    case False
    then obtain p q where "live_volume (sb_orders b) Buy p \<noteq> 0" "live_volume (sb_orders b) Sell q \<noteq> 0"
      by blast
    then have "live_volume (sb_orders b) Buy (fst ?bid) \<noteq> 0"
      and "live_volume (sb_orders b) Sell (fst ?ask) \<noteq> 0"
      using quotes_best [OF bid] quotes_best [OF ask] by blast+
    moreover from this assms(3) have "fst ?ask \<noteq> 0" by auto
    moreover have "p \<le> fst ?bid" if "live_volume (sb_orders b) Buy p \<noteq> 0" for p
      using quotes_best [OF bid that] by (simp add: at_least_as_good_def)
    moreover have "fst ?ask \<le> q" if "live_volume (sb_orders b) Sell q \<noteq> 0" for q
      using quotes_best [OF ask that] by (simp add: at_least_as_good_def)
    moreover from calculation have "is_consistent b \<longleftrightarrow> fst ?bid \<le> fst ?ask"
      by (auto simp: check)
    ultimately show ?thesis by (meson order_trans)
  qed
qed

text \<open>
  C22: What the crossed-book check decides: a well-formed book with positive levels and
  no sell order at price zero passes it exactly when no live buy order is priced above a
  live sell order.
\<close>

theorem consistent_iff_not_crossed:
  assumes "book_ok b" "book_positive b" "live_volume (sb_orders b) Sell 0 = 0"
  shows "is_consistent b \<longleftrightarrow>
    (\<forall>p q. live_volume (sb_orders b) Buy p \<noteq> 0 \<longrightarrow> live_volume (sb_orders b) Sell q \<noteq> 0 \<longrightarrow> p \<le> q)"
  using assms by (rule consistent_not_crossed)

theorem consistent_iff_not_crossed_witness:
  "\<exists>p q. live_volume (sb_orders sample_book) Buy p \<noteq> 0
     \<and> live_volume (sb_orders sample_book) Sell q \<noteq> 0 \<and> q < p"
proof -
  have "spot_amount Sell (the (sb_orders sample_book r)) 0 = 0" if "r \<in> dom (sb_orders sample_book)" for r
    using that unfolding sample_book_ok(3)
    by (auto simp: sample_feed_def spot_amount_def split: if_splits)
  then have "live_volume (sb_orders sample_book) Sell 0 = 0"
    by (simp add: live_volume_def map_total_def)
  from consistent_iff_not_crossed [OF sample_book_ok(1,2) this] sample_book_depth(2)
  show ?thesis by (auto simp: not_le)
qed

text \<open>
  The order count of a level is not the number of orders there: a partial
  cancellation takes the order off the count although it stays live.
\<close>

theorem partial_cancel_loses_count:
  "sb_orders (fst (book_run (single_book_new 7)
      [AddOrder 1 1 Buy 100 7 1000000, OrderCancel 2 1 30])) 1 =
     Some \<lparr>oi_side = Buy, oi_price = 1000000, oi_shares = 70\<rparr> \<and>
   best_bid (fst (book_run (single_book_new 7)
      [AddOrder 1 1 Buy 100 7 1000000, OrderCancel 2 1 30])) =
     Some \<lparr>pl_price = 1000000, pl_volume = 70, order_count = 0\<rparr>"
  by (simp add: book_eval)

text \<open>
  Without fresh references the ledger breaks: a second add under a live reference
  replaces the order but leaves the shares of the first one in its level, where no later
  event can remove them.
\<close>

theorem reused_reference_leaves_volume:
  "sb_orders (fst (book_run (single_book_new 7)
      [AddOrder 1 1 Buy 100 7 1000000, AddOrder 2 1 Buy 50 7 990000, OrderDelete 3 1])) = Map.empty \<and>
   best_bid (fst (book_run (single_book_new 7)
      [AddOrder 1 1 Buy 100 7 1000000, AddOrder 2 1 Buy 50 7 990000, OrderDelete 3 1])) =
     Some \<lparr>pl_price = 1000000, pl_volume = 100, order_count = 1\<rparr>"
  by (simp add: book_eval)

text \<open>
  A replacement without shares leaves a level without volume, and the book quotes it
  as its best bid.
\<close>

theorem empty_replacement_is_quoted:
  "snapshot_bbo (fst (book_run (single_book_new 7)
      [AddOrder 1 1 Buy 100 7 990000, AddOrder 2 2 Buy 10 7 980000, OrderReplace 3 2 3 0 1000000])) =
     \<lparr>bid_price = 1000000, bid_volume = 0, ask_price = 0, ask_volume = 0\<rparr>"
  by (simp add: book_eval)

end
