(* ===== verification/Order_Book.thy ===== *)
theory Order_Book
  imports Single_Book_Correct
begin

text \<open>
  \<open>OrderBook\<close> of \<open>src/orderbook/mod.rs\<close>: the books of all stocks and the table
  that routes an order reference to its stock.  A deletion visits the books in the
  iteration order of the hash map, which is the argument \<open>ks\<close>.
\<close>

section \<open>State and operations\<close>

record order_book =
  books :: "u64 \<rightharpoonup> single_book"
  order_to_stock :: "u64 \<rightharpoonup> u64"

definition order_book_new :: order_book where
  "order_book_new = \<lparr>books = Map.empty, order_to_stock = Map.empty\<rparr>"

text \<open>The entry of a stock, created when it is missing, and the map that holds it.\<close>

definition get_or_create :: "order_book \<Rightarrow> u64 \<Rightarrow> single_book \<times> order_book" where
  "get_or_create ob stock =
     (case books ob stock of
        Some b \<Rightarrow> (b, ob)
      | None \<Rightarrow>
          (let b = single_book_new stock in (b, ob\<lparr>books := (books ob)(stock \<mapsto> b)\<rparr>)))"

definition ob_get :: "order_book \<Rightarrow> u64 \<Rightarrow> single_book option" where
  "ob_get ob stock = books ob stock"

text \<open>\<open>get_or_create(stock)\<close> followed by \<open>book.apply_event(event)\<close> on the borrowed book.\<close>

definition on_book :: "order_book \<Rightarrow> u64 \<Rightarrow> itch_event \<Rightarrow> order_book \<times> bbo_update option" where
  "on_book ob stock event =
     (let (b, ob) = get_or_create ob stock; (b, result) = book_apply b event in
      (ob\<lparr>books := (books ob)(stock \<mapsto> b)\<rparr>, result))"

definition ob_add ::
  "order_book \<Rightarrow> itch_event \<Rightarrow> u64 \<Rightarrow> u64 \<Rightarrow> order_book \<times> bbo_update option" where
  "ob_add ob event order_ref stock =
     on_book (ob\<lparr>order_to_stock := (order_to_stock ob)(order_ref \<mapsto> stock)\<rparr>) stock event"

definition ob_replace ::
  "order_book \<Rightarrow> itch_event \<Rightarrow> u64 \<Rightarrow> u64 \<Rightarrow> order_book \<times> bbo_update option" where
  "ob_replace ob event order_ref new_order_ref =
     (case order_to_stock ob order_ref of
        None \<Rightarrow> (ob, None)
      | Some stock \<Rightarrow>
          (let ob = ob\<lparr>order_to_stock := (order_to_stock ob)(order_ref := None)\<rparr>;
               ob = ob\<lparr>order_to_stock := (order_to_stock ob)(new_order_ref \<mapsto> stock)\<rparr>
           in on_book ob stock event))"

definition ob_reduce :: "order_book \<Rightarrow> itch_event \<Rightarrow> u64 \<Rightarrow> order_book \<times> bbo_update option" where
  "ob_reduce ob event order_ref =
     (case order_to_stock ob order_ref of
        None \<Rightarrow> (ob, None)
      | Some stock \<Rightarrow>
          (let (ob, result) = on_book ob stock event;
               shares_remaining =
                 (case books ob stock of
                    None \<Rightarrow> 0
                  | Some b \<Rightarrow> (case sb_orders b order_ref of None \<Rightarrow> 0 | Some info \<Rightarrow> oi_shares info));
               ob = (if shares_remaining = 0
                     then ob\<lparr>order_to_stock := (order_to_stock ob)(order_ref := None)\<rparr> else ob)
           in (ob, result)))"

text \<open>The loop of a deletion: the first book that knows the reference handles the event.\<close>

fun delete_scan ::
  "u64 list \<Rightarrow> order_book \<Rightarrow> itch_event \<Rightarrow> u64 \<Rightarrow> order_book \<times> bbo_update option" where
  "delete_scan [] ob event order_ref = (ob, None)"
| "delete_scan (k # ks) ob event order_ref =
     (case books ob k of
        None \<Rightarrow> delete_scan ks ob event order_ref
      | Some b \<Rightarrow>
          if sb_orders b order_ref \<noteq> None then
            (let (b, result) = book_apply b event in
             (ob\<lparr>books := (books ob)(k \<mapsto> b)\<rparr>, result))
          else delete_scan ks ob event order_ref)"

definition ob_delete ::
  "u64 list \<Rightarrow> order_book \<Rightarrow> itch_event \<Rightarrow> u64 \<Rightarrow> order_book \<times> bbo_update option" where
  "ob_delete ks ob event order_ref =
     (let ob = ob\<lparr>order_to_stock := (order_to_stock ob)(order_ref := None)\<rparr> in
      delete_scan ks ob event order_ref)"

fun ob_apply ::
  "u64 list \<Rightarrow> order_book \<Rightarrow> itch_event \<Rightarrow> order_book \<times> bbo_update option" where
  "ob_apply ks ob (AddOrder t r sd n s p) = ob_add ob (AddOrder t r sd n s p) r s"
| "ob_apply ks ob (AddOrderMpid t r sd n s p mpid) = ob_add ob (AddOrderMpid t r sd n s p mpid) r s"
| "ob_apply ks ob (OrderReplace t r r' n p) = ob_replace ob (OrderReplace t r r' n p) r r'"
| "ob_apply ks ob (OrderExecuted t r n mn) = ob_reduce ob (OrderExecuted t r n mn) r"
| "ob_apply ks ob (OrderExecutedPrice t r n mn pr p) =
     ob_reduce ob (OrderExecutedPrice t r n mn pr p) r"
| "ob_apply ks ob (OrderCancel t r n) = ob_reduce ob (OrderCancel t r n) r"
| "ob_apply ks ob (OrderDelete t r) = ob_delete ks ob (OrderDelete t r) r"
| "ob_apply ks ob event = (ob, None)"

definition ob_len :: "order_book \<Rightarrow> nat" where
  "ob_len ob = card (dom (books ob))"

definition ob_is_empty :: "order_book \<Rightarrow> bool" where
  "ob_is_empty ob \<longleftrightarrow> books ob = Map.empty"

definition iter_books :: "u64 list \<Rightarrow> order_book \<Rightarrow> single_book list" where
  "iter_books ks ob = map_values ks (books ob)"

definition all_consistent :: "u64 list \<Rightarrow> order_book \<Rightarrow> bool" where
  "all_consistent ks ob = list_all is_consistent (map_values ks (books ob))"

end
