(* ===== verification/Order_Book_Correct.thy ===== *)
theory Order_Book_Correct
  imports Order_Book
begin

text \<open>
  The books of all stocks refine one abstract table, the market: every live order with its
  stock.  The handler of \<open>Order_Book\<close> keeps routing and books consistent, moves the market
  by \<open>market_step\<close>, and does so whatever order its hash map is visited in.
\<close>

section \<open>The market: every live order with its stock\<close>

text \<open>
  The abstract state of the books is one table from references to stocks and orders.
\<close>

type_synonym market = "u64 \<rightharpoonup> u64 \<times> order_info"

definition market_reduce :: "market \<Rightarrow> u64 \<Rightarrow> u32 \<Rightarrow> market" where
  "market_reduce m r n =
     (case m r of
        None \<Rightarrow> m
      | Some (s, info) \<Rightarrow>
          m(r := if oi_shares info \<le> n then None
                 else Some (s, info\<lparr>oi_shares := oi_shares info - n\<rparr>)))"

definition market_replace :: "market \<Rightarrow> u64 \<Rightarrow> u64 \<Rightarrow> u32 \<Rightarrow> u64 \<Rightarrow> market" where
  "market_replace m r r' n p =
     (case m r of
        None \<Rightarrow> m
      | Some (s, info) \<Rightarrow>
          (m(r := None))(r' \<mapsto> (s, \<lparr>oi_side = oi_side info, oi_price = p, oi_shares = n\<rparr>)))"

fun market_step :: "market \<Rightarrow> itch_event \<Rightarrow> market" where
  "market_step m (AddOrder t r sd n s p) =
     m(r \<mapsto> (s, \<lparr>oi_side = sd, oi_price = p, oi_shares = n\<rparr>))"
| "market_step m (AddOrderMpid t r sd n s p mpid) =
     m(r \<mapsto> (s, \<lparr>oi_side = sd, oi_price = p, oi_shares = n\<rparr>))"
| "market_step m (OrderExecuted t r n mn) = market_reduce m r n"
| "market_step m (OrderExecutedPrice t r n mn pr p) = market_reduce m r n"
| "market_step m (OrderCancel t r n) = market_reduce m r n"
| "market_step m (OrderDelete t r) = m(r := None)"
| "market_step m (OrderReplace t r r' n p) = market_replace m r r' n p"
| "market_step m ev = m"

definition market_of :: "order_book \<Rightarrow> market" where
  "market_of ob r =
     (case order_to_stock ob r of
        None \<Rightarrow> None
      | Some s \<Rightarrow>
          (case books ob s of
             None \<Rightarrow> None
           | Some b \<Rightarrow> map_option (Pair s) (sb_orders b r)))"

text \<open>The live orders of one stock.\<close>

definition stock_orders :: "market \<Rightarrow> u64 \<Rightarrow> (u64 \<rightharpoonup> order_info)" where
  "stock_orders m s r =
     (case m r of None \<Rightarrow> None | Some (s', info) \<Rightarrow> if s' = s then Some info else None)"

section \<open>Routing\<close>

definition routing_ok :: "order_book \<Rightarrow> bool" where
  "routing_ok ob \<longleftrightarrow>
     finite (dom (books ob)) \<and> finite (dom (order_to_stock ob)) \<and>
     card (dom (order_to_stock ob)) \<le> 2 ^ 32 \<and>
     (\<forall>s b. books ob s = Some b \<longrightarrow> book_ok b \<and> sb_stock b = s) \<and>
     (\<forall>r s. order_to_stock ob r = Some s \<longleftrightarrow>
        (\<exists>b. books ob s = Some b \<and> sb_orders b r \<noteq> None))"

lemma routing_ok_new: "routing_ok order_book_new"
  by (simp add: routing_ok_def order_book_new_def)

lemma routing_book: "routing_ok ob \<Longrightarrow> books ob s = Some b \<Longrightarrow> book_ok b \<and> sb_stock b = s"
  by (simp add: routing_ok_def)

lemma routing_iff:
  "routing_ok ob \<Longrightarrow> books ob s = Some b \<Longrightarrow> order_to_stock ob r = Some s \<longleftrightarrow> sb_orders b r \<noteq> None"
  by (auto simp: routing_ok_def)

lemma routing_Some:
  "routing_ok ob \<Longrightarrow> order_to_stock ob r = Some s \<Longrightarrow>
     \<exists>b info. books ob s = Some b \<and> sb_orders b r = Some info"
  by (fastforce simp: routing_ok_def)

text \<open>
  One book changes together with the routing table.  All the branches of the handler
  reduce to this lemma: the table routes to the stock exactly the references its new book
  knows, and every other reference as before.
\<close>

lemma routing_update:
  assumes "routing_ok ob" "book_ok b'" "sb_stock b' = s"
    and "books ob' = (books ob)(s \<mapsto> b')"
    and "finite (dom (order_to_stock ob'))" "card (dom (order_to_stock ob')) \<le> 2 ^ 32"
    and "\<And>r. order_to_stock ob' r = Some s \<longleftrightarrow> sb_orders b' r \<noteq> None"
    and "\<And>r t. t \<noteq> s \<Longrightarrow> order_to_stock ob' r = Some t \<longleftrightarrow> order_to_stock ob r = Some t"
  shows "routing_ok ob'"
  unfolding routing_ok_def
proof (intro conjI allI impI)
  show "finite (dom (books ob'))" using assms(1,4) by (simp add: routing_ok_def)
  fix t b assume "books ob' t = Some b"
  then show "book_ok b" "sb_stock b = t"
    using assms(1-4) by (auto simp: routing_ok_def split: if_splits)
next
  fix r t
  show "order_to_stock ob' r = Some t \<longleftrightarrow> (\<exists>b. books ob' t = Some b \<and> sb_orders b r \<noteq> None)"
  proof (cases "t = s")
    case True
    then show ?thesis using assms(4,7) by simp
  next
    case False
    then show ?thesis using assms(1,4) assms(8) [OF False] by (simp add: routing_ok_def)
  qed
qed (use assms in simp_all)

section \<open>The market seen through the books\<close>

definition entry :: "order_book \<Rightarrow> u64 \<Rightarrow> single_book" where
  "entry ob s = (case books ob s of Some b \<Rightarrow> b | None \<Rightarrow> single_book_new s)"

lemma on_book_entry:
  "on_book ob s ev =
     (ob\<lparr>books := (books ob)(s \<mapsto> fst (book_apply (entry ob s) ev))\<rparr>,
      snd (book_apply (entry ob s) ev))"
  by (simp add: on_book_def get_or_create_def entry_def Let_def split: option.split prod.split)

lemma sb_stock_book_apply [simp]: "sb_stock (fst (book_apply b ev)) = sb_stock b"
  using touch_frame(3) [of b ev]
  by (cases "touch_orders b ev") (simp add: book_apply_def create_bbo_update_def Let_def)

lemma entry_ok: "routing_ok ob \<Longrightarrow> book_ok (entry ob s) \<and> sb_stock (entry ob s) = s"
  by (simp add: entry_def routing_book book_ok_new split: option.split)
    (simp add: single_book_new_def)

lemma entry_routes: "routing_ok ob \<Longrightarrow> sb_orders (entry ob s) r \<noteq> None \<longleftrightarrow> order_to_stock ob r = Some s"
  by (cases "books ob s") (auto simp: entry_def single_book_new_def routing_ok_def)

lemma market_of_Some_iff:
  assumes "routing_ok ob"
  shows "market_of ob r = Some (s, info) \<longleftrightarrow> sb_orders (entry ob s) r = Some info"
proof
  assume "market_of ob r = Some (s, info)"
  then show "sb_orders (entry ob s) r = Some info"
    by (auto simp: market_of_def entry_def split: option.splits)
next
  assume l: "sb_orders (entry ob s) r = Some info"
  then have "order_to_stock ob r = Some s" using entry_routes [OF assms, of s r] by simp
  then obtain b where "books ob s = Some b" "order_to_stock ob r = Some s"
    using routing_Some [OF assms] by blast
  with l show "market_of ob r = Some (s, info)" by (simp add: market_of_def entry_def)
qed

lemma market_of_route: "routing_ok ob \<Longrightarrow> order_to_stock ob r = map_option fst (market_of ob r)"
  by (cases "order_to_stock ob r") (auto simp: market_of_def dest: routing_Some)

lemma dom_market_of: "routing_ok ob \<Longrightarrow> dom (market_of ob) = dom (order_to_stock ob)"
  by (auto simp: market_of_route dom_def)

lemma stock_orders_Some_iff: "stock_orders m s r = Some info \<longleftrightarrow> m r = Some (s, info)"
  by (auto simp: stock_orders_def split: option.split)

lemma stock_orders_market_of: "routing_ok ob \<Longrightarrow> stock_orders (market_of ob) s = sb_orders (entry ob s)"
proof
  fix r assume "routing_ok ob"
  then show "stock_orders (market_of ob) s r = sb_orders (entry ob s) r"
    using stock_orders_Some_iff [of "market_of ob" s r] market_of_Some_iff [of ob r s]
    by (metis not_Some_eq)
qed

lemma market_eqI:
  assumes "\<And>s. stock_orders m s = stock_orders m' s"
  shows "m = m'"
proof
  fix r
  have "m r = Some (s, info) \<longleftrightarrow> m' r = Some (s, info)" for s info
    using assms by (metis stock_orders_Some_iff)
  then show "m r = m' r" by (metis not_Some_eq surj_pair)
qed

section \<open>An event belongs to one stock\<close>

fun event_target :: "market \<Rightarrow> itch_event \<Rightarrow> u64 option" where
  "event_target m (AddOrder t r sd n s p) = Some s"
| "event_target m (AddOrderMpid t r sd n s p mpid) = Some s"
| "event_target m (OrderExecuted t r n mn) = map_option fst (m r)"
| "event_target m (OrderExecutedPrice t r n mn pr p) = map_option fst (m r)"
| "event_target m (OrderCancel t r n) = map_option fst (m r)"
| "event_target m (OrderDelete t r) = map_option fst (m r)"
| "event_target m (OrderReplace t r r' n p) = map_option fst (m r)"
| "event_target m ev = None"

lemma stock_orders_update:
  "stock_orders (m(r := x)) s =
     (stock_orders m s)(r := case x of None \<Rightarrow> None | Some (s', info) \<Rightarrow> if s' = s then Some info else None)"
  by (auto simp: stock_orders_def)

lemma stock_orders_at:
  "m r = None \<Longrightarrow> stock_orders m s r = None"
  "m r = Some (t, info) \<Longrightarrow> stock_orders m s r = (if t = s then Some info else None)"
  by (simp_all add: stock_orders_def)

lemma stock_orders_None: "stock_orders m s r = None \<longleftrightarrow> (\<forall>info. m r \<noteq> Some (s, info))"
  by (auto simp: stock_orders_def split: option.split)

lemma stock_orders_reduce:
  "stock_orders (market_reduce m r n) s =
     (if map_option fst (m r) = Some s then live_reduce (stock_orders m s) r n else stock_orders m s)"
proof (cases "m r")
  case None
  then show ?thesis by (simp add: market_reduce_def)
next
  case (Some ti)
  then obtain t info where m: "m r = Some (t, info)" by (cases ti) auto
  then show ?thesis
    by (cases "t = s")
      (simp_all add: market_reduce_def live_reduce_def stock_orders_update m
        stock_orders_at(2) [of m r t info] fun_upd_idem)
qed

lemma stock_orders_replace:
  assumes "r' = r \<or> m r' = None"
  shows "stock_orders (market_replace m r r' n p) s =
     (if map_option fst (m r) = Some s then live_replace (stock_orders m s) r r' n p
      else stock_orders m s)"
proof (cases "m r")
  case None
  then show ?thesis by (simp add: market_replace_def)
next
  case (Some ti)
  then obtain t info where m: "m r = Some (t, info)" by (cases ti) auto
  then have "(stock_orders m s)(r := None, r' := None) = stock_orders m s" if "t \<noteq> s"
    using that assms stock_orders_at [of m] by (auto simp: fun_upd_idem)
  with m show ?thesis
    by (cases "t = s")
      (simp_all add: market_replace_def live_replace_def stock_orders_update m
        stock_orders_at(2) [of m r t info])
qed

lemma stock_orders_step:
  assumes "event_fresh m ev"
  shows "stock_orders (market_step m ev) s =
    (if event_target m ev = Some s then live_step (stock_orders m s) ev else stock_orders m s)"
  using assms
  by (cases ev)
    (auto simp: stock_orders_reduce stock_orders_replace stock_orders_update stock_orders_at
      stock_orders_None intro!: fun_upd_idem split: if_splits)

lemma no_target: "event_target m ev = None \<Longrightarrow> market_step m ev = m"
  by (cases ev) (auto simp: market_reduce_def market_replace_def split: option.splits)

lemma event_fresh_stock:
  assumes "event_fresh m ev" "finite (dom m)"
  shows "event_fresh (stock_orders m s) ev"
proof -
  have sub: "dom (stock_orders m s) \<subseteq> dom m"
    by (auto simp: stock_orders_def split: option.splits if_splits)
  then have "card (dom (stock_orders m s)) \<le> card (dom m)" by (rule card_mono [OF assms(2)])
  moreover have "m r = None \<Longrightarrow> stock_orders m s r = None" for r by (simp add: stock_orders_def)
  ultimately show ?thesis using assms(1) by (cases ev) auto
qed

section \<open>The handler in normal form\<close>

definition routes :: "market \<Rightarrow> (u64 \<rightharpoonup> u64)" where
  "routes m r = map_option fst (m r)"

lemma routes_market_of: "routing_ok ob \<Longrightarrow> order_to_stock ob = routes (market_of ob)"
  by (auto simp: routes_def market_of_route fun_eq_iff)

lemma routes_update: "routes (m(r := x)) = (routes m)(r := map_option fst x)"
  by (auto simp: routes_def)

text \<open>Every event of the feed is one update of the book of its target, or nothing.\<close>

definition routed :: "order_book \<Rightarrow> itch_event \<Rightarrow> order_book \<times> bbo_update option" where
  "routed ob ev =
     (case event_target (market_of ob) ev of
        None \<Rightarrow> (ob, None)
      | Some s \<Rightarrow> on_book (ob\<lparr>order_to_stock := routes (market_step (market_of ob) ev)\<rparr>) s ev)"

lemma entry_order_to_stock [simp]: "entry (ob\<lparr>order_to_stock := x\<rparr>) s = entry ob s"
  by (simp add: entry_def)

lemma ob_reduce_routed:
  assumes "routing_ok ob" "market_step (market_of ob) ev = market_reduce (market_of ob) r n"
    and "event_target (market_of ob) ev = map_option fst (market_of ob r)"
    and "\<And>live. live_step live ev = live_reduce live r n"
  shows "ob_reduce ob ev r = routed ob ev"
proof (cases "market_of ob r")
  case None
  then show ?thesis
    using assms(3) market_of_route [OF assms(1), of r] by (simp add: ob_reduce_def routed_def)
next
  case (Some si)
  obtain s info where m: "market_of ob r = Some (s, info)" using Some by (cases si) auto
  let ?b = "fst (book_apply (entry ob s) ev)"
  have live: "sb_orders (entry ob s) r = Some info"
    using m market_of_Some_iff [OF assms(1)] by simp
  then have gone: "(case sb_orders ?b r of None \<Rightarrow> 0 | Some info \<Rightarrow> oi_shares info) = 0 \<longleftrightarrow>
      oi_shares info \<le> n"
    by (auto simp: orders_book_apply assms(4) live_reduce_def)
  have "routes (market_step (market_of ob) ev) =
      (if oi_shares info \<le> n then (order_to_stock ob)(r := None) else order_to_stock ob)"
    using m market_of_route [OF assms(1), of r]
    by (auto simp: assms(2) market_reduce_def routes_market_of [OF assms(1)] routes_update
        routes_def fun_eq_iff)
  then show ?thesis
    using m gone market_of_route [OF assms(1), of r]
    by (simp add: ob_reduce_def routed_def assms(3) on_book_entry Let_def)
qed

lemma ob_replace_routed:
  assumes "routing_ok ob"
  shows "ob_replace ob (OrderReplace t r r' n p) r r' = routed ob (OrderReplace t r r' n p)"
proof (cases "market_of ob r")
  case None
  then show ?thesis
    using market_of_route [OF assms, of r] by (simp add: ob_replace_def routed_def)
next
  case (Some si)
  obtain s info where m: "market_of ob r = Some (s, info)" using Some by (cases si) auto
  then show ?thesis
    using market_of_route [OF assms, of r]
    by (simp add: ob_replace_def routed_def market_replace_def routes_update
        routes_market_of [OF assms, symmetric])
qed

text \<open>The scan of a deletion finds the one book that knows the reference.\<close>

lemma delete_scan_none:
  "(\<And>k b. books ob k = Some b \<Longrightarrow> sb_orders b r = None) \<Longrightarrow> delete_scan ks ob ev r = (ob, None)"
  by (induction ks) (auto split: option.split)

lemma delete_scan_found:
  assumes "\<And>k b. books ob k = Some b \<Longrightarrow> sb_orders b r \<noteq> None \<Longrightarrow> k = s"
    and "books ob s = Some b" "sb_orders b r \<noteq> None" "s \<in> set ks"
  shows "delete_scan ks ob ev r = on_book ob s ev"
  using assms(4)
proof (induction ks)
  case Nil
  then show ?case by simp
next
  case (Cons k ks)
  show ?case
  proof (cases "k = s")
    case True
    then show ?thesis
      using assms(2,3) by (auto simp: on_book_def get_or_create_def)
  next
    case False
    then have "delete_scan (k # ks) ob ev r = delete_scan ks ob ev r"
      using assms(1) [of k] by (auto split: option.split)
    then show ?thesis using Cons False by simp
  qed
qed

lemma ob_delete_routed:
  assumes "routing_ok ob" "enumerates ks (books ob)"
  shows "ob_delete ks ob (OrderDelete t r) r = routed ob (OrderDelete t r)"
proof -
  let ?ob = "ob\<lparr>order_to_stock := (order_to_stock ob)(r := None)\<rparr>"
  have knows: "sb_orders b r \<noteq> None \<longleftrightarrow> order_to_stock ob r = Some k" if "books ob k = Some b" for k b
    using routing_iff [OF assms(1) that, of r] by simp
  show ?thesis
  proof (cases "market_of ob r")
    case None
    then have "order_to_stock ob r = None" using market_of_route [OF assms(1)] by simp
    then have "delete_scan ks ?ob (OrderDelete t r) r = (?ob, None)" and "?ob = ob"
      using knows by (auto intro!: delete_scan_none simp: fun_upd_idem)
    with None show ?thesis by (simp add: ob_delete_def routed_def)
  next
    case (Some si)
    obtain s info where m: "market_of ob r = Some (s, info)" using Some by (cases si) auto
    then have route: "order_to_stock ob r = Some s" using market_of_route [OF assms(1)] by simp
    then obtain b where b: "books ob s = Some b" "sb_orders b r \<noteq> None"
      using routing_Some [OF assms(1)] by fastforce
    have "s \<in> set ks" using b(1) assms(2) by (auto simp: enumerates_def)
    then have "delete_scan ks ?ob (OrderDelete t r) r = on_book ?ob s (OrderDelete t r)"
      using knows route b by (intro delete_scan_found [of _ r s b]) auto
    with m show ?thesis
      by (simp add: ob_delete_def routed_def routes_update routes_market_of [OF assms(1), symmetric])
  qed
qed

lemma ob_apply_routed:
  assumes "routing_ok ob" "enumerates ks (books ob)"
  shows "ob_apply ks ob ev = routed ob ev"
proof (cases ev)
  case (AddOrder t r sd n s p)
  then show ?thesis
    by (simp add: ob_add_def routed_def routes_update routes_market_of [OF assms(1), symmetric])
next
  case (AddOrderMpid t r sd n s p mpid)
  then show ?thesis
    by (simp add: ob_add_def routed_def routes_update routes_market_of [OF assms(1), symmetric])
qed (simp_all add: ob_reduce_routed [OF assms(1)] ob_replace_routed [OF assms(1)]
      ob_delete_routed [OF assms], simp_all add: routed_def)

section \<open>The handler refines the market\<close>

lemma routes_Some_iff: "routes m r = Some s \<longleftrightarrow> stock_orders m s r \<noteq> None"
  by (auto simp: routes_def stock_orders_None)

text \<open>Forgetting the stocks, the market is one table of live orders.\<close>

definition unstocked :: "market \<Rightarrow> (u64 \<rightharpoonup> order_info)" where
  "unstocked m r = map_option snd (m r)"

lemma dom_unstocked: "dom (unstocked m) = dom m" "dom (routes m) = dom m"
  by (auto simp: unstocked_def routes_def dom_def)

lemma unstocked_update: "unstocked (m(r := x)) = (unstocked m)(r := map_option snd x)"
  by (auto simp: unstocked_def)

lemma unstocked_step: "unstocked (market_step m ev) = live_step (unstocked m) ev"
proof -
  have reduce: "unstocked (market_reduce m r n) = live_reduce (unstocked m) r n" for r n
    by (cases "m r")
      (auto simp: market_reduce_def live_reduce_def unstocked_update, auto simp: unstocked_def)
  have "unstocked (market_replace m r r' n p) = live_replace (unstocked m) r r' n p" for r r' n p
    by (cases "m r")
      (auto simp: market_replace_def live_replace_def unstocked_update, auto simp: unstocked_def)
  with reduce show ?thesis by (cases ev) (simp_all add: unstocked_update)
qed

lemma event_fresh_unstocked: "event_fresh m ev \<Longrightarrow> event_fresh (unstocked m) ev"
proof -
  have "unstocked m r = None \<longleftrightarrow> m r = None" for r by (simp add: unstocked_def)
  then show "event_fresh m ev \<Longrightarrow> ?thesis" by (cases ev) (simp_all add: dom_unstocked)
qed

lemma dom_market_step:
  assumes "finite (dom m)" "card (dom m) \<le> 2 ^ 32" "event_fresh m ev"
  shows "finite (dom (market_step m ev)) \<and> card (dom (market_step m ev)) \<le> 2 ^ 32"
proof
  show "finite (dom (market_step m ev))"
    using assms(1)
    by (cases ev) (auto simp: market_reduce_def market_replace_def split: option.split)
  show "card (dom (market_step m ev)) \<le> 2 ^ 32"
    using card_live_step [of "unstocked m" ev] assms event_fresh_unstocked [OF assms(3)]
    by (simp add: dom_unstocked flip: unstocked_step)
qed

lemma routing_dom:
  assumes "routing_ok ob"
  shows "finite (dom (market_of ob)) \<and> card (dom (market_of ob)) \<le> 2 ^ 32"
  using assms by (simp add: dom_market_of) (simp add: routing_ok_def)

lemma routed_refines:
  assumes "routing_ok ob" "event_fresh (market_of ob) ev"
  shows "routing_ok (fst (routed ob ev)) \<and>
    market_of (fst (routed ob ev)) = market_step (market_of ob) ev"
proof (cases "event_target (market_of ob) ev")
  case None
  then show ?thesis using assms(1) by (simp add: routed_def no_target)
next
  case (Some s)
  let ?m = "market_of ob" and ?b = "fst (book_apply (entry ob s) ev)"
  let ?ob = "fst (routed ob ev)"
  have books: "books ?ob = (books ob)(s \<mapsto> ?b)"
    and rt: "order_to_stock ?ob = routes (market_step ?m ev)"
    using Some by (simp_all add: routed_def on_book_entry)
  have orders: "sb_orders ?b = stock_orders (market_step ?m ev) s"
    using Some stock_orders_step [OF assms(2), of s]
    by (simp add: orders_book_apply stock_orders_market_of [OF assms(1)])
  have others: "stock_orders (market_step ?m ev) t = stock_orders ?m t" if "t \<noteq> s" for t
    using Some stock_orders_step [OF assms(2), of t] that by simp
  have ok: "routing_ok ?ob"
  proof (rule routing_update [OF assms(1)])
    show "book_ok ?b"
      using entry_ok [OF assms(1), of s] event_fresh_stock [OF assms(2), of s]
        routing_dom [OF assms(1)] stock_orders_market_of [OF assms(1), of s]
      by (intro book_apply_ok) simp_all
    show "sb_stock ?b = s" using entry_ok [OF assms(1), of s] by simp
    show "books ?ob = (books ob)(s \<mapsto> ?b)" by (rule books)
    show "finite (dom (order_to_stock ?ob))" "card (dom (order_to_stock ?ob)) \<le> 2 ^ 32"
      using dom_market_step [OF _ _ assms(2)] routing_dom [OF assms(1)]
      by (simp_all add: rt dom_unstocked)
    show "order_to_stock ?ob r = Some s \<longleftrightarrow> sb_orders ?b r \<noteq> None" for r
      by (simp add: rt routes_Some_iff orders)
    show "order_to_stock ?ob r = Some t \<longleftrightarrow> order_to_stock ob r = Some t" if "t \<noteq> s" for r t
      using others [OF that] by (simp add: rt routes_Some_iff routes_market_of [OF assms(1)])
  qed
  have "stock_orders (market_of ?ob) t = stock_orders (market_step ?m ev) t" for t
  proof (cases "t = s")
    case True
    then show ?thesis
      by (simp add: stock_orders_market_of [OF ok] orders entry_def [of ?ob] books)
  next
    case False
    have "entry ?ob t = entry ob t" using False by (simp add: entry_def books)
    then show ?thesis
      by (simp add: others [OF False] stock_orders_market_of [OF ok] stock_orders_market_of [OF assms(1)])
  qed
  with ok show ?thesis by (blast intro: market_eqI)
qed

section \<open>Runs of the feed\<close>

text \<open>
  \<open>market_run ob m\<close>: the books \<open>ob\<close> and the market \<open>m\<close> after the same events, each
  fresh and sized, each handled under some iteration order of the books.
\<close>

inductive market_run :: "order_book \<Rightarrow> market \<Rightarrow> bool" where
  start: "market_run order_book_new Map.empty"
| event: "market_run ob m \<Longrightarrow> event_fresh m ev \<Longrightarrow> event_sized ev \<Longrightarrow> enumerates ks (books ob) \<Longrightarrow>
    market_run (fst (ob_apply ks ob ev)) (market_step m ev)"

definition all_positive :: "order_book \<Rightarrow> bool" where
  "all_positive ob \<longleftrightarrow> (\<forall>s b. books ob s = Some b \<longrightarrow> book_positive b)"

lemma entry_positive: "all_positive ob \<Longrightarrow> book_positive (entry ob s)"
  using book_run_new_ok(2) [of "[]" s]
  by (auto simp: all_positive_def entry_def split: option.split)

lemma routed_positive:
  assumes "routing_ok ob" "all_positive ob" "event_sized ev"
  shows "all_positive (fst (routed ob ev))"
proof -
  have "book_positive (fst (book_apply (entry ob s) ev))" for s
    using book_apply_positive [OF _ entry_positive [OF assms(2)] assms(3)] entry_ok [OF assms(1)]
    by blast
  then show ?thesis
    using assms(2) by (auto simp: all_positive_def routed_def on_book_entry split: option.split)
qed

lemma new_books:
  "all_positive order_book_new" "market_of order_book_new = Map.empty"
  "books order_book_new = Map.empty" "enumerates [] (books order_book_new)"
  by (auto simp: all_positive_def market_of_def order_book_new_def enumerates_def)

lemma market_run_ok:
  "market_run ob m \<Longrightarrow> routing_ok ob \<and> all_positive ob \<and> market_of ob = m"
proof (induction rule: market_run.induct)
  case start
  show ?case by (simp add: routing_ok_new new_books)
next
  case (event ob m ev ks)
  then have "ob_apply ks ob ev = routed ob ev" by (simp add: ob_apply_routed)
  with event show ?case
    using routed_refines [of ob ev] routed_positive [of ob ev] by simp
qed

text \<open>After a run, the quotes of the books are those of the live orders.\<close>

lemma market_run_quotes:
  assumes "market_run ob m" "books ob s = Some b"
  shows "sb_orders b = stock_orders m s \<and>
    quotes (stock_orders m s) Buy (bid_price (snapshot_bbo b), bid_volume (snapshot_bbo b)) \<and>
    quotes (stock_orders m s) Sell (ask_price (snapshot_bbo b), ask_volume (snapshot_bbo b))"
proof -
  have ok: "routing_ok ob" "all_positive ob" "market_of ob = m"
    using market_run_ok [OF assms(1)] by simp_all
  have "sb_orders b = stock_orders m s"
    using stock_orders_market_of [OF ok(1), of s] ok(3) assms(2) by (simp add: entry_def)
  moreover have "quotes (sb_orders b) sd (best_snapshot (side_of sd b))" for sd
    using best_snapshot_quotes [of b sd] routing_book [OF ok(1) assms(2)] ok(2) assms(2)
    by (simp add: all_positive_def)
  from this [of Buy] this [of Sell]
  have "quotes (sb_orders b) Buy (best_snapshot (sb_bids b))"
    and "quotes (sb_orders b) Sell (best_snapshot (sb_asks b))" by simp_all
  ultimately show ?thesis by (simp add: snapshot_bbo_sides)
qed

section \<open>Properties\<close>

text \<open>
  C2: The books refine the market.  With a fresh reference, and whatever the iteration
  order of the hash map, an event leaves the routing table and all books consistent (every
  live reference is routed to the one book that holds it, every book keeps its ledger), and
  the table of live orders over all stocks moves as the abstract market does.
\<close>

theorem ob_apply_refines_market:
  assumes "routing_ok ob" "event_fresh (market_of ob) ev" "enumerates ks (books ob)"
    and "ob_apply ks ob ev = (ob', r)"
  shows "routing_ok ob' \<and> market_of ob' = market_step (market_of ob) ev"
  using routed_refines [OF assms(1,2)] assms(4) by (simp add: ob_apply_routed [OF assms(1,3)])

theorem ob_apply_refines_market_witness:
  "market_of (fst (ob_apply [] order_book_new (AddOrder 1 5 Sell 100 7 1000000))) =
     [5 \<mapsto> (7, \<lparr>oi_side = Sell, oi_price = 1000000, oi_shares = 100\<rparr>)]"
proof -
  let ?ev = "AddOrder 1 5 Sell 100 7 1000000"
  obtain ob' r where run: "ob_apply [] order_book_new ?ev = (ob', r)" by fastforce
  have "event_fresh (market_of order_book_new) ?ev" by (simp add: new_books)
  from ob_apply_refines_market [OF routing_ok_new this new_books(4) run]
  show ?thesis by (simp only: run fst_conv new_books market_step.simps)
qed

text \<open>
  C1: After any run of the feed from empty books, under any iteration orders, the book of
  every stock quotes on each side the best price of the live orders of that stock and the
  shares live there.
\<close>

theorem books_quote_market:
  assumes "market_run ob m" "books ob s = Some b"
  shows "sb_orders b = stock_orders m s \<and>
    quotes (stock_orders m s) Buy (bid_price (snapshot_bbo b), bid_volume (snapshot_bbo b)) \<and>
    quotes (stock_orders m s) Sell (ask_price (snapshot_bbo b), ask_volume (snapshot_bbo b))"
  using assms by (rule market_run_quotes)

theorem books_quote_market_witness:
  "\<exists>b. quotes [5 \<mapsto> \<lparr>oi_side = Sell, oi_price = 1000000, oi_shares = 100\<rparr>] Sell
     (ask_price (snapshot_bbo b), ask_volume (snapshot_bbo b))"
proof -
  let ?ev = "AddOrder 1 5 Sell 100 7 1000000" and ?info = "\<lparr>oi_side = Sell, oi_price = 1000000, oi_shares = 100\<rparr>"
  let ?ob = "fst (ob_apply [] order_book_new ?ev)"
  have run: "market_run ?ob (market_step Map.empty ?ev)"
    by (rule market_run.event [OF market_run.start])
      (simp_all add: enumerates_def order_book_new_def)
  have "books ?ob 7 = Some (fst (book_apply (entry (order_book_new\<lparr>order_to_stock := [5 \<mapsto> 7]\<rparr>) 7) ?ev))"
    by (simp add: ob_add_def on_book_entry order_book_new_def)
  moreover have "stock_orders (market_step Map.empty ?ev) 7 = [5 \<mapsto> ?info]"
    by (auto simp: stock_orders_def)
  ultimately show ?thesis using books_quote_market [OF run] by metis
qed

text \<open>
  The iteration order of the hash map does not matter: on consistent books every
  event, deletions included, has one result.
\<close>

theorem ob_apply_order_independent:
  assumes "routing_ok ob" "enumerates ks (books ob)" "enumerates ks' (books ob)"
  shows "ob_apply ks ob ev = ob_apply ks' ob ev"
  using assms by (simp add: ob_apply_routed)

theorem ob_apply_order_independent_witness:
  "ob_apply [7, 8] (order_book_new\<lparr>books := [7 \<mapsto> single_book_new 7, 8 \<mapsto> single_book_new 8]\<rparr>) (OrderDelete 1 5) =
   ob_apply [8, 7] (order_book_new\<lparr>books := [7 \<mapsto> single_book_new 7, 8 \<mapsto> single_book_new 8]\<rparr>) (OrderDelete 1 5)"
proof (rule ob_apply_order_independent)
  have "sb_stock (single_book_new s) = s" "sb_orders (single_book_new s) = Map.empty" for s
    by (simp_all add: single_book_new_def)
  then show "routing_ok (order_book_new\<lparr>books := [7 \<mapsto> single_book_new 7, 8 \<mapsto> single_book_new 8]\<rparr>)"
    by (auto simp: routing_ok_def order_book_new_def book_ok_new split: if_splits)
qed (auto simp: enumerates_def order_book_new_def)

text \<open>
  C20: Isolation.  An event changes the book of the stock it belongs to and no other; an
  event for an unknown reference changes nothing and publishes nothing; what is published
  carries the stock of the event.
\<close>

theorem ob_apply_isolated:
  assumes "routing_ok ob" "enumerates ks (books ob)" "ob_apply ks ob ev = (ob', r)"
  shows "(\<forall>s. event_target (market_of ob) ev \<noteq> Some s \<longrightarrow> books ob' s = books ob s) \<and>
    (event_target (market_of ob) ev = None \<longrightarrow> ob' = ob \<and> r = None) \<and>
    (\<forall>u. r = Some u \<longrightarrow> event_target (market_of ob) ev = Some (upd_stock u))"
proof -
  have run: "routed ob ev = (ob', r)" using assms(3) by (simp add: ob_apply_routed [OF assms(1,2)])
  have "upd_stock u = sb_stock b" if "snd (book_apply b ev) = Some u" for b u
    using that touch_frame(3) [of b ev]
    by (cases "touch_orders b ev")
      (auto simp: book_apply_def Let_def create_bbo_update_def split: if_splits)
  then have stock: "upd_stock u = s" if "snd (book_apply (entry ob s) ev) = Some u" for s u
    using that entry_ok [OF assms(1), of s] by simp
  show ?thesis
  proof (cases "event_target (market_of ob) ev")
    case None
    with run show ?thesis by (simp add: routed_def)
  next
    case (Some s)
    then have "books ob' = (books ob)(s \<mapsto> fst (book_apply (entry ob s) ev))"
      and "r = snd (book_apply (entry ob s) ev)"
      using run by (auto simp: routed_def on_book_entry)
    with Some show ?thesis using stock by auto
  qed
qed

theorem ob_apply_isolated_witness:
  "books (fst (ob_apply [] order_book_new (AddOrder 1 5 Sell 100 7 1000000))) 8 = None"
proof -
  obtain ob' r where run: "ob_apply [] order_book_new (AddOrder 1 5 Sell 100 7 1000000) = (ob', r)"
    by fastforce
  from ob_apply_isolated [OF routing_ok_new new_books(4) run]
  have "books ob' 8 = books order_book_new 8" by simp
  then show ?thesis by (simp only: run fst_conv new_books)
qed

text \<open>
  The consistency check over all books says that no book is crossed, in whatever order
  the hash map visits them.
\<close>

theorem all_consistent_iff:
  assumes "enumerates ks (books ob)"
  shows "all_consistent ks ob \<longleftrightarrow> (\<forall>s b. books ob s = Some b \<longrightarrow> is_consistent b)"
  by (auto simp: all_consistent_def list_all_iff set_map_values [OF assms] ran_def)

theorem all_consistent_iff_witness:
  "all_consistent [7] (order_book_new\<lparr>books := [7 \<mapsto> single_book_new 7]\<rparr>)"
proof -
  have "enumerates [7] (books (order_book_new\<lparr>books := [7 \<mapsto> single_book_new 7]\<rparr>))"
    by (simp add: enumerates_def)
  moreover have "is_consistent (single_book_new 7)"
    by (simp add: is_consistent_def is_crossed_def synced_new bbo_snapshot_zero_def)
  ultimately show ?thesis using all_consistent_iff [of "[7]"] by (simp split: if_splits)
qed

text \<open>
  When a reference is used for two stocks, which order a deletion removes depends on
  the iteration order of the hash map: the same feed gives different books.
\<close>

theorem shared_reference_order_dependent:
  "let ob1 = fst (ob_apply [] order_book_new (AddOrder 1 5 Buy 100 7 1000000));
       ob2 = fst (ob_apply [7] ob1 (AddOrder 2 5 Buy 40 8 2000000))
   in map_option best_bid (books (fst (ob_apply [7, 8] ob2 (OrderDelete 3 5))) 7) = Some None \<and>
      map_option best_bid (books (fst (ob_apply [8, 7] ob2 (OrderDelete 3 5))) 7) =
        Some (Some \<lparr>pl_price = 1000000, pl_volume = 100, order_count = 1\<rparr>)"
  by (simp add: book_eval order_book_new_def ob_add_def ob_delete_def on_book_def get_or_create_def)

end
