(* ===== verification/Floats.thy ===== *)
theory Floats
  imports Complex_Main Prelude
begin

text \<open>
  Double-precision arithmetic as a parameter.  Every definition of the pricing code takes
  the operations \<open>F\<close> it uses on \<open>f64\<close>, so that what is proved of its control flow holds
  for IEEE arithmetic with any rounding: \<open>float_order\<close> states the few facts such proofs
  need.  \<open>exact_ops\<close> is the instance used for the formulas themselves: real numbers with
  infinities and NaN under the IEEE rules for special values, but without rounding.
\<close>

section \<open>The operations\<close>

record 'f float_ops =
  f_add :: "'f \<Rightarrow> 'f \<Rightarrow> 'f"
  f_sub :: "'f \<Rightarrow> 'f \<Rightarrow> 'f"
  f_mul :: "'f \<Rightarrow> 'f \<Rightarrow> 'f"
  f_div :: "'f \<Rightarrow> 'f \<Rightarrow> 'f"
  f_neg :: "'f \<Rightarrow> 'f"
  f_abs :: "'f \<Rightarrow> 'f"
  f_max :: "'f \<Rightarrow> 'f \<Rightarrow> 'f"
  f_sqrt :: "'f \<Rightarrow> 'f"
  f_exp :: "'f \<Rightarrow> 'f"
  f_ln :: "'f \<Rightarrow> 'f"
  f_less :: "'f \<Rightarrow> 'f \<Rightarrow> bool"
  f_le :: "'f \<Rightarrow> 'f \<Rightarrow> bool"
  f_lit :: "rat \<Rightarrow> 'f"
  f_infinity :: 'f
  f_pi :: 'f
  f_frac_1_sqrt_2 :: 'f
  f_of_u64 :: "u64 \<Rightarrow> 'f"
  f_to_u64 :: "'f \<Rightarrow> u64"

text \<open>\<open>f64::clamp\<close>\<close>

definition f_clamp :: "'f float_ops \<Rightarrow> 'f \<Rightarrow> 'f \<Rightarrow> 'f \<Rightarrow> 'f" where
  "f_clamp F lo hi x = (if f_less F x lo then lo else if f_less F hi x then hi else x)"

text \<open>A double that is not below one literal and not above another.\<close>

definition in_band :: "'f float_ops \<Rightarrow> rat \<Rightarrow> rat \<Rightarrow> 'f \<Rightarrow> bool" where
  "in_band F p q x \<longleftrightarrow> \<not> f_less F x (f_lit F p) \<and> \<not> f_less F (f_lit F q) x"

text \<open>
  What comparisons of doubles promise, NaN included: a literal is rounded monotonically,
  nothing is greater than infinity.
\<close>

locale float_order =
  fixes F :: "'f float_ops"
  assumes less_irrefl: "\<not> f_less F x x"
    and lit_mono: "p \<le> q \<Longrightarrow> \<not> f_less F (f_lit F q) (f_lit F p)"
    and less_trans: "f_less F x y \<Longrightarrow> f_less F y z \<Longrightarrow> f_less F x z"
    and infinity_top: "\<not> f_less F (f_infinity F) x"
    and less_infinity: "f_less F x y \<Longrightarrow> f_less F x (f_infinity F)"
begin

lemma in_band_lit: "p \<le> r \<Longrightarrow> r \<le> q \<Longrightarrow> in_band F p q (f_lit F r)"
  by (simp add: in_band_def lit_mono)

lemma in_band_clamp: "p \<le> q \<Longrightarrow> in_band F p q (f_clamp F (f_lit F p) (f_lit F q) x)"
  by (simp add: in_band_def f_clamp_def less_irrefl lit_mono)

end

section \<open>Exact arithmetic with the special values\<close>

datatype xreal = NaN | NegInf | Fin real | PosInf

fun x_neg :: "xreal \<Rightarrow> xreal" where
  "x_neg NaN = NaN"
| "x_neg NegInf = PosInf"
| "x_neg (Fin a) = Fin (- a)"
| "x_neg PosInf = NegInf"

fun x_add :: "xreal \<Rightarrow> xreal \<Rightarrow> xreal" where
  "x_add (Fin a) (Fin b) = Fin (a + b)"
| "x_add NaN _ = NaN"
| "x_add _ NaN = NaN"
| "x_add PosInf NegInf = NaN"
| "x_add NegInf PosInf = NaN"
| "x_add PosInf _ = PosInf"
| "x_add _ PosInf = PosInf"
| "x_add NegInf _ = NegInf"
| "x_add _ NegInf = NegInf"

definition x_sub :: "xreal \<Rightarrow> xreal \<Rightarrow> xreal" where
  "x_sub a b = x_add a (x_neg b)"

text \<open>The infinity of a sign; an infinity times zero is NaN.\<close>

definition x_signed :: "real \<Rightarrow> xreal" where
  "x_signed s = (if s > 0 then PosInf else if s < 0 then NegInf else NaN)"

fun x_mul :: "xreal \<Rightarrow> xreal \<Rightarrow> xreal" where
  "x_mul (Fin a) (Fin b) = Fin (a * b)"
| "x_mul NaN _ = NaN"
| "x_mul _ NaN = NaN"
| "x_mul PosInf (Fin b) = x_signed b"
| "x_mul NegInf (Fin b) = x_signed (- b)"
| "x_mul (Fin a) PosInf = x_signed a"
| "x_mul (Fin a) NegInf = x_signed (- a)"
| "x_mul PosInf PosInf = PosInf"
| "x_mul NegInf NegInf = PosInf"
| "x_mul PosInf NegInf = NegInf"
| "x_mul NegInf PosInf = NegInf"

text \<open>Division by zero gives the infinity of the numerator; zeroes carry no sign here.\<close>

fun x_div :: "xreal \<Rightarrow> xreal \<Rightarrow> xreal" where
  "x_div (Fin a) (Fin b) = (if b = 0 then x_signed a else Fin (a / b))"
| "x_div NaN _ = NaN"
| "x_div _ NaN = NaN"
| "x_div (Fin a) PosInf = Fin 0"
| "x_div (Fin a) NegInf = Fin 0"
| "x_div PosInf (Fin b) = (if b < 0 then NegInf else PosInf)"
| "x_div NegInf (Fin b) = (if b < 0 then PosInf else NegInf)"
| "x_div _ _ = NaN"

fun x_abs :: "xreal \<Rightarrow> xreal" where
  "x_abs NaN = NaN"
| "x_abs (Fin a) = Fin \<bar>a\<bar>"
| "x_abs _ = PosInf"

fun x_less :: "xreal \<Rightarrow> xreal \<Rightarrow> bool" where
  "x_less (Fin a) (Fin b) \<longleftrightarrow> a < b"
| "x_less NaN _ \<longleftrightarrow> False"
| "x_less _ NaN \<longleftrightarrow> False"
| "x_less NegInf NegInf \<longleftrightarrow> False"
| "x_less NegInf _ \<longleftrightarrow> True"
| "x_less _ NegInf \<longleftrightarrow> False"
| "x_less PosInf _ \<longleftrightarrow> False"
| "x_less _ PosInf \<longleftrightarrow> True"

definition x_le :: "xreal \<Rightarrow> xreal \<Rightarrow> bool" where
  "x_le a b \<longleftrightarrow> x_less a b \<or> (a = b \<and> a \<noteq> NaN)"

text \<open>\<open>f64::max\<close> returns the other argument of a NaN.\<close>

definition x_max :: "xreal \<Rightarrow> xreal \<Rightarrow> xreal" where
  "x_max a b = (if a = NaN then b else if b = NaN then a else if x_less a b then b else a)"

fun x_sqrt :: "xreal \<Rightarrow> xreal" where
  "x_sqrt (Fin a) = (if a < 0 then NaN else Fin (sqrt a))"
| "x_sqrt PosInf = PosInf"
| "x_sqrt _ = NaN"

fun x_exp :: "xreal \<Rightarrow> xreal" where
  "x_exp NaN = NaN"
| "x_exp NegInf = Fin 0"
| "x_exp (Fin a) = Fin (exp a)"
| "x_exp PosInf = PosInf"

fun x_ln :: "xreal \<Rightarrow> xreal" where
  "x_ln (Fin a) = (if a < 0 then NaN else if a = 0 then NegInf else Fin (ln a))"
| "x_ln PosInf = PosInf"
| "x_ln _ = NaN"

text \<open>\<open>as u64\<close> truncates, saturates at the bounds and sends NaN to zero.\<close>

fun x_to_u64 :: "xreal \<Rightarrow> u64" where
  "x_to_u64 (Fin a) = (if a < 0 then 0 else if a \<ge> 2 ^ 64 then - 1 else word_of_int \<lfloor>a\<rfloor>)"
| "x_to_u64 PosInf = - 1"
| "x_to_u64 _ = 0"

definition exact_ops :: "xreal float_ops" where
  "exact_ops =
     \<lparr>f_add = x_add, f_sub = x_sub, f_mul = x_mul, f_div = x_div, f_neg = x_neg, f_abs = x_abs,
      f_max = x_max, f_sqrt = x_sqrt, f_exp = x_exp, f_ln = x_ln, f_less = x_less, f_le = x_le,
      f_lit = (\<lambda>q. Fin (of_rat q)), f_infinity = PosInf, f_pi = Fin pi,
      f_frac_1_sqrt_2 = Fin (1 / sqrt 2), f_of_u64 = (\<lambda>w. Fin (real (unat w))),
      f_to_u64 = x_to_u64\<rparr>"

lemma exact_ops_simps [simp]:
  "f_add exact_ops = x_add" "f_sub exact_ops = x_sub" "f_mul exact_ops = x_mul"
  "f_div exact_ops = x_div" "f_neg exact_ops = x_neg" "f_abs exact_ops = x_abs"
  "f_max exact_ops = x_max" "f_sqrt exact_ops = x_sqrt" "f_exp exact_ops = x_exp"
  "f_ln exact_ops = x_ln" "f_less exact_ops = x_less" "f_le exact_ops = x_le"
  "f_lit exact_ops q = Fin (of_rat q)" "f_infinity exact_ops = PosInf" "f_pi exact_ops = Fin pi"
  "f_frac_1_sqrt_2 exact_ops = Fin (1 / sqrt 2)" "f_of_u64 exact_ops w = Fin (real (unat w))"
  "f_to_u64 exact_ops = x_to_u64"
  by (simp_all add: exact_ops_def)

lemma x_sub_Fin [simp]: "x_sub (Fin a) (Fin b) = Fin (a - b)"
  by (simp add: x_sub_def)

lemma x_le_Fin [simp]: "x_le (Fin a) (Fin b) \<longleftrightarrow> a \<le> b"
  by (auto simp: x_le_def)

lemma x_max_Fin [simp]: "x_max (Fin a) (Fin b) = Fin (max a b)"
  by (auto simp: x_max_def)

interpretation exact: float_order exact_ops
proof unfold_locales
  fix x y z
  show "\<not> f_less exact_ops x x" by (cases x) simp_all
  show "f_less exact_ops x y \<Longrightarrow> f_less exact_ops y z \<Longrightarrow> f_less exact_ops x z"
    by (cases x; cases y; cases z) simp_all
  show "f_less exact_ops x y \<Longrightarrow> f_less exact_ops x (f_infinity exact_ops)"
    by (cases x; cases y) simp_all
  show "\<not> f_less exact_ops (f_infinity exact_ops) x" by (cases x) simp_all
qed (simp add: of_rat_less not_less)

end
