(* ===== verification/Pricing.thy ===== *)
theory Pricing
  imports Floats
begin

text \<open>
  The option pricing code (src/pricing/mod.rs): the approximate normal distribution, the
  Black-Scholes-Merton price and sensitivities, and the Newton search for the implied
  volatility.  Every definition takes the operations \<open>F\<close> on \<open>f64\<close>; the literals are the
  decimal fractions of the source.
\<close>

section \<open>Data and constants\<close>

datatype option_type = Call | Put

definition NEG_INF_THRESHOLD :: rat where "NEG_INF_THRESHOLD = - 6"
definition POS_INF_THRESHOLD :: rat where "POS_INF_THRESHOLD = 6"
definition MAX_IV_ITERATIONS :: nat where "MAX_IV_ITERATIONS = 32"
definition IV_EPSILON :: rat where "IV_EPSILON = 1 / 10 ^ 8"
definition MIN_IV :: rat where "MIN_IV = 1 / 10 ^ 4"
definition MAX_IV :: rat where "MAX_IV = 10"

record 'f bsm_inputs =
  bi_spot_price :: 'f
  bi_strike_price :: 'f
  bi_risk_free_rate :: 'f
  bi_time_to_maturity :: 'f
  bi_volatility :: 'f
  bi_option_type :: option_type

record 'f bsm_result =
  br_price :: 'f
  br_delta :: 'f
  br_gamma :: 'f
  br_vega :: 'f
  br_theta :: 'f
  br_rho :: 'f
  br_implied_volatility :: 'f

section \<open>The normal distribution\<close>

definition norm_pdf :: "'f float_ops \<Rightarrow> 'f \<Rightarrow> 'f" where
  "norm_pdf F x =
     (if f_less F x (f_lit F NEG_INF_THRESHOLD) \<or> f_less F (f_lit F POS_INF_THRESHOLD) x
      then f_lit F 0
      else f_div F
             (f_mul F (f_exp F (f_mul F (f_mul F (f_lit F (- 0.5)) x) x)) (f_frac_1_sqrt_2 F))
             (f_sqrt F (f_pi F)))"

text \<open>The polynomial of the tail approximation, in the order of the source's nesting.\<close>

definition cdf_tail :: "'f float_ops \<Rightarrow> 'f \<Rightarrow> 'f" where
  "cdf_tail F xa =
     (let t = f_div F (f_lit F 1) (f_add F (f_lit F 1) (f_mul F (f_lit F 0.2316419) xa));
          d = f_mul F (f_lit F 0.3989423)
                (f_exp F (f_div F (f_mul F (f_neg F xa) xa) (f_lit F 2)))
      in f_mul F (f_mul F d t)
           (f_add F (f_lit F 0.3193815) (f_mul F t
              (f_add F (f_lit F (- 0.3565638)) (f_mul F t
                 (f_add F (f_lit F 1.781478) (f_mul F t
                    (f_add F (f_lit F (- 1.821256)) (f_mul F t (f_lit F 1.330274))))))))))"

definition norm_cdf :: "'f float_ops \<Rightarrow> 'f \<Rightarrow> 'f" where
  "norm_cdf F x =
     (if f_less F x (f_lit F NEG_INF_THRESHOLD) then f_lit F 0
      else if f_less F (f_lit F POS_INF_THRESHOLD) x then f_lit F 1
      else let sign = (if f_le F (f_lit F 0) x then f_lit F 1 else f_lit F (- 1));
               prob = cdf_tail F (f_abs F x)
           in if f_less F (f_lit F 0) sign then f_sub F (f_lit F 1) prob else prob)"

section \<open>Price and sensitivities\<close>

definition calc_d1_d2 :: "'f float_ops \<Rightarrow> 'f \<Rightarrow> 'f \<Rightarrow> 'f \<Rightarrow> 'f \<Rightarrow> 'f \<Rightarrow> 'f \<times> 'f \<times> 'f \<times> 'f" where
  "calc_d1_d2 F spot strike rate vol ttm =
     (let ln_sk = f_ln F (f_div F spot strike);
          sqrt_ttm = f_sqrt F ttm;
          vol_sqrt_ttm = f_mul F vol sqrt_ttm;
          d1 = f_div F
                 (f_add F ln_sk
                    (f_mul F (f_add F rate (f_mul F (f_mul F (f_lit F 0.5) vol) vol)) ttm))
                 vol_sqrt_ttm;
          d2 = f_sub F d1 vol_sqrt_ttm
      in (d1, d2, sqrt_ttm, vol_sqrt_ttm))"

definition intrinsic_value :: "'f float_ops \<Rightarrow> option_type \<Rightarrow> 'f \<Rightarrow> 'f \<Rightarrow> 'f" where
  "intrinsic_value F ot spot strike =
     (case ot of
        Call \<Rightarrow> f_max F (f_sub F spot strike) (f_lit F 0)
      | Put \<Rightarrow> f_max F (f_sub F strike spot) (f_lit F 0))"

definition discounted_strike :: "'f float_ops \<Rightarrow> 'f bsm_inputs \<Rightarrow> 'f" where
  "discounted_strike F i =
     f_mul F (bi_strike_price i)
       (f_exp F (f_mul F (f_neg F (bi_risk_free_rate i)) (bi_time_to_maturity i)))"

definition bsm_price :: "'f float_ops \<Rightarrow> 'f bsm_inputs \<Rightarrow> 'f" where
  "bsm_price F i =
     (if f_le F (bi_time_to_maturity i) (f_lit F 0)
      then intrinsic_value F (bi_option_type i) (bi_spot_price i) (bi_strike_price i)
      else case calc_d1_d2 F (bi_spot_price i) (bi_strike_price i) (bi_risk_free_rate i)
                  (bi_volatility i) (bi_time_to_maturity i) of
        (d1, d2, _, _) \<Rightarrow>
          let k_exp = discounted_strike F i;
              nd1 = norm_cdf F d1;
              nd2 = norm_cdf F d2
          in case bi_option_type i of
               Call \<Rightarrow> f_sub F (f_mul F (bi_spot_price i) nd1) (f_mul F k_exp nd2)
             | Put \<Rightarrow> f_sub F (f_mul F k_exp (f_sub F (f_lit F 1) nd2))
                        (f_mul F (bi_spot_price i) (f_sub F (f_lit F 1) nd1)))"

definition expired_delta :: "'f float_ops \<Rightarrow> 'f bsm_inputs \<Rightarrow> 'f" where
  "expired_delta F i =
     (case bi_option_type i of
        Call \<Rightarrow> if f_less F (bi_strike_price i) (bi_spot_price i) then f_lit F 1 else f_lit F 0
      | Put \<Rightarrow> if f_less F (bi_spot_price i) (bi_strike_price i) then f_lit F (- 1)
               else f_lit F 0)"

definition bsm_greeks :: "'f float_ops \<Rightarrow> 'f bsm_inputs \<Rightarrow> 'f bsm_result" where
  "bsm_greeks F i =
     (let price = bsm_price F i;
          S = bi_spot_price i; K = bi_strike_price i; r = bi_risk_free_rate i;
          T = bi_time_to_maturity i; v = bi_volatility i
      in if f_le F T (f_lit F 0)
         then \<lparr>br_price = price, br_delta = expired_delta F i, br_gamma = f_lit F 0,
               br_vega = f_lit F 0, br_theta = f_lit F 0, br_rho = f_lit F 0,
               br_implied_volatility = v\<rparr>
         else case calc_d1_d2 F S K r v T of
           (d1, d2, sqrt_ttm, vol_sqrt_ttm) \<Rightarrow>
             let nd1 = norm_cdf F d1;
                 nd2 = norm_cdf F d2;
                 nd2_neg = norm_cdf F (f_neg F d2);
                 phi_d1 = norm_pdf F d1;
                 k_exp = discounted_strike F i;
                 delta = (case bi_option_type i of
                            Call \<Rightarrow> nd1
                          | Put \<Rightarrow> f_sub F nd1 (f_lit F 1));
                 gamma = f_div F phi_d1 (f_mul F S vol_sqrt_ttm);
                 vega = f_mul F (f_mul F S phi_d1) sqrt_ttm;
                 decay = f_div F (f_mul F (f_mul F (f_neg F S) phi_d1) v)
                           (f_mul F (f_lit F 2) sqrt_ttm);
                 theta = (case bi_option_type i of
                            Call \<Rightarrow> f_sub F decay (f_mul F (f_mul F r k_exp) nd2)
                          | Put \<Rightarrow> f_add F decay (f_mul F (f_mul F r k_exp) nd2_neg));
                 rho = (case bi_option_type i of
                          Call \<Rightarrow> f_mul F (f_mul F (f_mul F K T) k_exp) nd2
                        | Put \<Rightarrow> f_mul F (f_mul F (f_mul F (f_neg F K) T) k_exp) nd2_neg)
             in \<lparr>br_price = price, br_delta = delta, br_gamma = gamma,
                 br_vega = f_div F vega (f_lit F 100), br_theta = f_div F theta (f_lit F 365),
                 br_rho = f_div F rho (f_lit F 100), br_implied_volatility = v\<rparr>)"

section \<open>Implied volatility\<close>

definition iv_inputs :: "'f \<Rightarrow> 'f \<Rightarrow> 'f \<Rightarrow> 'f \<Rightarrow> option_type \<Rightarrow> 'f \<Rightarrow> 'f bsm_inputs" where
  "iv_inputs spot strike rate ttm ot vol =
     \<lparr>bi_spot_price = spot, bi_strike_price = strike, bi_risk_free_rate = rate,
      bi_time_to_maturity = ttm, bi_volatility = vol, bi_option_type = ot\<rparr>"

text \<open>
  The \<open>for\<close> loop, with the number of iterations left; \<open>Inl v\<close> is the early return of a
  volatility, \<open>Inr (best_vol, best_error)\<close> what the loop leaves to the code after it.
\<close>

primrec iv_search ::
  "'f float_ops \<Rightarrow> 'f \<Rightarrow> 'f \<Rightarrow> 'f \<Rightarrow> 'f \<Rightarrow> 'f \<Rightarrow> option_type \<Rightarrow> nat \<Rightarrow> 'f \<Rightarrow> 'f \<Rightarrow> 'f
     \<Rightarrow> 'f + 'f \<times> 'f" where
  "iv_search F market spot strike rate ttm ot 0 vol best_vol best_error = Inr (best_vol, best_error)"
| "iv_search F market spot strike rate ttm ot (Suc n) vol best_vol best_error =
     (let price = bsm_price F (iv_inputs spot strike rate ttm ot vol);
          err = f_sub F price market;
          abs_error = f_abs F err;
          (best_vol', best_error') =
            (if f_less F abs_error best_error then (vol, abs_error) else (best_vol, best_error))
      in if f_less F abs_error (f_lit F IV_EPSILON) then Inl vol
         else case calc_d1_d2 F spot strike rate vol ttm of
           (d1, _, sqrt_ttm, _) \<Rightarrow>
             let vega = f_mul F (f_mul F spot (norm_pdf F d1)) sqrt_ttm
             in if f_less F vega (f_lit F (1 / 10 ^ 12)) then Inr (best_vol', best_error')
                else iv_search F market spot strike rate ttm ot n
                       (f_clamp F (f_lit F MIN_IV) (f_lit F MAX_IV)
                          (f_sub F vol (f_div F err vega)))
                       best_vol' best_error')"

definition solve_implied_volatility ::
  "'f float_ops \<Rightarrow> 'f \<Rightarrow> 'f \<Rightarrow> 'f \<Rightarrow> 'f \<Rightarrow> 'f \<Rightarrow> option_type \<Rightarrow> 'f option" where
  "solve_implied_volatility F market_price spot strike rate ttm ot =
     (if f_le F ttm (f_lit F 0) \<or> f_le F spot (f_lit F 0) \<or> f_le F strike (f_lit F 0)
          \<or> f_le F market_price (f_lit F 0)
      then None
      else let intrinsic = intrinsic_value F ot spot strike in
        if f_less F market_price (f_sub F intrinsic (f_lit F (1 / 10 ^ 8))) then None
        else if f_le F market_price (f_add F intrinsic (f_lit F (1 / 10 ^ 8)))
        then Some (f_lit F 0)
        else case iv_search F market_price spot strike rate ttm ot MAX_IV_ITERATIONS
                    (f_lit F 0.3) (f_lit F 0.3) (f_infinity F) of
          Inl v \<Rightarrow> Some v
        | Inr (best_vol, best_error) \<Rightarrow>
            if f_less F best_error (f_mul F (f_lit F 0.01) market_price) then Some best_vol
            else None)"

definition solve_iv_and_greeks ::
  "'f float_ops \<Rightarrow> 'f \<Rightarrow> 'f \<Rightarrow> 'f \<Rightarrow> 'f \<Rightarrow> 'f \<Rightarrow> option_type \<Rightarrow> 'f bsm_result option" where
  "solve_iv_and_greeks F market_price spot strike rate ttm ot =
     map_option
       (\<lambda>iv. (bsm_greeks F (iv_inputs spot strike rate ttm ot iv))\<lparr>br_implied_volatility := iv\<rparr>)
       (solve_implied_volatility F market_price spot strike rate ttm ot)"

end
