(* ===== verification/Calendar.thy ===== *)
theory Calendar
  imports Prelude "HOL-Library.Signed_Division"
begin

text \<open>
  \<open>date_to_unix_secs\<close> of src/options/mod.rs: the start of a day written as the decimal
  number \<open>YYYYMMDD\<close>, in seconds since the Unix epoch.  The intermediate values are
  \<open>i64\<close>; they stay far from its bounds (the year of a 32-bit number has six digits), so
  the model computes them as integers, with the truncating division of the source.
\<close>

section \<open>The code\<close>

definition date_year :: "u32 \<Rightarrow> u32" where "date_year date = date div 10000"
definition date_month :: "u32 \<Rightarrow> u32" where "date_month date = date mod 10000 div 100"
definition date_day :: "u32 \<Rightarrow> u32" where "date_day date = date mod 100"

definition julian_day :: "int \<Rightarrow> int \<Rightarrow> int \<Rightarrow> int" where
  "julian_day y m d =
     (let a = (14 - m) sdiv 12;
          y_adj = y + 4800 - a;
          m_adj = m + 12 * a - 3
      in d + (153 * m_adj + 2) sdiv 5 + 365 * y_adj + y_adj sdiv 4 - y_adj sdiv 100
         + y_adj sdiv 400 - 32045)"

definition date_to_unix_secs :: "u32 \<Rightarrow> u64" where
  "date_to_unix_secs date =
     (let y = int (unat (date_year date));
          m = int (unat (date_month date));
          d = int (unat (date_day date));
          jdn = julian_day y m d;
          unix_jdn = 2440588
      in word_of_int ((jdn - unix_jdn) * 86400))"

section \<open>The calendar\<close>

text \<open>The days of the Gregorian calendar, one after the other, from the epoch.\<close>

definition leap_year :: "nat \<Rightarrow> bool" where
  "leap_year y \<longleftrightarrow> 4 dvd y \<and> (\<not> 100 dvd y \<or> 400 dvd y)"

definition month_days :: "nat \<Rightarrow> nat \<Rightarrow> nat" where
  "month_days y m =
     (if m = 2 then if leap_year y then 29 else 28
      else if m \<in> {4, 6, 9, 11} then 30 else 31)"

fun next_date :: "nat \<times> nat \<times> nat \<Rightarrow> nat \<times> nat \<times> nat" where
  "next_date (y, m, d) =
     (if d < month_days y m then (y, m, d + 1)
      else if m < 12 then (y, m + 1, 1)
      else (y + 1, 1, 1))"

primrec civil_date :: "nat \<Rightarrow> nat \<times> nat \<times> nat" where
  "civil_date 0 = (1970, 1, 1)"
| "civil_date (Suc n) = next_date (civil_date n)"

fun yyyymmdd :: "nat \<times> nat \<times> nat \<Rightarrow> nat" where
  "yyyymmdd (y, m, d) = y * 10000 + m * 100 + d"

fun valid_date :: "nat \<times> nat \<times> nat \<Rightarrow> bool" where
  "valid_date (y, m, d) \<longleftrightarrow> 1970 \<le> y \<and> 1 \<le> m \<and> m \<le> 12 \<and> 1 \<le> d \<and> d \<le> month_days y m"

lemma month_days_ge: "28 \<le> month_days y m"
  by (simp add: month_days_def)

lemma month_days_le: "month_days y m \<le> 31"
  by (simp add: month_days_def)

lemma valid_next_date: "valid_date t \<Longrightarrow> valid_date (next_date t)"
  by (cases t) (use month_days_ge [of "fst t" 1] in \<open>auto simp: month_days_def\<close>)

lemma valid_civil_date: "valid_date (civil_date n)"
  by (induction n) (simp_all add: month_days_def valid_next_date del: next_date.simps)

text \<open>A month of the calendar, day by day.\<close>

lemma civil_within_month:
  "civil_date n = (y, m, 1) \<Longrightarrow> k < month_days y m \<Longrightarrow> civil_date (n + k) = (y, m, 1 + k)"
  by (induction k) simp_all

lemma civil_next_month:
  assumes "civil_date n = (y, m, 1)" "m < 12"
  shows "civil_date (n + month_days y m) = (y, m + 1, 1)"
proof -
  obtain k where k: "month_days y m = Suc k" using month_days_ge [of y m] by (cases "month_days y m") simp_all
  then show ?thesis using civil_within_month [OF assms(1), of k] assms(2) by simp
qed

section \<open>The Julian day number counts them\<close>

text \<open>For the months of the calendar the divisions have no negative operand.\<close>

lemma sdiv_pos: "0 \<le> a \<Longrightarrow> 0 < b \<Longrightarrow> (a :: int) sdiv b = a div b"
  by (cases "a = 0") (simp_all add: signed_divide_int_def)

definition leap_days :: "int \<Rightarrow> int" where
  "leap_days y = y div 4 - y div 100 + y div 400"

definition month_offset :: "int \<Rightarrow> int" where
  "month_offset m = (153 * m + 2) div 5"

definition month_start :: "int \<Rightarrow> int \<Rightarrow> int" where
  "month_start y m =
     (if m \<le> 2 then month_offset (m + 9) + 365 * (y - 1) + leap_days (y - 1)
      else month_offset (m - 3) + 365 * y + leap_days y)"

lemma leap_days_cycle: "leap_days (y + 4800) = leap_days y + 1164"
  using div_mult_self1 [of 4 y 1200] div_mult_self1 [of 100 y 48] div_mult_self1 [of 400 y 12]
  by (simp add: leap_days_def)

lemma julian_day_unfold:
  assumes "(14 - m) sdiv 12 = a" "0 \<le> m + 12 * a - 3" "0 \<le> y + 4800 - a"
  shows "julian_day y m d =
    d + month_offset (m + 12 * a - 3) + 365 * (y + 4800 - a) + leap_days (y + 4800 - a) - 32045"
  using assms by (simp add: julian_day_def month_offset_def leap_days_def sdiv_pos Let_def)

lemma julian_day_month_start:
  assumes "1 \<le> m" "m \<le> 12" "1970 \<le> y"
  shows "julian_day y m d = d + month_start y m + 1721119"
proof (cases "m \<le> 2")
  case True
  then have "(14 - m) sdiv 12 = 1" using assms by (simp add: sdiv_pos)
  from julian_day_unfold [OF this] True assms show ?thesis
    using leap_days_cycle [of "y - 1"] by (simp add: month_start_def add.commute)
next
  case False
  then have "(14 - m) sdiv 12 = 0" using assms by (simp add: sdiv_pos)
  from julian_day_unfold [OF this] False assms show ?thesis
    using leap_days_cycle [of y] by (simp add: month_start_def)
qed

text \<open>Within a year a month starts where the one before it ends, and so does a year.\<close>

lemma leap_days_next: "leap_days (int (Suc z)) = leap_days (int z) + (if leap_year (Suc z) then 1 else 0)"
proof -
  define q where "q k = z div k" for k
  define p where "p k \<longleftrightarrow> k dvd Suc z" for k
  have step: "Suc z div k = q k + (if p k then 1 else 0)" for k
    using div_Suc [of z k] by (auto simp: q_def p_def dvd_eq_mod_eq_0)
  have "leap_days (int (Suc z)) = int (Suc z div 4) - int (Suc z div 100) + int (Suc z div 400)"
    "leap_days (int z) = int (q 4) - int (q 100) + int (q 400)"
    by (simp_all only: leap_days_def q_def zdiv_int of_nat_numeral)
  note days = this [unfolded step]
  have "p 100 \<Longrightarrow> p 4" "p 400 \<Longrightarrow> p 100"
    unfolding p_def by (rule dvd_trans [rotated], assumption, simp)+
  moreover have "leap_year (Suc z) \<longleftrightarrow> p 4 \<and> (\<not> p 100 \<or> p 400)"
    by (simp only: leap_year_def p_def)
  ultimately show ?thesis using days by (simp only: split: if_split) auto
qed

lemma leap_days_year:
  "1970 \<le> y \<Longrightarrow> leap_days (int y) = leap_days (int y - 1) + (if leap_year y then 1 else 0)"
  using leap_days_next [of "y - 1"] by (simp add: of_nat_diff)

lemma month_start_next:
  assumes "1 \<le> m" "m < 12" "1970 \<le> y"
  shows "month_start (int y) (int m + 1) = month_start (int y) (int m) + int (month_days y m)"
proof -
  have "m = 1 \<or> m = 2 \<or> m = 3 \<or> m = 4 \<or> m = 5 \<or> m = 6 \<or> m = 7 \<or> m = 8 \<or> m = 9 \<or> m = 10 \<or> m = 11"
    using assms by presburger
  then show ?thesis
    using leap_days_year [OF assms(3)]
    by (elim disjE) (simp_all add: month_start_def month_days_def month_offset_def)
qed

lemma month_start_year:
  "month_start (int y + 1) 1 = month_start (int y) 12 + 31"
  by (simp add: month_start_def month_offset_def)

fun day_number :: "nat \<times> nat \<times> nat \<Rightarrow> int" where
  "day_number (y, m, d) = julian_day (int y) (int m) (int d) - 2440588"

lemma day_number_next:
  assumes "valid_date t"
  shows "day_number (next_date t) = day_number t + 1"
proof (cases t)
  case (fields y m d)
  have y: "1970 \<le> y" and m: "1 \<le> m" "m \<le> 12" and d: "d \<le> month_days y m"
    using assms fields by simp_all
  have jd: "julian_day (int y') (int m') (int d') = int d' + month_start (int y') (int m') + 1721119"
    if "1 \<le> m'" "m' \<le> 12" "1970 \<le> y'" for y' m' d'
    using that by (simp add: julian_day_month_start)
  consider "d < month_days y m" | "d = month_days y m" "m < 12" | "d = month_days y m" "m = 12"
    using m d by linarith
  then show ?thesis
  proof cases
    case 1
    then show ?thesis using fields jd [of m y d] jd [of m y "d + 1"] m y by simp
  next
    case 2
    then show ?thesis
      using fields jd [of m y d] jd [of "m + 1" y 1] month_start_next [of m y] m y
      by (simp add: add.commute)
  next
    case 3
    then show ?thesis
      using fields jd [of m y d] jd [of 1 "y + 1" 1] month_start_year [of y] y
      by (simp add: month_days_def add.commute)
  qed
qed

lemma day_number_civil: "day_number (civil_date n) = int n"
proof (induction n)
  case 0
  then show ?case by (simp add: julian_day_month_start month_start_def month_offset_def leap_days_def)
next
  case (Suc n)
  then show ?case using day_number_next [OF valid_civil_date] by simp
qed

lemma decimal_date:
  fixes m d y :: nat
  assumes "m < 100" "d < 100"
  shows "(y * 10000 + m * 100 + d) mod 10000 div 100 = m"
    and "(y * 10000 + m * 100 + d) mod 100 = d"
    and "(y * 10000 + m * 100 + d) div 10000 = y"
proof -
  have small: "m * 100 + d < 10000" using assms by simp
  have split: "y * 10000 + m * 100 + d = m * 100 + d + y * 10000" by simp
  show "(y * 10000 + m * 100 + d) mod 10000 div 100 = m"
    unfolding split using small assms by simp
  show "(y * 10000 + m * 100 + d) div 10000 = y"
    unfolding split using small by simp
  have "y * 10000 + m * 100 + d = d + (y * 100 + m) * 100" by simp
  then show "(y * 10000 + m * 100 + d) mod 100 = d"
    using assms(2) by (metis mod_mult_self1 mod_less)
qed

text \<open>
  C29: \<open>date_to_unix_secs\<close> sends the decimal form of the \<open>n\<close>-th day of the Gregorian calendar
  after 1 January 1970 to \<open>n\<close> times the seconds of a day, leap years and the ends of months
  included, for all years the 32-bit form can hold.
\<close>

theorem date_to_unix_secs_counts_days:
  assumes "yyyymmdd (civil_date n) < 2 ^ 32"
  shows "date_to_unix_secs (of_nat (yyyymmdd (civil_date n))) = of_nat (n * 86400)"
proof -
  obtain y m d where t: "civil_date n = (y, m, d)" by (cases "civil_date n")
  have m: "m \<le> 12" and d: "d \<le> 31"
    using valid_civil_date [of n] month_days_le [of y m] by (simp_all add: t)
  define w where "w = (of_nat (yyyymmdd (civil_date n)) :: u32)"
  have w: "unat w = y * 10000 + m * 100 + d"
    using assms of_nat_inverse [of "yyyymmdd (civil_date n)" w] unfolding w_def t by simp
  have dec: "unat w mod 10000 div 100 = m" "unat w mod 100 = d" "unat w div 10000 = y"
    using decimal_date [of m d y] m d unfolding w by simp_all
  have "unat (date_year w) = y" "unat (date_month w) = m" "unat (date_day w) = d"
    using dec by (simp_all add: date_year_def date_month_def date_day_def unat_div unat_mod)
  then have "date_to_unix_secs w = word_of_int (day_number (civil_date n) * 86400)"
    by (simp add: date_to_unix_secs_def t Let_def)
  then show ?thesis
    unfolding w_def day_number_civil by simp
qed

theorem date_to_unix_secs_counts_days_witness:
  "date_to_unix_secs 19700301 = 59 * 86400"
proof -
  have "civil_date 31 = (1970, 2, 1)"
    using civil_next_month [of 0 1970 1] by (simp add: month_days_def)
  then have "civil_date 59 = (1970, 3, 1)"
    using civil_next_month [of 31 1970 2] by (simp add: month_days_def leap_year_def)
  then show ?thesis using date_to_unix_secs_counts_days [of 59] by simp
qed

end
