(* ===== verification/Option_Book.thy ===== *)
theory Option_Book
  imports Pricing Calendar Levels Protocol
begin

text \<open>
  One option contract and its book (\<open>OptionContract\<close> and \<open>OptionBook\<close> of
  src/options/mod.rs).  Bids and asks are hash maps, so the best price is a search over
  their values in the hash map's order, which is unspecified: the operations that search
  take it as \<open>ks\<close>, the keys of the bids and of the asks in the order they are visited.
  The clock is an argument (\<open>now\<close>).
\<close>

section \<open>Contracts\<close>

record option_contract_key =
  ck_underlying :: u64
  ck_expiry_date :: u32
  ck_strike_price :: u64
  ck_option_type :: option_type

record option_contract =
  oc_key :: option_contract_key
  oc_underlying :: u64
  oc_expiry_date :: u32
  oc_strike_price :: u64
  oc_option_type :: option_type
  oc_lot_size :: u32
  oc_creation_timestamp :: u64

definition option_contract_new ::
  "u64 \<Rightarrow> u64 \<Rightarrow> u32 \<Rightarrow> u64 \<Rightarrow> option_type \<Rightarrow> u32 \<Rightarrow> option_contract" where
  "option_contract_new now underlying expiry_date strike_price ot lot_size =
     \<lparr>oc_key = \<lparr>ck_underlying = underlying, ck_expiry_date = expiry_date,
                ck_strike_price = strike_price, ck_option_type = ot\<rparr>,
      oc_underlying = underlying, oc_expiry_date = expiry_date, oc_strike_price = strike_price,
      oc_option_type = ot, oc_lot_size = lot_size, oc_creation_timestamp = now\<rparr>"

definition time_to_maturity :: "'f float_ops \<Rightarrow> option_contract \<Rightarrow> u64 \<Rightarrow> 'f" where
  "time_to_maturity F c current_timestamp_secs =
     (let expiry_ts = date_to_unix_secs (oc_expiry_date c) in
      if expiry_ts \<le> current_timestamp_secs then f_lit F 0
      else f_div F (f_of_u64 F (expiry_ts - current_timestamp_secs))
             (f_mul F (f_lit F 365.25) (f_lit F 86400)))"

section \<open>The book\<close>

record option_order_info =
  oo_side :: side
  oo_price :: u64
  oo_shares :: u32

record 'f option_book =
  opt_contract :: option_contract
  opt_bids :: "u64 \<rightharpoonup> price_level"
  opt_asks :: "u64 \<rightharpoonup> price_level"
  opt_orders :: "u64 \<rightharpoonup> option_order_info"
  last_bbo :: "(u64 \<times> u64 \<times> u64 \<times> u64) option"
  last_pricing :: "'f bsm_result option"
  book_spot_price :: "'f option"
  pricing_dirty :: bool

record 'f option_greeks_snapshot =
  gs_contract_key :: option_contract_key
  gs_implied_volatility :: 'f
  gs_delta :: 'f
  gs_gamma :: 'f
  gs_vega :: 'f
  gs_theta :: 'f
  gs_rho :: 'f
  gs_model_price :: 'f
  gs_spot_price :: 'f
  gs_mid_price :: 'f

definition option_book_new :: "option_contract \<Rightarrow> 'f option_book" where
  "option_book_new contract =
     \<lparr>opt_contract = contract, opt_bids = Map.empty, opt_asks = Map.empty, opt_orders = Map.empty,
      last_bbo = None, last_pricing = None, book_spot_price = None, pricing_dirty = True\<rparr>"

section \<open>Best prices\<close>

text \<open>\<open>Iterator::max_by_key\<close> keeps the last of several maxima, \<open>min_by_key\<close> the first minimum.\<close>

definition max_by_key :: "('a \<Rightarrow> 'k::linorder) \<Rightarrow> 'a list \<Rightarrow> 'a option" where
  "max_by_key key xs =
     fold (\<lambda>x acc. case acc of
             None \<Rightarrow> Some x
           | Some y \<Rightarrow> if key y \<le> key x then Some x else Some y) xs None"

definition min_by_key :: "('a \<Rightarrow> 'k::linorder) \<Rightarrow> 'a list \<Rightarrow> 'a option" where
  "min_by_key key xs =
     fold (\<lambda>x acc. case acc of
             None \<Rightarrow> Some x
           | Some y \<Rightarrow> if key x < key y then Some x else Some y) xs None"

type_synonym hash_order = "side \<Rightarrow> u64 list"

definition option_best_bid :: "hash_order \<Rightarrow> 'f option_book \<Rightarrow> price_level option" where
  "option_best_bid ks b = max_by_key pl_price (map_values (ks Buy) (opt_bids b))"

definition option_best_ask :: "hash_order \<Rightarrow> 'f option_book \<Rightarrow> price_level option" where
  "option_best_ask ks b = min_by_key pl_price (map_values (ks Sell) (opt_asks b))"

definition option_bbo_snapshot :: "hash_order \<Rightarrow> 'f option_book \<Rightarrow> u64 \<times> u64 \<times> u64 \<times> u64" where
  "option_bbo_snapshot ks b =
     (let (bid_p, bid_v) = (case option_best_bid ks b of
            None \<Rightarrow> (0, 0) | Some l \<Rightarrow> (pl_price l, pl_volume l));
          (ask_p, ask_v) = (case option_best_ask ks b of
            None \<Rightarrow> (0, 0) | Some l \<Rightarrow> (pl_price l, pl_volume l))
      in (bid_p, bid_v, ask_p, ask_v))"

definition option_mid_price :: "'f float_ops \<Rightarrow> hash_order \<Rightarrow> 'f option_book \<Rightarrow> 'f option" where
  "option_mid_price F ks b =
     (case option_bbo_snapshot ks b of
        (bid, _, ask, _) \<Rightarrow>
          if bid > 0 \<and> ask > 0
          then Some (f_div F (f_div F (f_add F (f_of_u64 F bid) (f_of_u64 F ask)) (f_lit F 2))
                       (f_lit F 10000))
          else None)"

section \<open>Orders\<close>

text \<open>
  The entry of a price in the map of its side: an order joins it, or leaves it (in
  \<open>remove_order\<close> and \<open>delete_order\<close> alike).
\<close>

definition join_level :: "(u64 \<rightharpoonup> price_level) \<Rightarrow> u64 \<Rightarrow> u32 \<Rightarrow> (u64 \<rightharpoonup> price_level)" where
  "join_level lv price shares =
     (case lv price of
        Some level \<Rightarrow> lv(price \<mapsto> level_grow shares level)
      | None \<Rightarrow> lv(price \<mapsto> price_level_new price (ucast shares) 1))"

definition leave_level :: "(u64 \<rightharpoonup> price_level) \<Rightarrow> u64 \<Rightarrow> u32 \<Rightarrow> (u64 \<rightharpoonup> price_level)" where
  "leave_level lv price shares =
     (case lv price of
        Some level \<Rightarrow>
          (let level = level_shrink shares level in
           if pl_volume level = 0 then lv(price := None) else lv(price \<mapsto> level))
      | None \<Rightarrow> lv)"

definition on_levels ::
  "side \<Rightarrow> ((u64 \<rightharpoonup> price_level) \<Rightarrow> (u64 \<rightharpoonup> price_level)) \<Rightarrow> 'f option_book \<Rightarrow> 'f option_book" where
  "on_levels sd f b =
     (case sd of Buy \<Rightarrow> b\<lparr>opt_bids := f (opt_bids b)\<rparr> | Sell \<Rightarrow> b\<lparr>opt_asks := f (opt_asks b)\<rparr>)"

definition option_add_order ::
  "'f option_book \<Rightarrow> u64 \<Rightarrow> side \<Rightarrow> u64 \<Rightarrow> u32 \<Rightarrow> 'f option_book" where
  "option_add_order b order_ref sd price shares =
     (let b = b\<lparr>opt_orders := (opt_orders b)(order_ref \<mapsto>
                  \<lparr>oo_side = sd, oo_price = price, oo_shares = shares\<rparr>)\<rparr>;
          b = on_levels sd (\<lambda>lv. join_level lv price shares) b
      in b\<lparr>pricing_dirty := True\<rparr>)"

definition option_remove_order :: "'f option_book \<Rightarrow> u64 \<Rightarrow> u32 \<Rightarrow> 'f option_book" where
  "option_remove_order b order_ref shares =
     (case opt_orders b order_ref of
        None \<Rightarrow> b
      | Some info \<Rightarrow>
          (let taken = min shares (oo_shares info);
               (b, info) =
                 (if taken > 0 then
                    (let info = info\<lparr>oo_shares := oo_shares info - taken\<rparr>;
                         b = b\<lparr>opt_orders := (opt_orders b)(order_ref \<mapsto> info)\<rparr>;
                         b = on_levels (oo_side info)
                               (\<lambda>lv. leave_level lv (oo_price info) taken) b
                     in (b\<lparr>pricing_dirty := True\<rparr>, info))
                  else (b, info))
           in if oo_shares info = 0 then b\<lparr>opt_orders := (opt_orders b)(order_ref := None)\<rparr>
              else b))"

definition option_delete_order :: "'f option_book \<Rightarrow> u64 \<Rightarrow> 'f option_book" where
  "option_delete_order b order_ref =
     (case opt_orders b order_ref of
        None \<Rightarrow> b
      | Some info \<Rightarrow>
          (let b = b\<lparr>opt_orders := (opt_orders b)(order_ref := None)\<rparr>;
               b = on_levels (oo_side info)
                     (\<lambda>lv. leave_level lv (oo_price info) (oo_shares info)) b
           in b\<lparr>pricing_dirty := True\<rparr>))"

datatype option_order_action =
    Add u64 side u64 u32
  | Cancel u64 u32
  | Delete u64

fun option_book_act :: "'f option_book \<Rightarrow> option_order_action \<Rightarrow> 'f option_book" where
  "option_book_act b (Add order_ref sd price shares) = option_add_order b order_ref sd price shares"
| "option_book_act b (Cancel order_ref shares) = option_remove_order b order_ref shares"
| "option_book_act b (Delete order_ref) = option_delete_order b order_ref"

section \<open>Pricing the book\<close>

definition compute_pricing ::
  "'f float_ops \<Rightarrow> hash_order \<Rightarrow> 'f option_book \<Rightarrow> 'f \<Rightarrow> u64 \<Rightarrow> 'f
     \<Rightarrow> 'f option_book \<times> 'f option_greeks_snapshot option" where
  "compute_pricing F ks b spot_price current_timestamp_secs risk_free_rate =
     (case option_mid_price F ks b of
        None \<Rightarrow> (b, None)
      | Some mid \<Rightarrow>
          (let ttm = time_to_maturity F (opt_contract b) current_timestamp_secs;
               strike_f = f_div F (f_of_u64 F (oc_strike_price (opt_contract b))) (f_lit F 10000);
               result = solve_iv_and_greeks F mid spot_price strike_f risk_free_rate ttm
                          (oc_option_type (opt_contract b));
               b = b\<lparr>book_spot_price := Some spot_price, last_pricing := result,
                     pricing_dirty := False, last_bbo := Some (option_bbo_snapshot ks b)\<rparr>
           in (b, map_option (\<lambda>bsm.
                 \<lparr>gs_contract_key = oc_key (opt_contract b),
                  gs_implied_volatility = br_implied_volatility bsm, gs_delta = br_delta bsm,
                  gs_gamma = br_gamma bsm, gs_vega = br_vega bsm, gs_theta = br_theta bsm,
                  gs_rho = br_rho bsm, gs_model_price = br_price bsm, gs_spot_price = spot_price,
                  gs_mid_price = mid\<rparr>) result)))"

end
