(* ===== verification/Option_Chain.thy ===== *)
theory Option_Chain
  imports Option_Book Single_Book
begin

text \<open>
  The chain of one underlying and the manager of all chains (\<open>OptionChain\<close> and
  \<open>OptionChainManager\<close> of src/options/mod.rs).  Books and chains are in hash maps:
  where the code iterates over the books it does so in the order \<open>kks\<close> of their keys, and
  \<open>hos\<close> gives for each book the orders of its own two maps.
\<close>

section \<open>State\<close>

definition MAX_CONTRACTS_PER_CHAIN :: nat where "MAX_CONTRACTS_PER_CHAIN = 128"

record 'f option_chain =
  ch_underlying :: u64
  ch_contracts :: "option_contract_key \<rightharpoonup> 'f option_book"
  expiry_dates :: "u32 list"
  ch_risk_free_rate :: 'f
  last_spot_price :: "'f option"
  last_spot_timestamp :: u64
  chain_dirty :: bool

record 'f option_contract_snapshot =
  cs_contract :: option_contract
  cs_bid_price :: u64
  cs_bid_volume :: u64
  cs_ask_price :: u64
  cs_ask_volume :: u64
  cs_implied_volatility :: 'f
  cs_delta :: 'f
  cs_gamma :: 'f
  cs_vega :: 'f
  cs_theta :: 'f
  cs_rho :: 'f
  cs_model_price :: 'f

record 'f aggregated_option_snapshot =
  ag_underlying :: u64
  ag_spot_bid_price :: u64
  ag_spot_bid_volume :: u64
  ag_spot_ask_price :: u64
  ag_spot_ask_volume :: u64
  ag_spot_timestamp :: u64
  ag_contracts :: "'f option_contract_snapshot list"

record 'f option_chain_manager =
  mgr_chains :: "u64 \<rightharpoonup> 'f option_chain"
  mgr_risk_free_rate :: 'f

record option_order_event =
  oe_contract_key :: option_contract_key
  oe_action :: option_order_action
  oe_timestamp :: u64

definition option_event_add ::
  "option_contract_key \<Rightarrow> u64 \<Rightarrow> side \<Rightarrow> u64 \<Rightarrow> u32 \<Rightarrow> u64 \<Rightarrow> option_order_event" where
  "option_event_add contract order_ref sd price shares ts =
     \<lparr>oe_contract_key = contract, oe_action = Add order_ref sd price shares, oe_timestamp = ts\<rparr>"

definition option_event_cancel ::
  "option_contract_key \<Rightarrow> u64 \<Rightarrow> u32 \<Rightarrow> u64 \<Rightarrow> option_order_event" where
  "option_event_cancel contract order_ref shares ts =
     \<lparr>oe_contract_key = contract, oe_action = Cancel order_ref shares, oe_timestamp = ts\<rparr>"

definition option_event_delete :: "option_contract_key \<Rightarrow> u64 \<Rightarrow> u64 \<Rightarrow> option_order_event" where
  "option_event_delete contract order_ref ts =
     \<lparr>oe_contract_key = contract, oe_action = Delete order_ref, oe_timestamp = ts\<rparr>"

section \<open>The chain of one underlying\<close>

definition option_chain_new :: "u64 \<Rightarrow> 'f \<Rightarrow> 'f option_chain" where
  "option_chain_new underlying rate =
     \<lparr>ch_underlying = underlying, ch_contracts = Map.empty, expiry_dates = [],
      ch_risk_free_rate = rate, last_spot_price = None, last_spot_timestamp = 0,
      chain_dirty = False\<rparr>"

definition register_contract :: "'f option_chain \<Rightarrow> option_contract \<Rightarrow> 'f option_chain" where
  "register_contract ch contract =
     (let ch = (if oc_expiry_date contract \<notin> set (expiry_dates ch)
                then ch\<lparr>expiry_dates := sort (expiry_dates ch @ [oc_expiry_date contract])\<rparr>
                else ch)
      in ch\<lparr>ch_contracts :=
              (ch_contracts ch)(oc_key contract \<mapsto> option_book_new contract)\<rparr>)"

definition update_spot_price :: "'f option_chain \<Rightarrow> 'f \<Rightarrow> u64 \<Rightarrow> 'f option_chain" where
  "update_spot_price ch spot_price ts =
     ch\<lparr>last_spot_price := Some spot_price, last_spot_timestamp := ts, chain_dirty := True,
        ch_contracts := (\<lambda>k. map_option (\<lambda>b. b\<lparr>pricing_dirty := True\<rparr>) (ch_contracts ch k))\<rparr>"

text \<open>The loop of \<open>update_all_pricing\<close> over the books still to visit.\<close>

fun price_books ::
  "'f float_ops \<Rightarrow> (option_contract_key \<Rightarrow> hash_order) \<Rightarrow> 'f \<Rightarrow> u64 \<Rightarrow> 'f
     \<Rightarrow> option_contract_key list \<Rightarrow> (option_contract_key \<rightharpoonup> 'f option_book)
     \<Rightarrow> (option_contract_key \<rightharpoonup> 'f option_book) \<times> 'f option_greeks_snapshot list" where
  "price_books F hos spot now rate [] books = (books, [])"
| "price_books F hos spot now rate (k # ks) books =
     (case books k of
        None \<Rightarrow> price_books F hos spot now rate ks books
      | Some b \<Rightarrow>
          if pricing_dirty b then
            let (b, r) = compute_pricing F (hos k) b spot now rate;
                (books, rs) = price_books F hos spot now rate ks (books(k \<mapsto> b))
            in (books, case r of None \<Rightarrow> rs | Some s \<Rightarrow> s # rs)
          else price_books F hos spot now rate ks books)"

definition update_all_pricing ::
  "'f float_ops \<Rightarrow> option_contract_key list \<Rightarrow> (option_contract_key \<Rightarrow> hash_order)
     \<Rightarrow> 'f option_chain \<Rightarrow> u64 \<Rightarrow> 'f option_chain \<times> 'f option_greeks_snapshot list" where
  "update_all_pricing F kks hos ch now =
     (case last_spot_price ch of
        None \<Rightarrow> (ch, [])
      | Some spot \<Rightarrow>
          (let (books, results) =
                 price_books F hos spot now (ch_risk_free_rate ch) kks (ch_contracts ch)
           in (ch\<lparr>ch_contracts := books, chain_dirty := False\<rparr>, results)))"

text \<open>\<open>ArrayVec::push\<close> panics (\<open>None\<close>) when the vector is full.\<close>

definition arrayvec_push :: "nat \<Rightarrow> 'a \<Rightarrow> 'a list \<Rightarrow> 'a list option" where
  "arrayvec_push cap x xs = (if length xs < cap then Some (xs @ [x]) else None)"

definition contract_snapshot ::
  "hash_order \<Rightarrow> 'f option_book \<Rightarrow> 'f option_contract_snapshot option" where
  "contract_snapshot ks b =
     (case last_pricing b of
        None \<Rightarrow> None
      | Some pricing \<Rightarrow>
          (let (bid_p, bid_v, ask_p, ask_v) = option_bbo_snapshot ks b in
           if bid_p > 0 \<or> ask_p > 0 then
             Some \<lparr>cs_contract = opt_contract b, cs_bid_price = bid_p, cs_bid_volume = bid_v,
                   cs_ask_price = ask_p, cs_ask_volume = ask_v,
                   cs_implied_volatility = br_implied_volatility pricing,
                   cs_delta = br_delta pricing, cs_gamma = br_gamma pricing,
                   cs_vega = br_vega pricing, cs_theta = br_theta pricing,
                   cs_rho = br_rho pricing, cs_model_price = br_price pricing\<rparr>
           else None))"

fun collect_snapshots ::
  "(option_contract_key \<Rightarrow> hash_order) \<Rightarrow> (option_contract_key \<rightharpoonup> 'f option_book)
     \<Rightarrow> option_contract_key list \<Rightarrow> 'f option_contract_snapshot list
     \<Rightarrow> 'f option_contract_snapshot list option" where
  "collect_snapshots hos books [] acc = Some acc"
| "collect_snapshots hos books (k # ks) acc =
     (case books k of
        None \<Rightarrow> collect_snapshots hos books ks acc
      | Some b \<Rightarrow>
          (case contract_snapshot (hos k) b of
             None \<Rightarrow> collect_snapshots hos books ks acc
           | Some s \<Rightarrow>
               (case arrayvec_push MAX_CONTRACTS_PER_CHAIN s acc of
                  None \<Rightarrow> None
                | Some acc \<Rightarrow> collect_snapshots hos books ks acc)))"

definition spot_mid :: "'f float_ops \<Rightarrow> bbo_snapshot \<Rightarrow> 'f" where
  "spot_mid F bbo =
     f_div F (f_div F (f_add F (f_of_u64 F (bid_price bbo)) (f_of_u64 F (ask_price bbo)))
                (f_lit F 2))
       (f_lit F 10000)"

text \<open>\<open>BboSnapshot::mid_price\<close>, which has the guards the aggregation leaves out.\<close>

definition bbo_mid_price :: "'f float_ops \<Rightarrow> bbo_snapshot \<Rightarrow> 'f option" where
  "bbo_mid_price F bbo =
     (if bid_price bbo > 0 \<and> ask_price bbo > 0 then Some (spot_mid F bbo) else None)"

definition aggregate_snapshot ::
  "'f float_ops \<Rightarrow> option_contract_key list \<Rightarrow> (option_contract_key \<Rightarrow> hash_order)
     \<Rightarrow> 'f option_chain \<Rightarrow> bbo_snapshot \<Rightarrow> u64
     \<Rightarrow> ('f option_chain \<times> 'f aggregated_option_snapshot option) option" where
  "aggregate_snapshot F kks hos ch spot_bbo now =
     (let ch = update_spot_price ch (spot_mid F spot_bbo) (last_spot_timestamp ch);
          (ch, _) = update_all_pricing F kks hos ch now
      in case collect_snapshots hos (ch_contracts ch) kks [] of
           None \<Rightarrow> None
         | Some contracts \<Rightarrow>
             Some (ch,
               if contracts = [] then None
               else Some \<lparr>ag_underlying = ch_underlying ch,
                          ag_spot_bid_price = bid_price spot_bbo,
                          ag_spot_bid_volume = bid_volume spot_bbo,
                          ag_spot_ask_price = ask_price spot_bbo,
                          ag_spot_ask_volume = ask_volume spot_bbo,
                          ag_spot_timestamp = last_spot_timestamp ch,
                          ag_contracts = contracts\<rparr>))"

definition strikes_for_expiry ::
  "option_contract_key list \<Rightarrow> 'f option_chain \<Rightarrow> u32 \<Rightarrow> u64 list" where
  "strikes_for_expiry kks ch expiry =
     remdups_adj (sort (map (\<lambda>b. oc_strike_price (opt_contract b))
       (filter (\<lambda>b. oc_expiry_date (opt_contract b) = expiry) (map_values kks (ch_contracts ch)))))"

definition get_contract :: "'f option_chain \<Rightarrow> option_contract_key \<Rightarrow> 'f option_book option" where
  "get_contract ch k = ch_contracts ch k"

definition chain_is_empty :: "'f option_chain \<Rightarrow> bool" where
  "chain_is_empty ch \<longleftrightarrow> ch_contracts ch = Map.empty"

definition chain_len :: "'f option_chain \<Rightarrow> nat" where
  "chain_len ch = card (dom (ch_contracts ch))"

section \<open>The manager\<close>

definition option_chain_manager_new :: "'f \<Rightarrow> 'f option_chain_manager" where
  "option_chain_manager_new rate = \<lparr>mgr_chains = Map.empty, mgr_risk_free_rate = rate\<rparr>"

definition get_or_create_chain ::
  "'f option_chain_manager \<Rightarrow> u64 \<Rightarrow> 'f option_chain_manager \<times> 'f option_chain" where
  "get_or_create_chain m underlying =
     (case mgr_chains m underlying of
        Some ch \<Rightarrow> (m, ch)
      | None \<Rightarrow>
          (let ch = option_chain_new underlying (mgr_risk_free_rate m)
           in (m\<lparr>mgr_chains := (mgr_chains m)(underlying \<mapsto> ch)\<rparr>, ch)))"

definition chains :: "u64 list \<Rightarrow> 'f option_chain_manager \<Rightarrow> (u64 \<times> 'f option_chain) list" where
  "chains ks m = List.map_filter (\<lambda>u. map_option (Pair u) (mgr_chains m u)) ks"

definition get_chain :: "'f option_chain_manager \<Rightarrow> u64 \<Rightarrow> 'f option_chain option" where
  "get_chain m underlying = mgr_chains m underlying"

text \<open>What the holder of a \<open>&mut OptionChain\<close> leaves in the map.\<close>

definition put_chain ::
  "'f option_chain_manager \<Rightarrow> u64 \<Rightarrow> 'f option_chain \<Rightarrow> 'f option_chain_manager" where
  "put_chain m underlying ch = m\<lparr>mgr_chains := (mgr_chains m)(underlying \<mapsto> ch)\<rparr>"

definition mgr_update_spot_price ::
  "'f option_chain_manager \<Rightarrow> u64 \<Rightarrow> 'f \<Rightarrow> u64 \<Rightarrow> 'f option_chain_manager" where
  "mgr_update_spot_price m underlying spot_price ts =
     (case mgr_chains m underlying of
        None \<Rightarrow> m
      | Some ch \<Rightarrow> put_chain m underlying (update_spot_price ch spot_price ts))"

definition mgr_register_contract ::
  "'f option_chain_manager \<Rightarrow> option_contract \<Rightarrow> 'f option_chain_manager" where
  "mgr_register_contract m contract =
     (let (m, ch) = get_or_create_chain m (oc_underlying contract)
      in put_chain m (oc_underlying contract) (register_contract ch contract))"

text \<open>
  \<open>apply_option_order_event\<close>: the action goes to the book of the contract, which is priced
  again when the chain has seen a spot price.
\<close>

definition apply_option_order_event ::
  "'f float_ops \<Rightarrow> hash_order \<Rightarrow> u64 \<Rightarrow> 'f option_chain_manager \<Rightarrow> option_order_event
     \<Rightarrow> 'f option_chain_manager \<times> 'f option_greeks_snapshot option" where
  "apply_option_order_event F ks now m event =
     (let rate = mgr_risk_free_rate m;
          key = oe_contract_key event;
          (m, ch) = get_or_create_chain m (ck_underlying key)
      in case ch_contracts ch key of
           None \<Rightarrow> (m, None)
         | Some b \<Rightarrow>
             (let b = option_book_act b (oe_action event);
                  ch = ch\<lparr>ch_contracts := (ch_contracts ch)(key \<mapsto> b)\<rparr>
              in case last_spot_price ch of
                   None \<Rightarrow> (put_chain m (ck_underlying key) ch, None)
                 | Some spot \<Rightarrow>
                     (let (b, r) = compute_pricing F ks b spot now rate;
                          ch = ch\<lparr>ch_contracts := (ch_contracts ch)(key \<mapsto> b)\<rparr>
                      in (put_chain m (ck_underlying key) ch, r))))"

end
