(* ===== verification/Option_Book_Correct.thy ===== *)
theory Option_Book_Correct
  imports Option_Book Single_Book_Correct
begin

text \<open>
  An option book against the same abstract state as a spot book: its table of live orders,
  which moves by the same abstract steps, and the volumes and best quotes these orders
  imply.  The levels are hash maps here, and the ledger contract is instantiated with them.
\<close>

section \<open>The search for the best price\<close>

lemma fold_max_by_key:
  fixes key :: "'a \<Rightarrow> 'k::linorder"
  shows "\<exists>x. fold (\<lambda>x acc. case acc of None \<Rightarrow> Some x
               | Some y \<Rightarrow> if key y \<le> key x then Some x else Some y) xs (Some y) = Some x
     \<and> x \<in> insert y (set xs) \<and> (\<forall>z \<in> insert y (set xs). key z \<le> key x)"
proof (induction xs arbitrary: y)
  case (Cons a xs)
  show ?case
  proof (cases "key y \<le> key a")
    case True
    with Cons.IH [of a] show ?thesis by (auto intro: order_trans)
  next
    case False
    with Cons.IH [of y] show ?thesis by (auto intro: order_trans)
  qed
qed simp

lemma fold_min_by_key:
  fixes key :: "'a \<Rightarrow> 'k::linorder"
  shows "\<exists>x. fold (\<lambda>x acc. case acc of None \<Rightarrow> Some x
               | Some y \<Rightarrow> if key x < key y then Some x else Some y) xs (Some y) = Some x
     \<and> x \<in> insert y (set xs) \<and> (\<forall>z \<in> insert y (set xs). key x \<le> key z)"
proof (induction xs arbitrary: y)
  case (Cons a xs)
  show ?case
  proof (cases "key a < key y")
    case True
    with Cons.IH [of a] show ?thesis by (auto intro: order_trans less_imp_le)
  next
    case False
    with Cons.IH [of y] show ?thesis by (auto simp: not_less dest: order_trans)
  qed
qed simp

lemma max_by_key_None [simp]: "max_by_key key xs = None \<longleftrightarrow> xs = []"
  using fold_max_by_key [of key "tl xs" "hd xs"] by (cases xs) (auto simp: max_by_key_def)

lemma min_by_key_None [simp]: "min_by_key key xs = None \<longleftrightarrow> xs = []"
  using fold_min_by_key [of key "tl xs" "hd xs"] by (cases xs) (auto simp: min_by_key_def)

lemma max_by_key_Some:
  "max_by_key key xs = Some x \<Longrightarrow> x \<in> set xs \<and> (\<forall>z \<in> set xs. key z \<le> key x)"
  using fold_max_by_key [of key "tl xs" "hd xs"] by (cases xs) (auto simp: max_by_key_def)

lemma min_by_key_Some:
  "min_by_key key xs = Some x \<Longrightarrow> x \<in> set xs \<and> (\<forall>z \<in> set xs. key x \<le> key z)"
  using fold_min_by_key [of key "tl xs" "hd xs"] by (cases xs) (auto simp: min_by_key_def)

section \<open>The operations on levels\<close>

lemma join_level_grow: "join_level lv p n = hm_levels.grow p n lv"
  by (simp add: join_level_def hm_levels.grow_def hm_defs split: option.split)

lemma leave_level_shrink: "leave_level lv p n = hm_levels.shrink p n lv"
  by (simp add: leave_level_def hm_levels.shrink_def hm_defs Let_def split: option.split)

definition opt_levels :: "side \<Rightarrow> 'f option_book \<Rightarrow> (u64 \<rightharpoonup> price_level)" where
  "opt_levels sd b = (case sd of Buy \<Rightarrow> opt_bids b | Sell \<Rightarrow> opt_asks b)"

lemma opt_levels_simps [simp]:
  "opt_levels Buy b = opt_bids b" "opt_levels Sell b = opt_asks b"
  "opt_levels sd (b\<lparr>opt_orders := orders\<rparr>) = opt_levels sd b"
  "opt_levels sd (b\<lparr>pricing_dirty := flag\<rparr>) = opt_levels sd b"
  by (simp_all add: opt_levels_def split: side.split)

lemma opt_levels_on [simp]:
  "opt_levels sd' (on_levels sd f b) =
     (if sd' = sd then f (opt_levels sd b) else opt_levels sd' b)"
  by (cases sd; cases sd') (simp_all add: on_levels_def)

lemma on_levels_frame [simp]:
  "opt_orders (on_levels sd f b) = opt_orders b"
  "opt_contract (on_levels sd f b) = opt_contract b"
  "last_pricing (on_levels sd f b) = last_pricing b"
  by (cases sd; simp add: on_levels_def)+

section \<open>The live orders\<close>

definition as_order_info :: "option_order_info \<Rightarrow> order_info" where
  "as_order_info i = \<lparr>oi_side = oo_side i, oi_price = oo_price i, oi_shares = oo_shares i\<rparr>"

definition option_live :: "'f option_book \<Rightarrow> (u64 \<rightharpoonup> order_info)" where
  "option_live b = map_option as_order_info \<circ> opt_orders b"

lemma as_order_info_simps [simp]:
  "oi_side (as_order_info i) = oo_side i" "oi_price (as_order_info i) = oo_price i"
  "oi_shares (as_order_info i) = oo_shares i"
  by (simp_all add: as_order_info_def)

text \<open>The feed event with the effect of an option action on a table of live orders.\<close>

fun as_event :: "option_order_action \<Rightarrow> itch_event" where
  "as_event (Add r sd p n) = AddOrder 0 r sd n 0 p"
| "as_event (Cancel r n) = OrderCancel 0 r n"
| "as_event (Delete r) = OrderDelete 0 r"

lemma option_live_act: "option_live (option_book_act b act) = live_step (option_live b) (as_event act)"
  by (cases act)
    (auto simp: option_live_def option_add_order_def option_remove_order_def
      option_delete_order_def live_reduce_def as_order_info_def Let_def min_def word_gt_0
      fun_eq_iff split: option.split)

lemma levels_add: "opt_levels sd' (option_add_order b r sd p n) =
    (if sd' = sd then hm_levels.grow p n (opt_levels sd b) else opt_levels sd' b)"
  by (simp add: option_add_order_def join_level_grow Let_def)

lemma levels_remove: "opt_levels sd (option_remove_order b r n) =
    (case opt_orders b r of
       None \<Rightarrow> opt_levels sd b
     | Some info \<Rightarrow>
         if sd = oo_side info \<and> min n (oo_shares info) \<noteq> 0
         then hm_levels.shrink (oo_price info) (min n (oo_shares info)) (opt_levels sd b)
         else opt_levels sd b)"
  by (auto simp: option_remove_order_def leave_level_shrink Let_def word_gt_0 split: option.split)

lemma levels_delete: "opt_levels sd (option_delete_order b r) =
    (case opt_orders b r of
       None \<Rightarrow> opt_levels sd b
     | Some info \<Rightarrow>
         if sd = oo_side info
         then hm_levels.shrink (oo_price info) (oo_shares info) (opt_levels sd b)
         else opt_levels sd b)"
  by (auto simp: option_delete_order_def leave_level_shrink Let_def split: option.split)

section \<open>The levels aggregate the live orders\<close>

interpretation opt: order_ledger hm_get hm_insert hm_remove hm_inv "spot_amount sd" for sd
  by unfold_locales (use unat_u32_less in \<open>auto simp: spot_amount_def\<close>)

lemma opt_shares_at: "opt.shares_at sd live p = live_volume live sd p"
  by (simp add: opt.shares_at_def live_volume_def)

definition option_ok :: "'f option_book \<Rightarrow> bool" where
  "option_ok b \<longleftrightarrow>
     card (dom (option_live b)) \<le> 2 ^ 32 \<and> (\<forall>sd. opt.tracks sd (option_live b) (opt_levels sd b))"

definition option_positive :: "'f option_book \<Rightarrow> bool" where
  "option_positive b \<longleftrightarrow> (\<forall>sd. hm_levels.positive (opt_levels sd b))"

lemma option_ok_tracks: "option_ok b \<Longrightarrow> opt.tracks sd (option_live b) (opt_levels sd b)"
  by (simp add: option_ok_def)

lemma option_new_simps [simp]:
  "opt_levels sd (option_book_new c) = Map.empty" "option_live (option_book_new c) = Map.empty"
  "opt_contract (option_book_new c) = c"
  by (simp_all add: opt_levels_def option_book_new_def option_live_def split: side.split)

lemma option_ok_new: "option_ok (option_book_new c)" "option_positive (option_book_new c)"
  using opt.tracks_empty [of Map.empty]
  by (simp_all add: option_ok_def option_positive_def hm_defs hm_levels.positive_def)

lemma option_ok_volume:
  "option_ok b \<Longrightarrow> level_volume (opt_levels sd b p) = live_volume (option_live b) sd p"
  using option_ok_tracks [of b sd] by (simp add: opt.tracks_def opt_shares_at hm_get_def)

text \<open>The three actions of an order event, one by one.\<close>

lemma tracks_option_add:
  assumes "option_ok b" "option_live b r = None" "card (dom (option_live b)) \<le> 2 ^ 32"
  shows "opt.tracks sd ((option_live b)(r \<mapsto> \<lparr>oi_side = sd', oi_price = p, oi_shares = n\<rparr>))
    (if sd = sd' then hm_levels.grow p n (opt_levels sd b) else opt_levels sd b)"
proof (cases "sd = sd'")
  case True
  have "opt.tracks sd ((option_live b)(r \<mapsto> \<lparr>oi_side = sd', oi_price = p, oi_shares = n\<rparr>))
      (hm_levels.grow p n (opt_levels sd b))"
    by (rule opt.tracks_add [OF option_ok_tracks [OF assms(1)] assms(2,3)])
      (simp add: True spot_amount_def)
  with True show ?thesis by simp
next
  case False
  have "opt.tracks sd ((option_live b)(r \<mapsto> \<lparr>oi_side = sd', oi_price = p, oi_shares = n\<rparr>))
      (opt_levels sd b)"
    by (rule opt.tracks_silent [OF option_ok_tracks [OF assms(1)]])
      (use False assms(2) in \<open>simp add: spot_amount_def\<close>)
  with False show ?thesis by simp
qed

lemma tracks_option_cancel:
  assumes "option_ok b" "option_live b r = Some (as_order_info i)"
  shows "opt.tracks sd
      ((option_live b)(r := if oo_shares i \<le> n then None
         else Some ((as_order_info i)\<lparr>oi_shares := oo_shares i - n\<rparr>)))
      (if sd = oo_side i \<and> min n (oo_shares i) \<noteq> 0
       then hm_levels.shrink (oo_price i) (min n (oo_shares i)) (opt_levels sd b)
       else opt_levels sd b)" (is "opt.tracks sd (_(r := ?new)) _")
proof -
  note t = option_ok_tracks [OF assms(1), of sd]
  have rest: "unat (oo_shares i - n) = unat (oo_shares i) - unat n" if "\<not> oo_shares i \<le> n"
    using that by (simp add: unat_sub)
  show ?thesis
  proof (cases "sd = oo_side i \<and> min n (oo_shares i) \<noteq> 0")
    case True
    have "opt.tracks sd ((option_live b)(r := ?new))
        (hm_levels.shrink (oo_price i) (min n (oo_shares i)) (opt_levels sd b))"
      by (rule opt.tracks_shrink [OF t assms(2)])
        (use True rest in \<open>auto simp: spot_amount_def unat_min word_le_nat_alt\<close>)
    with True show ?thesis by (simp only: if_True simp_thms)
  next
    case False
    have "opt.tracks sd ((option_live b)(r := ?new)) (opt_levels sd b)"
      by (rule opt.tracks_silent [OF t])
        (use False assms(2) rest in \<open>auto simp: spot_amount_def min_def split: if_splits\<close>)
    with False show ?thesis by (simp only: if_False)
  qed
qed

lemma tracks_option_delete:
  assumes "option_ok b" "option_live b r = Some (as_order_info i)"
  shows "opt.tracks sd ((option_live b)(r := None))
    (if sd = oo_side i then hm_levels.shrink (oo_price i) (oo_shares i) (opt_levels sd b)
     else opt_levels sd b)"
proof (cases "sd = oo_side i")
  case True
  have "opt.tracks sd ((option_live b)(r := None))
      (hm_levels.shrink (oo_price i) (oo_shares i) (opt_levels sd b))"
    by (rule opt.tracks_shrink [OF option_ok_tracks [OF assms(1)] assms(2)])
      (use True in \<open>auto simp: spot_amount_def\<close>)
  with True show ?thesis by simp
next
  case False
  have "opt.tracks sd ((option_live b)(r := None)) (opt_levels sd b)"
    by (rule opt.tracks_silent [OF option_ok_tracks [OF assms(1)]])
      (use False assms(2) in \<open>auto simp: spot_amount_def\<close>)
  with False show ?thesis by (simp only: if_False)
qed

lemma tracks_option_act:
  assumes "option_ok b" "event_fresh (option_live b) (as_event act)"
  shows "opt.tracks sd (live_step (option_live b) (as_event act)) (opt_levels sd (option_book_act b act))"
proof -
  note t = option_ok_tracks [OF assms(1), of sd]
  have info: "option_live b r = map_option as_order_info (opt_orders b r)" for r
    by (simp add: option_live_def)
  show ?thesis
  proof (cases act)
    case (Add r sd' p n)
    then have "option_live b r = None" "card (dom (option_live b)) \<le> 2 ^ 32"
      using assms by (simp_all add: option_ok_def)
    from tracks_option_add [OF assms(1) this, of sd sd' p n] Add show ?thesis
      by (simp add: levels_add split: if_splits)
  next
    case (Cancel r n)
    show ?thesis
    proof (cases "opt_orders b r")
      case None
      with Cancel t info [of r] show ?thesis by (simp add: levels_remove live_reduce_def)
    next
      case (Some i)
      then have live: "option_live b r = Some (as_order_info i)" by (simp add: info)
      then have step: "live_step (option_live b) (as_event act) =
          (option_live b)(r := if oo_shares i \<le> n then None
             else Some ((as_order_info i)\<lparr>oi_shares := oo_shares i - n\<rparr>))"
        by (simp add: Cancel live_reduce_def)
      show ?thesis
        unfolding step using tracks_option_cancel [OF assms(1) live, of sd n]
        by (simp only: Cancel option_book_act.simps levels_remove Some option.case)
    qed
  next
    case (Delete r)
    show ?thesis
    proof (cases "opt_orders b r")
      case None
      with Delete t info [of r] show ?thesis by (simp add: levels_delete fun_upd_idem)
    next
      case (Some i)
      then have "option_live b r = Some (as_order_info i)" by (simp add: info)
      from tracks_option_delete [OF assms(1) this, of sd] show ?thesis
        by (simp only: Delete option_book_act.simps as_event.simps live_step.simps levels_delete Some
            option.case)
    qed
  qed
qed

lemma option_act_ok:
  assumes "option_ok b" "event_fresh (option_live b) (as_event act)"
  shows "option_ok (option_book_act b act)"
proof -
  have "finite (dom (option_live b))"
    using option_ok_tracks [OF assms(1), of Buy] by (simp add: opt.tracks_def)
  moreover have "card (dom (option_live b)) \<le> 2 ^ 32" using assms(1) by (simp add: option_ok_def)
  ultimately have "card (dom (live_step (option_live b) (as_event act))) \<le> 2 ^ 32"
    by (rule card_live_step) (rule assms(2))
  then show ?thesis
    using tracks_option_act [OF assms] by (simp add: option_ok_def option_live_act)
qed

lemma option_act_positive:
  assumes "option_ok b" "option_positive b" "event_sized (as_event act)"
  shows "option_positive (option_book_act b act)"
proof -
  have inv: "hm_inv (opt_levels sd b)" and pos: "hm_levels.positive (opt_levels sd b)" for sd
    using option_ok_tracks [OF assms(1), of sd] assms(2)
    by (simp_all add: opt.tracks_def hm_levels.well_formed_def option_positive_def)
  have room: "level_volume (hm_get (opt_levels sd b) p) + unat n < 2 ^ 64" for sd p and n :: u32
    using opt.no_wrap [OF option_ok_tracks [OF assms(1), of sd]] assms(1)
    by (simp add: option_ok_def)
  show ?thesis
    using assms(3) by (cases act)
      (simp_all add: option_positive_def levels_add levels_remove levels_delete pos
        hm_levels.positive_grow [OF inv pos room] hm_levels.positive_shrink [OF inv pos]
        split: option.split)
qed

section \<open>The best quotes\<close>

definition option_best :: "hash_order \<Rightarrow> side \<Rightarrow> 'f option_book \<Rightarrow> price_level option" where
  "option_best ks sd b = (case sd of Buy \<Rightarrow> option_best_bid ks b | Sell \<Rightarrow> option_best_ask ks b)"

definition option_quote :: "hash_order \<Rightarrow> side \<Rightarrow> 'f option_book \<Rightarrow> u64 \<times> u64" where
  "option_quote ks sd b =
     (case option_best ks sd b of None \<Rightarrow> (0, 0) | Some l \<Rightarrow> (pl_price l, pl_volume l))"

lemma option_bbo_quotes:
  "option_bbo_snapshot ks b =
     (fst (option_quote ks Buy b), snd (option_quote ks Buy b),
      fst (option_quote ks Sell b), snd (option_quote ks Sell b))"
  by (simp add: option_bbo_snapshot_def option_quote_def option_best_def split: prod.split)

lemma option_best_characterised:
  assumes "enumerates (ks sd) (opt_levels sd b)"
  shows "option_best ks sd b = None \<Longrightarrow> opt_levels sd b = Map.empty"
    and "option_best ks sd b = Some l \<Longrightarrow> l \<in> ran (opt_levels sd b) \<and>
      (\<forall>m \<in> ran (opt_levels sd b). at_least_as_good sd (pl_price l) (pl_price m))"
proof -
  note vs = set_map_values [OF assms]
  show "option_best ks sd b = None \<Longrightarrow> opt_levels sd b = Map.empty"
    using vs by (cases sd)
      (auto simp: option_best_def option_best_bid_def option_best_ask_def ran_def fun_eq_iff intro: option.exhaust)
  show "option_best ks sd b = Some l \<Longrightarrow> l \<in> ran (opt_levels sd b) \<and>
      (\<forall>m \<in> ran (opt_levels sd b). at_least_as_good sd (pl_price l) (pl_price m))"
    using vs by (cases sd)
      (auto simp: option_best_def option_best_bid_def option_best_ask_def at_least_as_good_def
        dest!: max_by_key_Some min_by_key_Some)
qed

lemma option_quote_quotes:
  assumes "option_ok b" "option_positive b" "enumerates (ks sd) (opt_levels sd b)"
  shows "quotes (option_live b) sd (option_quote ks sd b)"
proof -
  have present: "opt_levels sd b p \<noteq> None \<longleftrightarrow> live_volume (option_live b) sd p \<noteq> 0" for p
    using assms(2) hm_levels.positive_present [of "opt_levels sd b" p]
      option_ok_volume [OF assms(1), of sd p]
    by (simp add: option_positive_def hm_get_def)
  have price: "opt_levels sd b p = Some l \<Longrightarrow> pl_price l = p" for p l
    using option_ok_tracks [OF assms(1), of sd]
    by (simp add: opt.tracks_def hm_levels.well_formed_def hm_get_def)
  show ?thesis
  proof (cases "option_best ks sd b")
    case None
    then have "opt_levels sd b = Map.empty"
      using option_best_characterised(1) [of ks sd b, OF assms(3)] by simp
    then have "\<forall>p. live_volume (option_live b) sd p = 0" using present by simp
    then show ?thesis by (simp add: quotes_def option_quote_def None)
  next
    case (Some l)
    then obtain p where p: "opt_levels sd b p = Some l"
      and best: "\<forall>m \<in> ran (opt_levels sd b). at_least_as_good sd (pl_price l) (pl_price m)"
      using option_best_characterised(2) [of ks sd b, OF assms(3)] by (auto simp: ran_def)
    have vol: "live_volume (option_live b) sd (pl_price l) = unat (pl_volume l)"
      using option_ok_volume [OF assms(1), of sd p] price [OF p] p by simp
    moreover have nz: "live_volume (option_live b) sd (pl_price l) \<noteq> 0"
      using present [of p] p price [OF p] by simp
    moreover have "at_least_as_good sd (pl_price l) q"
      if "live_volume (option_live b) sd q \<noteq> 0" for q
    proof -
      from that present [of q] obtain m where m: "opt_levels sd b q = Some m" by auto
      with best price [OF m] show ?thesis by (auto simp: ran_def)
    qed
    ultimately show ?thesis using Some by (auto simp: quotes_def option_quote_def)
  qed
qed

lemma option_run_ok:
  assumes "option_ok b" "option_positive b" "feed_ok (option_live b) (map as_event acts)"
  shows "option_ok (foldl option_book_act b acts) \<and> option_positive (foldl option_book_act b acts)
    \<and> option_live (foldl option_book_act b acts) = foldl live_step (option_live b) (map as_event acts)"
  using assms
proof (induction acts arbitrary: b)
  case (Cons act acts)
  let ?b = "option_book_act b act"
  have "option_ok ?b" "option_positive ?b"
    using Cons.prems by (simp_all add: option_act_ok option_act_positive)
  from Cons.IH [OF this] Cons.prems(3) show ?case by (simp add: option_live_act)
qed simp

lemma option_run_new:
  fixes c :: option_contract
  defines "b \<equiv> (option_book_new c :: 'f option_book)"
  assumes "feed_ok Map.empty (map as_event acts)"
  shows "option_ok (foldl option_book_act b acts) \<and> option_positive (foldl option_book_act b acts)
    \<and> option_live (foldl option_book_act b acts) = foldl live_step Map.empty (map as_event acts)"
proof -
  have live: "option_live b = Map.empty" by (simp add: b_def)
  have "option_ok b" "option_positive b" by (simp_all add: b_def option_ok_new)
  from option_run_ok [OF this] assms(2) show ?thesis by (simp only: live)
qed

section \<open>Properties\<close>

text \<open>
  C30: an option book that started empty and received any sequence of additions,
  cancellations and deletions with fresh references quotes exactly what its live orders
  imply -- the best price with live shares on each side and their number -- and does so
  whatever order the hash maps are visited in.
\<close>

theorem option_book_quotes:
  fixes b :: "'f option_book"
  assumes "feed_ok Map.empty (map as_event acts)"
    and "b = foldl option_book_act (option_book_new c) acts"
    and "enumerates (ks Buy) (opt_bids b)" "enumerates (ks Sell) (opt_asks b)"
    and "option_bbo_snapshot ks b = (bid, bid_vol, ask, ask_vol)"
  shows "option_live b = foldl live_step Map.empty (map as_event acts)
    \<and> quotes (option_live b) Buy (bid, bid_vol) \<and> quotes (option_live b) Sell (ask, ask_vol)"
proof -
  have run: "option_ok b" "option_positive b"
    "option_live b = foldl live_step Map.empty (map as_event acts)"
    using option_run_new [OF assms(1), where c = c and 'f = 'f] by (simp_all only: assms(2))
  moreover have "quotes (option_live b) Buy (option_quote ks Buy b)"
    "quotes (option_live b) Sell (option_quote ks Sell b)"
    using option_quote_quotes [OF run(1,2)] assms(3,4) by simp_all
  ultimately show ?thesis using assms(5) by (auto simp: option_bbo_quotes)
qed

definition sample_contract :: option_contract where
  "sample_contract = option_contract_new 0 7 20261217 1500000 Call 100"

theorem option_book_quotes_witness:
  "\<exists>b :: nat option_book. b = foldl option_book_act (option_book_new sample_contract)
       [Add 1 Buy 50000 10, Add 2 Sell 55000 15, Cancel 1 4]
     \<and> quotes (option_live b) Buy (50000, 6) \<and> quotes (option_live b) Sell (55000, 15)"
proof -
  define acts where "acts = [Add 1 Buy 50000 10, Add 2 Sell 55000 15, Cancel 1 4]"
  define b where "b = foldl option_book_act (option_book_new sample_contract :: nat option_book) acts"
  have bids: "opt_bids b = [50000 \<mapsto> \<lparr>pl_price = 50000, pl_volume = 6, order_count = 0\<rparr>]"
    and asks: "opt_asks b = [55000 \<mapsto> \<lparr>pl_price = 55000, pl_volume = 15, order_count = 1\<rparr>]"
    by (simp_all add: b_def acts_def option_book_new_def option_add_order_def
        option_remove_order_def on_levels_def join_level_def leave_level_def price_level_new_def
        level_shrink_def saturating_sub_def min_def Let_def)
  let ?ks = "\<lambda>sd. case sd of Buy \<Rightarrow> [50000] | Sell \<Rightarrow> [55000]"
  have fresh: "feed_ok Map.empty (map as_event acts)" by (simp add: acts_def)
  have visit: "enumerates (?ks Buy) (opt_bids b)" "enumerates (?ks Sell) (opt_asks b)"
    by (simp_all add: enumerates_def bids asks)
  have "option_bbo_snapshot ?ks b = (50000, 6, 55000, 15)"
    by (simp add: option_bbo_snapshot_def option_best_bid_def option_best_ask_def max_by_key_def
        min_by_key_def bids asks)
  from option_book_quotes [OF fresh b_def visit this] show ?thesis
    unfolding b_def acts_def by blast
qed

end
