(* ===== verification/Pricing_Correct.thy ===== *)
theory Pricing_Correct
  imports Pricing
begin

text \<open>
  What the pricing code computes.  Two kinds of results: the search for the implied
  volatility is proved for every arithmetic that satisfies \<open>float_order\<close>; the formulas are
  compared with the textbook's at \<open>exact_ops\<close>, that is, without rounding.
\<close>

section \<open>The search returns what it has checked\<close>

definition price_error ::
  "'f float_ops \<Rightarrow> 'f \<Rightarrow> 'f \<Rightarrow> 'f \<Rightarrow> 'f \<Rightarrow> 'f \<Rightarrow> option_type \<Rightarrow> 'f \<Rightarrow> 'f" where
  "price_error F market spot strike rate ttm ot v =
     f_abs F (f_sub F (bsm_price F (iv_inputs spot strike rate ttm ot v)) market)"

text \<open>A volatility the search has accepted: in range, and it reprices the market.\<close>

definition reprices ::
  "'f float_ops \<Rightarrow> 'f \<Rightarrow> 'f \<Rightarrow> 'f \<Rightarrow> 'f \<Rightarrow> 'f \<Rightarrow> option_type \<Rightarrow> 'f \<Rightarrow> bool" where
  "reprices F market spot strike rate ttm ot v \<longleftrightarrow>
     in_band F MIN_IV MAX_IV v
     \<and> (f_less F (price_error F market spot strike rate ttm ot v) (f_lit F IV_EPSILON)
        \<or> f_less F (price_error F market spot strike rate ttm ot v)
            (f_mul F (f_lit F 0.01) market))"

text \<open>A market price within the tolerance of the intrinsic value.\<close>

definition at_intrinsic :: "'f float_ops \<Rightarrow> 'f \<Rightarrow> 'f \<Rightarrow> 'f \<Rightarrow> option_type \<Rightarrow> bool" where
  "at_intrinsic F market spot strike ot \<longleftrightarrow>
     \<not> f_less F market (f_sub F (intrinsic_value F ot spot strike) (f_lit F (1 / 10 ^ 8)))
     \<and> f_le F market (f_add F (intrinsic_value F ot spot strike) (f_lit F (1 / 10 ^ 8)))"

text \<open>The invariant of the loop: the best volatility so far is one whose error was measured.\<close>

definition measured ::
  "'f float_ops \<Rightarrow> 'f \<Rightarrow> 'f \<Rightarrow> 'f \<Rightarrow> 'f \<Rightarrow> 'f \<Rightarrow> option_type \<Rightarrow> 'f \<Rightarrow> 'f \<Rightarrow> bool" where
  "measured F market spot strike rate ttm ot best_vol best_error \<longleftrightarrow>
     best_error = f_infinity F
     \<or> best_error = price_error F market spot strike rate ttm ot best_vol
       \<and> in_band F MIN_IV MAX_IV best_vol"

context float_order
begin

lemma clamped_in_band: "in_band F MIN_IV MAX_IV (f_clamp F (f_lit F MIN_IV) (f_lit F MAX_IV) x)"
  by (rule in_band_clamp) (simp add: MIN_IV_def MAX_IV_def)

lemma iv_search_sound:
  assumes "measured F market spot strike rate ttm ot best_vol best_error"
    and "in_band F MIN_IV MAX_IV vol"
  shows "case iv_search F market spot strike rate ttm ot n vol best_vol best_error of
      Inl v \<Rightarrow> in_band F MIN_IV MAX_IV v
        \<and> f_less F (price_error F market spot strike rate ttm ot v) (f_lit F IV_EPSILON)
    | Inr (bv, be) \<Rightarrow> measured F market spot strike rate ttm ot bv be"
  using assms
proof (induction n arbitrary: vol best_vol best_error)
  case (Suc n)
  define ae where "ae = price_error F market spot strike rate ttm ot vol"
  have new: "measured F market spot strike rate ttm ot vol ae"
    using Suc.prems by (simp add: measured_def ae_def)
  note ae = ae_def [unfolded price_error_def, symmetric]
  show ?case
  proof (cases "f_less F ae best_error")
    case True
    then show ?thesis
      using Suc.IH [OF new clamped_in_band] Suc.prems(2) new
      by (simp add: Let_def ae ae_def [symmetric] split: prod.split)
  next
    case False
    then show ?thesis
      using Suc.IH [OF Suc.prems(1) clamped_in_band] Suc.prems
      by (simp add: Let_def ae ae_def [symmetric] split: prod.split)
  qed
qed simp

lemma solve_sound:
  assumes "solve_implied_volatility F market spot strike rate ttm ot = Some v"
  shows "v = f_lit F 0 \<and> at_intrinsic F market spot strike ot
         \<or> reprices F market spot strike rate ttm ot v"
proof -
  have start: "in_band F MIN_IV MAX_IV (f_lit F 0.3)"
    by (rule in_band_lit) (simp_all add: MIN_IV_def MAX_IV_def)
  have "measured F market spot strike rate ttm ot (f_lit F 0.3) (f_infinity F)"
    by (simp add: measured_def)
  from iv_search_sound [OF this start, of MAX_IV_ITERATIONS] assms show ?thesis
    by (auto simp: solve_implied_volatility_def Let_def measured_def infinity_top
        at_intrinsic_def reprices_def split: if_splits sum.splits)
qed

lemma iv_search_answers:
  assumes "f_less F best_error (f_mul F (f_lit F 0.01) market)"
  shows "case iv_search F market spot strike rate ttm ot n vol best_vol best_error of
      Inl _ \<Rightarrow> True
    | Inr (_, be) \<Rightarrow> f_less F be (f_mul F (f_lit F 0.01) market)"
  using assms
proof (induction n arbitrary: vol best_vol best_error)
  case (Suc n)
  define ae where "ae = price_error F market spot strike rate ttm ot vol"
  note ae = ae_def [unfolded price_error_def, symmetric]
  show ?case
  proof (cases "f_less F ae best_error")
    case True
    then have "f_less F ae (f_mul F (f_lit F 0.01) market)"
      using Suc.prems less_trans by blast
    then show ?thesis
      using True Suc.IH by (simp add: Let_def ae split: prod.split)
  next
    case False
    then show ?thesis
      using Suc.prems Suc.IH by (simp add: Let_def ae split: prod.split)
  qed
qed simp

lemma iv_search_answers_at_once:
  assumes "f_less F (price_error F market spot strike rate ttm ot vol)
             (f_mul F (f_lit F 0.01) market)"
  shows "case iv_search F market spot strike rate ttm ot (Suc n) vol best_vol (f_infinity F) of
      Inl _ \<Rightarrow> True
    | Inr (_, be) \<Rightarrow> f_less F be (f_mul F (f_lit F 0.01) market)"
proof -
  define ae where "ae = price_error F market spot strike rate ttm ot vol"
  note ae = ae_def [unfolded price_error_def, symmetric]
  have "f_less F ae (f_infinity F)" "f_less F ae (f_mul F (f_lit F 0.01) market)"
    using assms less_infinity by (simp_all add: ae_def)
  then show ?thesis
    using iv_search_answers by (simp add: Let_def ae split: prod.split)
qed

end

section \<open>Exact arithmetic: the normal distribution\<close>

definition tail_poly :: "real \<Rightarrow> real" where
  "tail_poly t = t * (0.3193815 + t * (- 0.3565638 + t * (1.781478 + t * (- 1.821256 + t * 1.330274))))"

definition upper_tail :: "real \<Rightarrow> real" where
  "upper_tail a = 0.3989423 * exp (- (a * a) / 2) * tail_poly (1 / (1 + 0.2316419 * a))"

definition cdf :: "real \<Rightarrow> real" where
  "cdf x = (if x < - 6 then 0 else if 6 < x then 1
            else if 0 \<le> x then 1 - upper_tail x else upper_tail (- x))"

definition pdf :: "real \<Rightarrow> real" where
  "pdf x = (if x < - 6 \<or> 6 < x then 0 else exp (- (x * x) / 2) / sqrt (2 * pi))"

lemma norm_cdf_exact: "norm_cdf exact_ops (Fin x) = Fin (cdf x)"
  by (auto simp: norm_cdf_def cdf_def cdf_tail_def upper_tail_def tail_poly_def Let_def
      NEG_INF_THRESHOLD_def POS_INF_THRESHOLD_def of_rat_divide of_rat_minus abs_real_def)

lemma norm_pdf_exact: "norm_pdf exact_ops (Fin x) = Fin (pdf x)"
  by (auto simp: norm_pdf_def pdf_def NEG_INF_THRESHOLD_def POS_INF_THRESHOLD_def of_rat_divide
      of_rat_minus real_sqrt_mult)

lemma tail_poly_bounds:
  assumes "0 \<le> t" "t \<le> 1"
  shows "0 \<le> tail_poly t" "tail_poly t \<le> 1.2533137"
proof -
  define q where "q = 1.781478 + t * (- 1.821256 + t * 1.330274)"
  define s where "s = (t - 0.68)\<^sup>2"
  have "q = 1.330274 * s + 1.1 + (0.0663593024 - 0.01208336 * t)"
    by (simp add: q_def s_def power2_eq_square field_simps)
  moreover have "0 \<le> s" by (simp add: s_def)
  ultimately have q: "1.1 \<le> q" using assms by simp
  define w where "w = (t - 0.16)\<^sup>2"
  have "0.3193815 - 0.3565638 * t + 1.1 * t\<^sup>2 = 1.1 * w + (0.2912215 - 0.0045638 * t)"
    by (simp add: w_def power2_eq_square field_simps)
  moreover have "0 \<le> w" by (simp add: w_def)
  ultimately have "0 \<le> 0.3193815 - 0.3565638 * t + 1.1 * t\<^sup>2" using assms by simp
  also have "\<dots> \<le> 0.3193815 + t * (- 0.3565638 + t * q)"
    using mult_left_mono [OF q, of "t\<^sup>2"] by (simp add: power2_eq_square algebra_simps)
  finally have "0 \<le> 0.3193815 + t * (- 0.3565638 + t * q)" .
  then show "0 \<le> tail_poly t" using assms by (simp add: tail_poly_def q_def)
  define u where
    "u = (1.2533137 - 0.490982 * t ^ 3) + 0.9339322 * t + 1.290496 * t ^ 2 + 1.330274 * t ^ 4"
  have "t ^ 3 \<le> 1" using assms by (simp add: power_le_one)
  then have "0 \<le> u" using assms unfolding u_def by (intro add_nonneg_nonneg) simp_all
  then have "0 \<le> (1 - t) * u" using assms by (intro mult_nonneg_nonneg) simp_all
  also have "(1 - t) * u = 1.2533137 - tail_poly t"
    by (simp add: tail_poly_def u_def power2_eq_square power3_eq_cube eval_nat_numeral field_simps)
  finally show "tail_poly t \<le> 1.2533137" by (rule iffD1 [OF diff_ge_0_iff_ge])
qed

lemma upper_tail_bounds:
  assumes "0 \<le> a"
  shows "0 \<le> upper_tail a" "upper_tail a \<le> 1 / 2"
proof -
  define e where "e = exp (- (a * a) / 2)"
  define p where "p = tail_poly (1 / (1 + 0.2316419 * a))"
  have e: "0 \<le> e" "e \<le> 1" by (simp_all add: e_def)
  have p: "0 \<le> p" "p \<le> 1.2533137"
    using tail_poly_bounds [of "1 / (1 + 0.2316419 * a)"] assms by (simp_all add: p_def)
  have ep: "upper_tail a = 0.3989423 * (e * p)" by (simp add: upper_tail_def e_def p_def)
  show "0 \<le> upper_tail a" using e p by (simp add: ep)
  have "e * p \<le> 1 * 1.2533137" using e p by (intro mult_mono) simp_all
  then show "upper_tail a \<le> 1 / 2" by (simp add: ep)
qed

lemma cdf_bounds: "0 \<le> cdf x" "cdf x \<le> 1"
  using upper_tail_bounds [of x] upper_tail_bounds [of "- x"] by (auto simp: cdf_def)

lemma cdf_half: "0 \<le> x \<Longrightarrow> 1 / 2 \<le> cdf x" "x < 0 \<Longrightarrow> cdf x \<le> 1 / 2"
  using upper_tail_bounds [of x] upper_tail_bounds [of "- x"] by (auto simp: cdf_def)

lemma cdf_neg: "x \<noteq> 0 \<Longrightarrow> cdf (- x) = 1 - cdf x"
  by (auto simp: cdf_def)

lemma pdf_nonneg: "0 \<le> pdf x"
  by (simp add: pdf_def)

section \<open>Exact arithmetic: the formulas\<close>

definition d_one :: "real \<Rightarrow> real \<Rightarrow> real \<Rightarrow> real \<Rightarrow> real \<Rightarrow> real" where
  "d_one S K r v T = (ln (S / K) + (r + 0.5 * v * v) * T) / (v * sqrt T)"

definition d_two :: "real \<Rightarrow> real \<Rightarrow> real \<Rightarrow> real \<Rightarrow> real \<Rightarrow> real" where
  "d_two S K r v T = d_one S K r v T - v * sqrt T"

text \<open>The inputs for which the formulas are defined, and the record they make.\<close>

definition regular :: "real \<Rightarrow> real \<Rightarrow> real \<Rightarrow> real \<Rightarrow> bool" where
  "regular S K T v \<longleftrightarrow> 0 < S \<and> 0 < K \<and> 0 < T \<and> 0 < v"

definition quote_inputs ::
  "real \<Rightarrow> real \<Rightarrow> real \<Rightarrow> real \<Rightarrow> option_type \<Rightarrow> real \<Rightarrow> xreal bsm_inputs" where
  "quote_inputs S K r T ot v = iv_inputs (Fin S) (Fin K) (Fin r) (Fin T) ot (Fin v)"

lemmas quote_simps = quote_inputs_def iv_inputs_def regular_def discounted_strike_def
  intrinsic_value_def of_rat_divide of_rat_minus

lemma calc_d1_d2_exact:
  assumes "regular S K T v"
  shows "calc_d1_d2 exact_ops (Fin S) (Fin K) (Fin r) (Fin v) (Fin T)
    = (Fin (d_one S K r v T), Fin (d_two S K r v T), Fin (sqrt T), Fin (v * sqrt T))"
  using assms by (simp add: calc_d1_d2_def regular_def d_one_def d_two_def Let_def of_rat_divide
      divide_less_0_iff)

lemma bsm_price_exact:
  assumes "regular S K T v"
  shows "bsm_price exact_ops (quote_inputs S K r T ot v) = Fin
    (case ot of
       Call \<Rightarrow> S * cdf (d_one S K r v T) - K * exp (- r * T) * cdf (d_two S K r v T)
     | Put \<Rightarrow> K * exp (- r * T) * (1 - cdf (d_two S K r v T)) - S * (1 - cdf (d_one S K r v T)))"
  using assms calc_d1_d2_exact [OF assms, of r]
  by (simp add: bsm_price_def quote_simps norm_cdf_exact Let_def split: option_type.split)

lemma bsm_greeks_exact:
  assumes "regular S K T v"
  shows "bsm_greeks exact_ops (quote_inputs S K r T ot v) =
    (let d1 = d_one S K r v T; d2 = d_two S K r v T; k = K * exp (- r * T);
         decay = - S * pdf d1 * v / (2 * sqrt T)
     in \<lparr>br_price = bsm_price exact_ops (quote_inputs S K r T ot v),
         br_delta = Fin (case ot of Call \<Rightarrow> cdf d1 | Put \<Rightarrow> cdf d1 - 1),
         br_gamma = Fin (pdf d1 / (S * (v * sqrt T))),
         br_vega = Fin (S * pdf d1 * sqrt T / 100),
         br_theta = Fin ((case ot of Call \<Rightarrow> decay - r * k * cdf d2
                                   | Put \<Rightarrow> decay + r * k * cdf (- d2)) / 365),
         br_rho = Fin ((case ot of Call \<Rightarrow> K * T * k * cdf d2
                                 | Put \<Rightarrow> - K * T * k * cdf (- d2)) / 100),
         br_implied_volatility = Fin v\<rparr>)"
  using assms calc_d1_d2_exact [OF assms, of r]
  by (simp add: bsm_greeks_def quote_simps norm_cdf_exact norm_pdf_exact Let_def
      split: option_type.split)

section \<open>Properties\<close>

text \<open>
  C24: whatever the arithmetic, the search for the implied volatility answers only with a
  volatility between its bounds whose model price it has found to be within 1e-8, or within
  one percent, of the market price -- or with zero, for a market price at the intrinsic value.
\<close>

theorem implied_volatility_reprices:
  assumes "float_order F"
    and "solve_implied_volatility F market spot strike rate ttm ot = Some v"
  shows "v = f_lit F 0 \<and> at_intrinsic F market spot strike ot
         \<or> reprices F market spot strike rate ttm ot v"
  using assms by (rule float_order.solve_sound)

text \<open>
  The option at strike 1, spot \<open>e\<^sup>2\<close> and rate 1 over a year: both normals saturate, so the
  model price is \<open>e\<^sup>2 - 1/e\<close> and its volatility is read off exactly.
\<close>

lemma saturated_price:
  "bsm_price exact_ops (iv_inputs (Fin (exp 2)) (Fin 1) (Fin 1) (Fin 1) Call (Fin 0.3))
     = Fin (exp 2 - exp (- 1))"
proof -
  have "d_one (exp 2) 1 1 0.3 1 = 10.15" "d_two (exp 2) 1 1 0.3 1 = 9.85"
    by (simp_all add: d_one_def d_two_def)
  then show ?thesis
    using bsm_price_exact [of "exp 2" 1 1 "0.3" 1 Call]
    by (simp add: quote_inputs_def regular_def cdf_def)
qed

lemma saturated_guards:
  "exp (- 1 :: real) < 1 - 1 / 10 ^ 8" "exp 2 - exp (- 1 :: real) > 0" "(1 :: real) < exp 2"
proof -
  have "(2 :: real) \<le> exp 1" using exp_ge_add_one_self [of 1] by simp
  then have "exp (- 1 :: real) \<le> 1 / 2" by (simp add: exp_minus divide_simps)
  then show "exp (- 1 :: real) < 1 - 1 / 10 ^ 8" by simp
  show "(1 :: real) < exp 2" by simp
  show "exp 2 - exp (- 1 :: real) > 0" by simp
qed

lemma saturated_solution:
  "solve_implied_volatility exact_ops (Fin (exp 2 - exp (- 1))) (Fin (exp 2)) (Fin 1) (Fin 1)
     (Fin 1) Call = Some (Fin 0.3)"
  using saturated_guards saturated_price
  by (simp add: solve_implied_volatility_def intrinsic_value_def MAX_IV_ITERATIONS_def
      IV_EPSILON_def of_rat_divide eval_nat_numeral not_le not_less)

theorem implied_volatility_reprices_witness:
  "Fin 0.3 = f_lit exact_ops 0
     \<and> at_intrinsic exact_ops (Fin (exp 2 - exp (- 1))) (Fin (exp 2)) (Fin 1) Call
   \<or> reprices exact_ops (Fin (exp 2 - exp (- 1))) (Fin (exp 2)) (Fin 1) (Fin 1) (Fin 1) Call
       (Fin 0.3)"
  by (rule implied_volatility_reprices [OF exact.float_order_axioms saturated_solution])

text \<open>
  C25: whatever the arithmetic, the search answers every quote that clears its guards and that
  the model prices to within one percent at the starting volatility: the best volatility seen
  only improves in the loop.
\<close>

theorem implied_volatility_answers:
  assumes "float_order F"
    and "\<not> f_le F ttm (f_lit F 0)" "\<not> f_le F spot (f_lit F 0)"
      "\<not> f_le F strike (f_lit F 0)" "\<not> f_le F market (f_lit F 0)"
    and "\<not> f_less F market (f_sub F (intrinsic_value F ot spot strike) (f_lit F (1 / 10 ^ 8)))"
    and "f_less F (price_error F market spot strike rate ttm ot (f_lit F 0.3))
           (f_mul F (f_lit F 0.01) market)"
  shows "\<exists>v. solve_implied_volatility F market spot strike rate ttm ot = Some v"
  using assms
    float_order.iv_search_answers_at_once [OF assms(1,7), of 31 "f_lit F 0.3"]
  by (auto simp: solve_implied_volatility_def Let_def MAX_IV_ITERATIONS_def simp del: iv_search.simps
      split: sum.splits)

theorem implied_volatility_answers_witness:
  "\<exists>v. solve_implied_volatility exact_ops (Fin (exp 2 - exp (- 1))) (Fin (exp 2)) (Fin 1) (Fin 1)
     (Fin 1) Call = Some v"
  by (rule implied_volatility_answers [OF exact.float_order_axioms])
    (use saturated_guards saturated_price in
      \<open>simp_all add: intrinsic_value_def price_error_def of_rat_divide not_le not_less\<close>)

text \<open>
  C26: whatever the arithmetic, the record of sensitivities handed out for a quote carries the
  volatility found and the model price at it, and unless the quote is at the intrinsic value
  this model price is within the search's tolerance of the market price.
\<close>

theorem solved_greeks_match_market:
  assumes "float_order F"
    and "solve_iv_and_greeks F market spot strike rate ttm ot = Some g"
  shows "br_price g = bsm_price F (iv_inputs spot strike rate ttm ot (br_implied_volatility g))
    \<and> (br_implied_volatility g = f_lit F 0 \<and> at_intrinsic F market spot strike ot
       \<or> f_less F (f_abs F (f_sub F (br_price g) market)) (f_lit F IV_EPSILON)
       \<or> f_less F (f_abs F (f_sub F (br_price g) market)) (f_mul F (f_lit F 0.01) market))"
proof -
  obtain v where v: "solve_implied_volatility F market spot strike rate ttm ot = Some v"
    and g: "g = (bsm_greeks F (iv_inputs spot strike rate ttm ot v))\<lparr>br_implied_volatility := v\<rparr>"
    using assms(2) by (auto simp: solve_iv_and_greeks_def)
  have "br_price g = bsm_price F (iv_inputs spot strike rate ttm ot v)" "br_implied_volatility g = v"
    by (simp_all add: g bsm_greeks_def Let_def split: prod.split)
  then show ?thesis
    using float_order.solve_sound [OF assms(1) v] by (auto simp: reprices_def price_error_def)
qed

theorem solved_greeks_match_market_witness:
  "\<exists>g. solve_iv_and_greeks exact_ops (Fin (exp 2 - exp (- 1))) (Fin (exp 2)) (Fin 1) (Fin 1)
         (Fin 1) Call = Some g
     \<and> br_price g = bsm_price exact_ops
         (iv_inputs (Fin (exp 2)) (Fin 1) (Fin 1) (Fin 1) Call (br_implied_volatility g))"
proof -
  obtain g where "solve_iv_and_greeks exact_ops (Fin (exp 2 - exp (- 1))) (Fin (exp 2)) (Fin 1)
      (Fin 1) (Fin 1) Call = Some g"
    by (simp add: solve_iv_and_greeks_def saturated_solution)
  then show ?thesis
    using solved_greeks_match_market [OF exact.float_order_axioms] by blast
qed

text \<open>
  C27: without rounding, a call and a put on the same terms satisfy put-call parity exactly,
  before expiry and at it.
\<close>

theorem put_call_parity:
  assumes "regular S K T' v" and "T = T' \<or> T = 0"
  shows "f_sub exact_ops (bsm_price exact_ops (quote_inputs S K r T Call v))
           (bsm_price exact_ops (quote_inputs S K r T Put v))
         = Fin (S - K * exp (- r * T))"
  using assms(2)
proof
  assume "T = T'"
  then show ?thesis
    using assms(1) by (simp add: bsm_price_exact algebra_simps)
next
  assume "T = 0"
  then show ?thesis by (simp add: bsm_price_def quote_simps max_def)
qed

theorem put_call_parity_witness:
  "f_sub exact_ops (bsm_price exact_ops (quote_inputs 100 105 0.03 0.5 Call 0.25))
     (bsm_price exact_ops (quote_inputs 100 105 0.03 0.5 Put 0.25))
   = Fin (100 - 105 * exp (- 0.03 * 0.5))"
  by (rule put_call_parity [of _ _ "0.5"]) (simp_all add: regular_def)

text \<open>
  Without rounding, the approximate normal distribution stays between 0 and 1, on the
  right side of one half, and is symmetric away from zero.
\<close>

theorem norm_cdf_is_distribution:
  "\<exists>p q. norm_cdf exact_ops (Fin x) = Fin p \<and> norm_cdf exact_ops (Fin (- x)) = Fin q
     \<and> 0 \<le> p \<and> p \<le> 1
     \<and> (if x = 0 then 1 / 2 \<le> p \<and> p < 1 / 2 + 1 / 10 ^ 6
        else p + q = 1 \<and> (if 0 < x then 1 / 2 \<le> p else p \<le> 1 / 2))"
  using cdf_bounds [of x] cdf_half [of x] cdf_neg [of x]
  by (auto simp: norm_cdf_exact cdf_def upper_tail_def tail_poly_def)

text \<open>
  C28: without rounding, before expiry the sensitivities have the signs and bounds of the
  textbook: a call's delta between 0 and 1 and one above the put's, gamma and vega not
  negative and shared by call and put.
\<close>

theorem greeks_bounds:
  assumes "regular S K T v"
  shows "\<exists>delta gamma vega.
      br_delta (bsm_greeks exact_ops (quote_inputs S K r T Call v)) = Fin delta
    \<and> br_delta (bsm_greeks exact_ops (quote_inputs S K r T Put v)) = Fin (delta - 1)
    \<and> 0 \<le> delta \<and> delta \<le> 1
    \<and> (\<forall>ot. br_gamma (bsm_greeks exact_ops (quote_inputs S K r T ot v)) = Fin gamma
           \<and> br_vega (bsm_greeks exact_ops (quote_inputs S K r T ot v)) = Fin vega)
    \<and> 0 \<le> gamma \<and> 0 \<le> vega"
proof -
  define gamma where "gamma = pdf (d_one S K r v T) / (S * (v * sqrt T))"
  define vega where "vega = S * pdf (d_one S K r v T) * sqrt T / 100"
  have "0 \<le> gamma" "0 \<le> vega"
    using assms pdf_nonneg by (simp_all add: regular_def gamma_def vega_def)
  then show ?thesis
    using cdf_bounds
    by (intro exI [of _ "cdf (d_one S K r v T)"] exI [of _ gamma] exI [of _ vega])
      (simp add: bsm_greeks_exact [OF assms] Let_def gamma_def vega_def)
qed

theorem greeks_bounds_witness:
  "\<exists>delta. br_delta (bsm_greeks exact_ops (quote_inputs 100 100 0.05 1 Call 0.2)) = Fin delta
     \<and> 0 \<le> delta \<and> delta \<le> 1"
  using greeks_bounds [of 100 100 1 "0.2" "0.05"] by (auto simp: regular_def)

text \<open>
  Without rounding, before expiry no call is priced above its spot and no put above its
  discounted strike.
\<close>

theorem price_ceilings:
  assumes "regular S K T v"
  shows "f_le exact_ops (bsm_price exact_ops (quote_inputs S K r T Call v)) (Fin S)
    \<and> f_le exact_ops (bsm_price exact_ops (quote_inputs S K r T Put v))
        (discounted_strike exact_ops (quote_inputs S K r T Put v))"
proof -
  define p q where "p = cdf (d_one S K r v T)" and "q = cdf (d_two S K r v T)"
  have pq: "0 \<le> p" "p \<le> 1" "0 \<le> q" "q \<le> 1" using cdf_bounds by (simp_all add: p_def q_def)
  define k where "k = K * exp (- r * T)"
  have pos: "0 \<le> S" "0 \<le> k" using assms by (simp_all add: regular_def k_def)
  have "S * p \<le> S * 1" "0 \<le> k * q" "k * (1 - q) \<le> k * 1" "0 \<le> S * (1 - p)"
    using pq pos by (intro mult_left_mono mult_nonneg_nonneg; simp)+
  then have "S * p - k * q \<le> S" "k * (1 - q) - S * (1 - p) \<le> k" by linarith+
  moreover have "discounted_strike exact_ops (quote_inputs S K r T Put v) = Fin k"
    by (simp add: quote_simps k_def)
  ultimately show ?thesis
    by (simp add: bsm_price_exact [OF assms] p_def q_def k_def)
qed

theorem price_ceilings_witness:
  "f_le exact_ops (bsm_price exact_ops (quote_inputs 100 100 0.05 1 Call 0.2)) (Fin 100)"
  using price_ceilings [of 100 100 1 "0.2" "0.05"] by (simp add: regular_def)

text \<open>
  The rho of the code is the textbook's (\<open>K T e\<^sup>-\<^sup>r\<^sup>T N(d2)\<close>, per cent) multiplied once
  more by the strike: the discounted strike the formula uses already carries it.
\<close>

theorem rho_scaled_by_strike:
  assumes "regular S K T v"
  shows "br_rho (bsm_greeks exact_ops (quote_inputs S K r T ot v)) =
    f_mul exact_ops (Fin K)
      (Fin ((case ot of
               Call \<Rightarrow> K * T * exp (- r * T) * cdf (d_two S K r v T)
             | Put \<Rightarrow> - (K * T * exp (- r * T) * cdf (- d_two S K r v T))) / 100))"
  by (simp add: bsm_greeks_exact [OF assms] Let_def split: option_type.split)

theorem rho_scaled_by_strike_witness:
  "\<exists>rho. br_rho (bsm_greeks exact_ops (quote_inputs 100 100 0.05 1 Call 0.2))
     = f_mul exact_ops (Fin 100) (Fin (rho / 100))"
  using rho_scaled_by_strike [of 100 100 1 "0.2" "0.05" Call] by (auto simp: regular_def)

text \<open>
  A quote at the intrinsic value is answered with volatility zero, and the record handed
  out for it has a gamma that is not a number.
\<close>

theorem intrinsic_quote_has_no_gamma:
  assumes "0 < S" "0 < K" "0 < T" "0 < m"
    and "\<bar>m - (case ot of Call \<Rightarrow> max (S - K) 0 | Put \<Rightarrow> max (K - S) 0)\<bar> \<le> 1 / 10 ^ 8"
  shows "\<exists>g. solve_iv_and_greeks exact_ops (Fin m) (Fin S) (Fin K) (Fin r) (Fin T) ot = Some g
           \<and> br_implied_volatility g = Fin 0 \<and> br_gamma g = NaN"
proof -
  define iv where "iv = (case ot of Call \<Rightarrow> max (S - K) 0 | Put \<Rightarrow> max (K - S) 0)"
  have near: "m \<le> iv + 1 / 10 ^ 8" "\<not> m < iv - 1 / 10 ^ 8"
    using assms(5) unfolding iv_def [symmetric] by linarith+
  have "solve_implied_volatility exact_ops (Fin m) (Fin S) (Fin K) (Fin r) (Fin T) ot = Some (Fin 0)"
    using assms(1-4) near
    by (cases ot)
      (simp_all add: solve_implied_volatility_def intrinsic_value_def iv_def of_rat_divide)
  moreover have "br_gamma (bsm_greeks exact_ops (iv_inputs (Fin S) (Fin K) (Fin r) (Fin T) ot (Fin 0)))
      = NaN"
    using assms
    by (auto simp: bsm_greeks_def calc_d1_d2_def iv_inputs_def Let_def x_signed_def norm_pdf_def)
  ultimately show ?thesis
    by (simp add: solve_iv_and_greeks_def)
qed

theorem intrinsic_quote_has_no_gamma_witness:
  "\<exists>g. solve_iv_and_greeks exact_ops (Fin 20) (Fin 120) (Fin 100) (Fin 0.05) (Fin 1) Call = Some g
     \<and> br_gamma g = NaN"
  using intrinsic_quote_has_no_gamma [of 120 100 1 20 Call "0.05"] by auto

end
