(* ===== verification/Option_Chain_Correct.thy ===== *)
theory Option_Chain_Correct
  imports Option_Chain Option_Book_Correct Pricing_Correct
begin

text \<open>
  The chains: visiting the books of a chain prices each of them once, and what an aggregated
  snapshot then reports of each contract, or when it panics.
\<close>

section \<open>What pricing leaves alone\<close>

definition book_core ::
  "'f option_book \<Rightarrow> option_contract \<times> (u64 \<rightharpoonup> price_level) \<times> (u64 \<rightharpoonup> price_level)
     \<times> (u64 \<rightharpoonup> option_order_info)" where
  "book_core b = (opt_contract b, opt_bids b, opt_asks b, opt_orders b)"

definition chain_core :: "'f option_chain \<Rightarrow> _" where
  "chain_core ch = (\<lambda>k. map_option book_core (ch_contracts ch k))"

lemma core_cong:
  assumes "book_core b = book_core b'"
  shows "option_ok b = option_ok b'" "option_positive b = option_positive b'"
    "option_live b = option_live b'" "opt_contract b = opt_contract b'"
    "opt_levels sd b = opt_levels sd b'"
    "option_bbo_snapshot ks b = option_bbo_snapshot ks b'"
    "option_mid_price F ks b = option_mid_price F ks b'"
proof -
  have eq: "opt_bids b = opt_bids b'" "opt_asks b = opt_asks b'" "opt_orders b = opt_orders b'"
    using assms by (simp_all add: book_core_def)
  then have lv: "opt_levels sd b = opt_levels sd b'" for sd by (cases sd) simp_all
  show live: "option_live b = option_live b'" by (simp add: option_live_def eq)
  show "option_ok b = option_ok b'" by (simp add: option_ok_def live lv)
  show "option_positive b = option_positive b'" by (simp add: option_positive_def lv)
  show "opt_contract b = opt_contract b'" using assms by (simp add: book_core_def)
  show "opt_levels sd b = opt_levels sd b'" by (rule lv)
  show bbo: "option_bbo_snapshot ks b = option_bbo_snapshot ks b'" for ks
    by (simp add: option_bbo_snapshot_def option_best_bid_def option_best_ask_def eq)
  show "option_mid_price F ks b = option_mid_price F ks b'"
    by (simp add: option_mid_price_def bbo)
qed

lemma compute_pricing_core [simp]:
  "book_core (fst (compute_pricing F ks b spot now rate)) = book_core b"
  by (simp add: compute_pricing_def book_core_def Let_def split: option.split)

lemma dirty_core [simp]: "book_core (b\<lparr>pricing_dirty := d\<rparr>) = book_core b"
  by (simp add: book_core_def)

lemma price_books_result:
  assumes "distinct ks"
  shows "price_books F hos spot now rate ks books =
    ((\<lambda>k. if k \<in> set ks
          then map_option (\<lambda>b. if pricing_dirty b
                  then fst (compute_pricing F (hos k) b spot now rate) else b) (books k)
          else books k),
     List.map_filter (\<lambda>k. case books k of
          None \<Rightarrow> None
        | Some b \<Rightarrow> if pricing_dirty b
                    then snd (compute_pricing F (hos k) b spot now rate) else None) ks)"
  using assms
proof (induction ks arbitrary: books)
  case (Cons k ks)
  show ?case
    using Cons by (auto simp: List.map_filter_simps fun_eq_iff
        split: option.split prod.split intro!: map_filter_agree)
qed (auto simp: List.map_filter_simps)

text \<open>
  After the spot price of a snapshot has been set every book is dirty: pricing visits all.
\<close>

definition repriced ::
  "'f float_ops \<Rightarrow> hash_order \<Rightarrow> 'f option_book \<Rightarrow> 'f \<Rightarrow> u64 \<Rightarrow> 'f \<Rightarrow> 'f option_book" where
  "repriced F ks b spot now rate =
     fst (compute_pricing F ks (b\<lparr>pricing_dirty := True\<rparr>) spot now rate)"

lemma repriced_core [simp]: "book_core (repriced F ks b spot now rate) = book_core b"
  by (simp add: repriced_def)

lemma repriced_pricing:
  "last_pricing (repriced F ks b spot now rate) =
     (case option_mid_price F ks b of
        None \<Rightarrow> last_pricing b
      | Some mid \<Rightarrow> solve_iv_and_greeks F mid spot
          (f_div F (f_of_u64 F (oc_strike_price (opt_contract b))) (f_lit F 10000)) rate
          (time_to_maturity F (opt_contract b) now) (oc_option_type (opt_contract b)))"
  using core_cong(7) [OF dirty_core [where b = b and d = True]]
  by (simp add: repriced_def compute_pricing_def Let_def split: option.split)

lemma collect_snapshots_result:
  assumes "length acc \<le> MAX_CONTRACTS_PER_CHAIN"
  shows "collect_snapshots hos books ks acc =
    (let all = acc @ List.map_filter (\<lambda>k. Option.bind (books k) (contract_snapshot (hos k))) ks
     in if length all \<le> MAX_CONTRACTS_PER_CHAIN then Some all else None)"
  using assms
  by (induction ks arbitrary: acc)
    (auto simp: List.map_filter_simps arrayvec_push_def Let_def split: option.split)

section \<open>The aggregated snapshot\<close>

definition snapshot_book ::
  "'f float_ops \<Rightarrow> (option_contract_key \<Rightarrow> hash_order) \<Rightarrow> 'f option_chain \<Rightarrow> bbo_snapshot \<Rightarrow> u64
     \<Rightarrow> option_contract_key \<Rightarrow> 'f option_book option" where
  "snapshot_book F hos ch bbo now k =
     map_option (\<lambda>b. repriced F (hos k) b (spot_mid F bbo) now (ch_risk_free_rate ch))
       (ch_contracts ch k)"

definition reportable ::
  "'f float_ops \<Rightarrow> (option_contract_key \<Rightarrow> hash_order) \<Rightarrow> 'f option_chain \<Rightarrow> bbo_snapshot \<Rightarrow> u64
     \<Rightarrow> option_contract_key \<Rightarrow> 'f option_contract_snapshot option" where
  "reportable F hos ch bbo now k =
     Option.bind (snapshot_book F hos ch bbo now k) (contract_snapshot (hos k))"

lemma priced_books:
  assumes "enumerates kks (ch_contracts ch)"
  shows "fst (price_books F hos (spot_mid F bbo) now (ch_risk_free_rate ch) kks
            (\<lambda>k. map_option (\<lambda>b. b\<lparr>pricing_dirty := True\<rparr>) (ch_contracts ch k)))
         = snapshot_book F hos ch bbo now"
  using assms
  by (auto simp: enumerates_def price_books_result snapshot_book_def repriced_def fun_eq_iff
      option.map_comp o_def domIff)

lemma aggregate_snapshot_unfold:
  assumes "enumerates kks (ch_contracts ch)"
  shows "\<exists>ch'. ch_contracts ch' = snapshot_book F hos ch bbo now
    \<and> ch_underlying ch' = ch_underlying ch \<and> expiry_dates ch' = expiry_dates ch
    \<and> ch_risk_free_rate ch' = ch_risk_free_rate ch
    \<and> aggregate_snapshot F kks hos ch bbo now =
        (let contracts = List.map_filter (reportable F hos ch bbo now) kks
         in if length contracts \<le> MAX_CONTRACTS_PER_CHAIN
            then Some (ch',
              if contracts = [] then None
              else Some \<lparr>ag_underlying = ch_underlying ch,
                         ag_spot_bid_price = bid_price bbo, ag_spot_bid_volume = bid_volume bbo,
                         ag_spot_ask_price = ask_price bbo, ag_spot_ask_volume = ask_volume bbo,
                         ag_spot_timestamp = last_spot_timestamp ch, ag_contracts = contracts\<rparr>)
            else None)"
proof -
  define ch1 where "ch1 = update_spot_price ch (spot_mid F bbo) (last_spot_timestamp ch)"
  define ch2 where "ch2 = fst (update_all_pricing F kks hos ch1 now)"
  have ch2: "ch_contracts ch2 = snapshot_book F hos ch bbo now" "ch_underlying ch2 = ch_underlying ch"
    "expiry_dates ch2 = expiry_dates ch" "ch_risk_free_rate ch2 = ch_risk_free_rate ch"
    "last_spot_timestamp ch2 = last_spot_timestamp ch"
    using priced_books [OF assms, of F hos bbo now]
    by (simp_all add: ch2_def ch1_def update_all_pricing_def update_spot_price_def Let_def split_def)
  have rep: "(\<lambda>k. Option.bind (ch_contracts ch2 k) (contract_snapshot (hos k)))
      = reportable F hos ch bbo now"
    by (simp add: reportable_def ch2 fun_eq_iff)
  have collected: "collect_snapshots hos (ch_contracts ch2) kks [] =
      (let contracts = List.map_filter (reportable F hos ch bbo now) kks
       in if length contracts \<le> MAX_CONTRACTS_PER_CHAIN then Some contracts else None)"
    using collect_snapshots_result [of "[]" hos "ch_contracts ch2" kks]
    by (simp only: rep append_Nil list.size le0)
  have "aggregate_snapshot F kks hos ch bbo now =
      (case collect_snapshots hos (ch_contracts ch2) kks [] of
           None \<Rightarrow> None
         | Some contracts \<Rightarrow>
             Some (ch2,
               if contracts = [] then None
               else Some \<lparr>ag_underlying = ch_underlying ch2,
                          ag_spot_bid_price = bid_price bbo, ag_spot_bid_volume = bid_volume bbo,
                          ag_spot_ask_price = ask_price bbo, ag_spot_ask_volume = ask_volume bbo,
                          ag_spot_timestamp = last_spot_timestamp ch2, ag_contracts = contracts\<rparr>))"
    by (simp add: aggregate_snapshot_def ch2_def ch1_def Let_def split_def split: option.split)
  then have "aggregate_snapshot F kks hos ch bbo now =
        (let contracts = List.map_filter (reportable F hos ch bbo now) kks
         in if length contracts \<le> MAX_CONTRACTS_PER_CHAIN
            then Some (ch2,
              if contracts = [] then None
              else Some \<lparr>ag_underlying = ch_underlying ch,
                         ag_spot_bid_price = bid_price bbo, ag_spot_bid_volume = bid_volume bbo,
                         ag_spot_ask_price = ask_price bbo, ag_spot_ask_volume = ask_volume bbo,
                         ag_spot_timestamp = last_spot_timestamp ch, ag_contracts = contracts\<rparr>)
            else None)"
    by (simp add: collected ch2(2,5) Let_def)
  with ch2 show ?thesis by blast
qed

lemma length_map_filter_card:
  assumes "enumerates ks m" "\<And>k. m k = None \<Longrightarrow> f k = None"
  shows "length (List.map_filter f ks) = card {k. f k \<noteq> None}"
proof -
  have "{k. f k \<noteq> None} = set (filter (\<lambda>k. f k \<noteq> None) ks)"
    using assms by (auto simp: enumerates_def)
  also have "card \<dots> = length (filter (\<lambda>k. f k \<noteq> None) ks)"
    by (rule distinct_card) (use assms(1) in \<open>simp add: enumerates_def\<close>)
  finally show ?thesis by (simp only: List.map_filter_def o_def length_map)
qed

text \<open>The sensitivities a record carries.\<close>

definition carries :: "'f option_contract_snapshot \<Rightarrow> 'f bsm_result \<Rightarrow> bool" where
  "carries s g \<longleftrightarrow>
     cs_implied_volatility s = br_implied_volatility g \<and> cs_delta s = br_delta g
     \<and> cs_gamma s = br_gamma g \<and> cs_vega s = br_vega g \<and> cs_theta s = br_theta g
     \<and> cs_rho s = br_rho g \<and> cs_model_price s = br_price g"

lemma contract_snapshot_Some:
  assumes "contract_snapshot ks b = Some s"
  shows "\<exists>g. last_pricing b = Some g \<and> carries s g \<and> cs_contract s = opt_contract b
    \<and> option_bbo_snapshot ks b
        = (cs_bid_price s, cs_bid_volume s, cs_ask_price s, cs_ask_volume s)"
  using assms by (auto simp: contract_snapshot_def carries_def split: option.splits if_splits prod.splits)

text \<open>
  A chain whose only contract was priced once and then lost its asks: the next snapshot
  still sends the sensitivities of that pricing.
\<close>

definition stale_greeks :: "xreal bsm_result" where
  "stale_greeks = \<lparr>br_price = Fin 5, br_delta = Fin 0.5, br_gamma = Fin 0.1, br_vega = Fin 0.1,
     br_theta = Fin 0, br_rho = Fin 0, br_implied_volatility = Fin 0.2\<rparr>"

definition stale_book :: "xreal option_book" where
  "stale_book = (option_add_order (option_book_new sample_contract) 1 Buy 50000 10)
     \<lparr>last_pricing := Some stale_greeks\<rparr>"

definition stale_chain :: "xreal option_chain" where
  "stale_chain = (option_chain_new 7 (Fin 0.03))
     \<lparr>ch_contracts := [oc_key sample_contract \<mapsto> stale_book]\<rparr>"

abbreviation "stale_order \<equiv> \<lambda>(_ :: option_contract_key) sd. case sd of Buy \<Rightarrow> [50000 :: u64] | Sell \<Rightarrow> []"

lemma stale_book_simps:
  "option_bbo_snapshot (stale_order k) stale_book = (50000, 10, 0, 0)"
  "option_mid_price exact_ops (stale_order k) stale_book = None"
  "last_pricing stale_book = Some stale_greeks"
  by (simp_all add: option_mid_price_def option_bbo_snapshot_def option_best_bid_def
      option_best_ask_def stale_book_def option_add_order_def option_book_new_def on_levels_def
      join_level_def price_level_new_def max_by_key_def min_by_key_def Let_def)

text \<open>A chain of \<open>n\<close> contracts like this one.\<close>

definition crowd_key :: "nat \<Rightarrow> option_contract_key" where
  "crowd_key i = (oc_key sample_contract)\<lparr>ck_strike_price := of_nat i\<rparr>"

definition crowded_chain :: "nat \<Rightarrow> xreal option_chain" where
  "crowded_chain n = (option_chain_new 7 (Fin 0.03))
     \<lparr>ch_contracts := (\<lambda>k. if k \<in> crowd_key ` {..<n} then Some stale_book else None)\<rparr>"

lemma inj_crowd_key: "n \<le> 2 ^ 64 \<Longrightarrow> inj_on crowd_key {..<n}"
proof (rule inj_onI)
  fix i j assume n: "n \<le> 2 ^ 64" and ij: "i \<in> {..<n}" "j \<in> {..<n}" and "crowd_key i = crowd_key j"
  then have "ck_strike_price (crowd_key i) = ck_strike_price (crowd_key j)" by simp
  then have "unat (of_nat i :: u64) = unat (of_nat j :: u64)" by (simp add: crowd_key_def)
  moreover have "unat (of_nat m :: u64) = m" if "m \<in> {..<n}" for m
    by (rule of_nat_inverse [OF refl]) (use that n in simp)
  ultimately show "i = j" using ij by simp
qed

lemma crowd_reportable:
  assumes "k \<in> crowd_key ` {..<n}"
  shows "reportable exact_ops stale_order (crowded_chain n) bbo_snapshot_zero 0 k \<noteq> None"
proof -
  let ?b = "repriced exact_ops (stale_order k) stale_book (spot_mid exact_ops bbo_snapshot_zero) 0
    (ch_risk_free_rate (crowded_chain n))"
  have "last_pricing ?b = Some stale_greeks" "option_bbo_snapshot (stale_order k) ?b = (50000, 10, 0, 0)"
    using stale_book_simps by (simp_all add: repriced_pricing core_cong [OF repriced_core])
  then show ?thesis
    using assms by (simp add: reportable_def snapshot_book_def crowded_chain_def contract_snapshot_def)
qed

text \<open>
  C33: an aggregated snapshot fails exactly when more than 128 contracts of the chain are
  reportable (priced, with a bid or an ask): the push onto the full vector panics.  A chain
  of at most 128 contracts is always answered, with one record for each reportable contract
  and the spot quote it was given.
\<close>

theorem aggregate_snapshot_capacity:
  assumes "enumerates kks (ch_contracts ch)"
  shows "(aggregate_snapshot F kks hos ch bbo now = None \<longleftrightarrow>
      128 < card {k. reportable F hos ch bbo now k \<noteq> None})
    \<and> (chain_len ch \<le> 128 \<longrightarrow>
      (\<exists>ch' r. aggregate_snapshot F kks hos ch bbo now = Some (ch', r)
        \<and> (case r of
              None \<Rightarrow> \<forall>k. reportable F hos ch bbo now k = None
            | Some snap \<Rightarrow> ag_contracts snap = List.map_filter (reportable F hos ch bbo now) kks
                \<and> length (ag_contracts snap) = card {k. reportable F hos ch bbo now k \<noteq> None}
                \<and> ag_spot_bid_price snap = bid_price bbo
                \<and> ag_spot_ask_price snap = ask_price bbo)))"
proof -
  let ?rep = "reportable F hos ch bbo now" and ?K = "{k. reportable F hos ch bbo now k \<noteq> None}"
  have sub: "?rep k = None" if "ch_contracts ch k = None" for k
    using that by (simp add: reportable_def snapshot_book_def)
  have len: "length (List.map_filter ?rep kks) = card ?K"
    using assms sub by (rule length_map_filter_card)
  have "finite (dom (ch_contracts ch))" by (rule enumerates_finite [OF assms])
  moreover have "?K \<subseteq> dom (ch_contracts ch)"
    by (auto simp: reportable_def snapshot_book_def bind_eq_Some_conv)
  ultimately have "card ?K \<le> chain_len ch" "finite ?K"
    by (auto simp: chain_len_def intro: card_mono finite_subset)
  moreover have "List.map_filter ?rep kks = [] \<Longrightarrow> ?K = {}"
    using len \<open>finite ?K\<close> by simp
  ultimately have bounds: "card ?K \<le> chain_len ch"
    "List.map_filter ?rep kks = [] \<Longrightarrow> \<forall>k. ?rep k = None"
    by auto
  obtain ch' where eq: "aggregate_snapshot F kks hos ch bbo now =
      (if card ?K \<le> 128
       then Some (ch', if List.map_filter ?rep kks = [] then None
            else Some \<lparr>ag_underlying = ch_underlying ch,
                       ag_spot_bid_price = bid_price bbo, ag_spot_bid_volume = bid_volume bbo,
                       ag_spot_ask_price = ask_price bbo, ag_spot_ask_volume = ask_volume bbo,
                       ag_spot_timestamp = last_spot_timestamp ch,
                       ag_contracts = List.map_filter ?rep kks\<rparr>)
       else None)"
    using aggregate_snapshot_unfold [OF assms, of F hos bbo now]
    unfolding Let_def len MAX_CONTRACTS_PER_CHAIN_def by blast
  show ?thesis
  proof (cases "card ?K \<le> 128")
    case True
    then show ?thesis using eq bounds len by simp
  next
    case False
    then show ?thesis using eq bounds by simp
  qed
qed

theorem aggregate_snapshot_capacity_witness:
  "aggregate_snapshot exact_ops (map crowd_key [0..<129]) stale_order (crowded_chain 129)
     bbo_snapshot_zero 0 = None"
proof -
  let ?K = "crowd_key ` {..<129}"
  let ?R = "{k. reportable exact_ops stale_order (crowded_chain 129) bbo_snapshot_zero 0 k \<noteq> None}"
  have inj: "inj_on crowd_key {..<129}" by (rule inj_crowd_key) simp
  have "?K \<subseteq> ?R" using crowd_reportable by blast
  moreover have "?R \<subseteq> ?K" by (auto simp: reportable_def snapshot_book_def crowded_chain_def)
  ultimately have "?R = ?K" by blast
  then have "card ?R = 129" using card_image [OF inj] by simp
  moreover have "enumerates (map crowd_key [0..<129]) (ch_contracts (crowded_chain 129))"
    using inj by (auto simp: enumerates_def distinct_map crowded_chain_def lessThan_atLeast0
        split: if_splits)
  ultimately show ?thesis using aggregate_snapshot_capacity by fastforce
qed

text \<open>
  Every record of an aggregated snapshot shows the contract's own best quotes, and its
  sensitivities are those solved for the contract's mid price at the snapshot's spot price,
  clock and rate -- except when the contract is quoted on one side only: then they are the
  ones of the last time it had two sides, at another spot price and clock.
\<close>

theorem aggregate_snapshot_greeks:
  assumes "enumerates kks (ch_contracts ch)"
    and "aggregate_snapshot F kks hos ch bbo now = Some (ch', Some snap)"
    and "s \<in> set (ag_contracts snap)"
  shows "\<exists>k b g. ch_contracts ch k = Some b \<and> cs_contract s = opt_contract b
    \<and> option_bbo_snapshot (hos k) b
        = (cs_bid_price s, cs_bid_volume s, cs_ask_price s, cs_ask_volume s)
    \<and> carries s g
    \<and> (case option_mid_price F (hos k) b of
          None \<Rightarrow> last_pricing b = Some g
        | Some mid \<Rightarrow> solve_iv_and_greeks F mid (spot_mid F bbo)
            (f_div F (f_of_u64 F (oc_strike_price (opt_contract b))) (f_lit F 10000))
            (ch_risk_free_rate ch) (time_to_maturity F (opt_contract b) now)
            (oc_option_type (opt_contract b)) = Some g)"
proof -
  have "ag_contracts snap = List.map_filter (reportable F hos ch bbo now) kks"
    using aggregate_snapshot_unfold [OF assms(1), of F hos bbo now] assms(2)
    by (auto simp: Let_def split: if_splits)
  then obtain k where "reportable F hos ch bbo now k = Some s"
    using assms(3) by (auto simp: List.map_filter_def)
  then obtain b where b: "ch_contracts ch k = Some b"
    and s: "contract_snapshot (hos k)
        (repriced F (hos k) b (spot_mid F bbo) now (ch_risk_free_rate ch)) = Some s"
    by (auto simp: reportable_def snapshot_book_def bind_eq_Some_conv)
  from contract_snapshot_Some [OF s] obtain g where
    "last_pricing (repriced F (hos k) b (spot_mid F bbo) now (ch_risk_free_rate ch)) = Some g"
    and "carries s g" "cs_contract s = opt_contract b" "option_bbo_snapshot (hos k) b
        = (cs_bid_price s, cs_bid_volume s, cs_ask_price s, cs_ask_volume s)"
    by (auto simp: core_cong [OF repriced_core])
  with b show ?thesis
    by (intro exI [of _ k] exI [of _ b] exI [of _ g])
      (auto simp: repriced_pricing split: option.splits)
qed

theorem aggregate_snapshot_greeks_witness:
  "\<exists>ch' snap s. aggregate_snapshot exact_ops [oc_key sample_contract] stale_order stale_chain
         bbo_snapshot_zero 0 = Some (ch', Some snap)
     \<and> s \<in> set (ag_contracts snap) \<and> carries s stale_greeks"
proof -
  let ?k = "oc_key sample_contract"
  let ?b = "repriced exact_ops (stale_order ?k) stale_book (spot_mid exact_ops bbo_snapshot_zero) 0
    (ch_risk_free_rate stale_chain)"
  have visit: "enumerates [?k] (ch_contracts stale_chain)"
    by (simp add: enumerates_def stale_chain_def)
  have books: "ch_contracts stale_chain k = (if k = ?k then Some stale_book else None)" for k
    by (simp add: stale_chain_def)
  have "last_pricing ?b = Some stale_greeks" "option_bbo_snapshot (stale_order ?k) ?b = (50000, 10, 0, 0)"
    using stale_book_simps by (simp_all add: repriced_pricing core_cong [OF repriced_core])
  then obtain s where "reportable exact_ops stale_order stale_chain bbo_snapshot_zero 0 ?k = Some s"
    by (simp add: reportable_def snapshot_book_def books contract_snapshot_def)
  then obtain ch' snap where agg: "aggregate_snapshot exact_ops [?k] stale_order stale_chain
      bbo_snapshot_zero 0 = Some (ch', Some snap)" and s: "s \<in> set (ag_contracts snap)"
    using aggregate_snapshot_unfold [OF visit, of exact_ops stale_order bbo_snapshot_zero 0]
    by (auto simp: List.map_filter_simps MAX_CONTRACTS_PER_CHAIN_def)
  have "carries s stale_greeks"
    using aggregate_snapshot_greeks [OF visit agg s] stale_book_simps
    by (auto simp: books split: if_splits)
  with agg s show ?thesis by blast
qed

end
