(* ===== verification/Option_Manager_Correct.thy ===== *)
theory Option_Manager_Correct
  imports Option_Chain_Correct
begin

text \<open>
  The manager of the option chains under any sequence of what the gateway does to it:
  contracts are registered, spot prices arrive, order events reach the books, chains are
  aggregated.  The run carries the abstract state -- for every registered contract its live
  orders -- and the manager refines it.
\<close>

section \<open>Well-formed chains\<close>

definition coherent :: "option_contract \<Rightarrow> bool" where
  "coherent c \<longleftrightarrow>
     oc_key c = \<lparr>ck_underlying = oc_underlying c, ck_expiry_date = oc_expiry_date c,
                 ck_strike_price = oc_strike_price c, ck_option_type = oc_option_type c\<rparr>"

lemma coherent_new: "coherent (option_contract_new now u e k ot n)"
  by (simp add: coherent_def option_contract_new_def)

lemma coherent_key:
  "coherent c \<Longrightarrow> ck_underlying (oc_key c) = oc_underlying c
     \<and> ck_expiry_date (oc_key c) = oc_expiry_date c \<and> ck_strike_price (oc_key c) = oc_strike_price c"
  by (simp add: coherent_def)

definition chain_ok :: "u64 \<Rightarrow> 'f option_chain \<Rightarrow> bool" where
  "chain_ok u ch \<longleftrightarrow>
     ch_underlying ch = u \<and> finite (dom (ch_contracts ch))
     \<and> sorted_wrt (<) (expiry_dates ch)
     \<and> set (expiry_dates ch) = (\<lambda>k. ck_expiry_date k) ` dom (ch_contracts ch)
     \<and> (\<forall>k b. ch_contracts ch k = Some b \<longrightarrow>
          ck_underlying k = u \<and> oc_key (opt_contract b) = k \<and> coherent (opt_contract b)
          \<and> option_ok b \<and> option_positive b)"

definition chain_live :: "'f option_chain \<Rightarrow> option_contract_key \<Rightarrow> (u64 \<rightharpoonup> order_info) option" where
  "chain_live ch k = map_option option_live (ch_contracts ch k)"

lemma chain_ok_new: "chain_ok u (option_chain_new u rate)"
  by (simp add: chain_ok_def option_chain_new_def)

lemma chain_ok_core:
  fixes ch ch' :: "'f option_chain"
  assumes "chain_ok u ch" "chain_core ch' = chain_core ch" "ch_underlying ch' = ch_underlying ch"
    "expiry_dates ch' = expiry_dates ch"
  shows "chain_ok u ch'" and "chain_live ch' = chain_live ch"
proof -
  have core: "map_option book_core (ch_contracts ch' k) = map_option book_core (ch_contracts ch k)" for k
    using assms(2) by (simp add: chain_core_def fun_eq_iff)
  have dom: "dom (ch_contracts ch') = dom (ch_contracts ch)"
    using core by (metis (mono_tags, lifting) domIff option.map_disc_iff subsetI subset_antisym)
  have book: "\<exists>b. ch_contracts ch k = Some b \<and> book_core b' = book_core b"
    if "ch_contracts ch' k = Some b'" for k b'
    using core [of k] that by (cases "ch_contracts ch k") auto
  show "chain_ok u ch'"
    unfolding chain_ok_def
  proof (intro conjI allI impI)
    fix k b' assume "ch_contracts ch' k = Some b'"
    then obtain b where "ch_contracts ch k = Some b" and eq: "book_core b' = book_core b"
      using book by blast
    with assms(1) show "ck_underlying k = u" "oc_key (opt_contract b') = k"
      "coherent (opt_contract b')" "option_ok b'" "option_positive b'"
      by (simp_all add: chain_ok_def core_cong [OF eq])
  qed (use assms dom in \<open>simp_all add: chain_ok_def\<close>)
  show "chain_live ch' = chain_live ch"
  proof
    fix k show "chain_live ch' k = chain_live ch k"
      using core [of k] core_cong(3)
      by (cases "ch_contracts ch' k"; cases "ch_contracts ch k") (auto simp: chain_live_def)
  qed
qed

lemma sorted_insert_expiry:
  assumes "sorted_wrt (<) (ds :: u32 list)" "d \<notin> set ds"
  shows "sorted_wrt (<) (sort (ds @ [d]))"
  using assms by (simp add: strict_sorted_iff)

lemma register_contract_ok:
  assumes "chain_ok u ch" "coherent c" "oc_underlying c = u"
  shows "chain_ok u (register_contract ch c)"
    and "chain_live (register_contract ch c) = (chain_live ch)(oc_key c \<mapsto> Map.empty)"
proof -
  have key: "ck_expiry_date (oc_key c) = oc_expiry_date c" "ck_underlying (oc_key c) = u"
    using assms(2,3) by (simp_all add: coherent_def)
  have frame: "ch_contracts (register_contract ch c) = (ch_contracts ch)(oc_key c \<mapsto> option_book_new c)"
    "ch_underlying (register_contract ch c) = ch_underlying ch"
    "expiry_dates (register_contract ch c) =
       (if oc_expiry_date c \<in> set (expiry_dates ch) then expiry_dates ch
        else sort (expiry_dates ch @ [oc_expiry_date c]))"
    by (simp_all add: register_contract_def Let_def)
  show "chain_ok u (register_contract ch c)"
    using assms key unfolding chain_ok_def frame
    by (auto simp: option_ok_new sorted_insert_expiry)
  show "chain_live (register_contract ch c) = (chain_live ch)(oc_key c \<mapsto> Map.empty)"
    by (simp add: chain_live_def frame fun_eq_iff)
qed

lemma sorted_dedup: "sorted (xs :: 'a::linorder list) \<Longrightarrow> sorted_wrt (<) (remdups_adj xs)"
  by (induction xs rule: remdups_adj.induct) (auto simp: order_less_le)

lemma strikes_listed:
  assumes "chain_ok u ch" "enumerates kks (ch_contracts ch)"
  shows "sorted_wrt (<) (strikes_for_expiry kks ch e)"
    and "set (strikes_for_expiry kks ch e) =
      {ck_strike_price k | k. k \<in> dom (ch_contracts ch) \<and> ck_expiry_date k = e}"
proof -
  show "sorted_wrt (<) (strikes_for_expiry kks ch e)"
    by (simp add: strikes_for_expiry_def sorted_dedup)
  have "oc_strike_price (opt_contract b) = ck_strike_price k \<and> oc_expiry_date (opt_contract b) = ck_expiry_date k"
    if "ch_contracts ch k = Some b" for k b
    using assms(1) that coherent_key [of "opt_contract b"] by (auto simp: chain_ok_def)
  then show "set (strikes_for_expiry kks ch e) =
      {ck_strike_price k | k. k \<in> dom (ch_contracts ch) \<and> ck_expiry_date k = e}"
    by (force simp: strikes_for_expiry_def set_map_values [OF assms(2)] ran_def)
qed

section \<open>The manager\<close>

definition mgr_ok :: "'f option_chain_manager \<Rightarrow> bool" where
  "mgr_ok m \<longleftrightarrow> (\<forall>u ch. mgr_chains m u = Some ch \<longrightarrow>
     chain_ok u ch \<and> ch_risk_free_rate ch = mgr_risk_free_rate m)"

definition mgr_live :: "'f option_chain_manager \<Rightarrow> option_contract_key \<Rightarrow> (u64 \<rightharpoonup> order_info) option" where
  "mgr_live m k = (case mgr_chains m (ck_underlying k) of None \<Rightarrow> None | Some ch \<Rightarrow> chain_live ch k)"

definition acceptable :: "(u64 \<rightharpoonup> order_info) option \<Rightarrow> option_order_action \<Rightarrow> bool" where
  "acceptable live act \<longleftrightarrow>
     (\<forall>l. live = Some l \<longrightarrow> event_fresh l (as_event act) \<and> event_sized (as_event act))"

lemma put_chain_ok:
  assumes "mgr_ok m" "chain_ok u ch" "ch_risk_free_rate ch = mgr_risk_free_rate m"
  shows "mgr_ok (put_chain m u ch)"
    and "mgr_live (put_chain m u ch) = (\<lambda>k. if ck_underlying k = u then chain_live ch k else mgr_live m k)"
  using assms by (auto simp: mgr_ok_def put_chain_def mgr_live_def fun_eq_iff)

lemma chain_live_None: "chain_ok u ch \<Longrightarrow> ck_underlying k \<noteq> u \<Longrightarrow> chain_live ch k = None"
  by (cases "ch_contracts ch k") (auto simp: chain_ok_def chain_live_def)

lemma get_or_create_chain_ok:
  assumes "mgr_ok m" "get_or_create_chain m u = (m', ch)"
  shows "mgr_ok m'" "mgr_live m' = mgr_live m" "mgr_chains m' u = Some ch"
    "mgr_risk_free_rate m' = mgr_risk_free_rate m"
proof -
  consider "mgr_chains m u = Some ch" "m' = m"
    | "mgr_chains m u = None" "ch = option_chain_new u (mgr_risk_free_rate m)" "m' = put_chain m u ch"
    using assms(2) by (auto simp: get_or_create_chain_def put_chain_def Let_def split: option.splits)
  then have "mgr_ok m' \<and> mgr_live m' = mgr_live m \<and> mgr_chains m' u = Some ch
    \<and> mgr_risk_free_rate m' = mgr_risk_free_rate m"
  proof cases
    case 1
    then show ?thesis using assms(1) by simp
  next
    case 2
    have ok: "chain_ok u ch" "ch_risk_free_rate ch = mgr_risk_free_rate m"
      unfolding 2(2) by (rule chain_ok_new, simp add: option_chain_new_def)
    have "chain_live ch = (\<lambda>k. None)"
      by (simp add: 2(2) chain_live_def option_chain_new_def fun_eq_iff)
    then have "mgr_live m' = mgr_live m"
      using 2(1) put_chain_ok(2) [OF assms(1) ok] by (auto simp: 2(3) mgr_live_def fun_eq_iff)
    moreover have "mgr_ok m'" using put_chain_ok(1) [OF assms(1) ok] by (simp add: 2(3))
    moreover have "mgr_chains m' u = Some ch" "mgr_risk_free_rate m' = mgr_risk_free_rate m"
      by (simp_all add: 2(3) put_chain_def)
    ultimately show ?thesis by simp
  qed
  then show "mgr_ok m'" "mgr_live m' = mgr_live m" "mgr_chains m' u = Some ch"
    "mgr_risk_free_rate m' = mgr_risk_free_rate m"
    by simp_all
qed

text \<open>One book of a chain acts, and is possibly priced afterwards.\<close>

lemma chain_act_ok:
  fixes b b' :: "'f option_book"
  assumes "chain_ok u ch" "ch_contracts ch k = Some b"
    and "book_core b' = book_core (option_book_act b act)"
    and "acceptable (chain_live ch k) act"
  shows "chain_ok u (ch\<lparr>ch_contracts := (ch_contracts ch)(k \<mapsto> b')\<rparr>)"
    and "chain_live (ch\<lparr>ch_contracts := (ch_contracts ch)(k \<mapsto> b')\<rparr>) =
      (chain_live ch)(k := map_option (\<lambda>l. live_step l (as_event act)) (chain_live ch k))"
proof -
  have live: "chain_live ch k = Some (option_live b)" by (simp add: chain_live_def assms(2))
  have b: "option_ok b" "option_positive b" "oc_key (opt_contract b) = k" "coherent (opt_contract b)"
    "ck_underlying k = u"
    using assms(1,2) by (simp_all add: chain_ok_def)
  have "event_fresh (option_live b) (as_event act)" "event_sized (as_event act)"
    using assms(4) by (simp_all add: acceptable_def live)
  then have "option_ok (option_book_act b act)" "option_positive (option_book_act b act)"
    using b by (simp_all add: option_act_ok option_act_positive)
  moreover have "opt_contract (option_book_act b act) = opt_contract b"
    by (cases act) (auto simp: option_add_order_def option_remove_order_def option_delete_order_def
        Let_def split: option.split)
  moreover have "dom ((ch_contracts ch)(k \<mapsto> b')) = dom (ch_contracts ch)"
    using assms(2) by auto
  ultimately show "chain_ok u (ch\<lparr>ch_contracts := (ch_contracts ch)(k \<mapsto> b')\<rparr>)"
    using assms(1) b by (simp add: chain_ok_def core_cong [OF assms(3)] del: dom_fun_upd)
  show "chain_live (ch\<lparr>ch_contracts := (ch_contracts ch)(k \<mapsto> b')\<rparr>) =
      (chain_live ch)(k := map_option (\<lambda>l. live_step l (as_event act)) (chain_live ch k))"
    by (auto simp: chain_live_def fun_eq_iff assms(2) core_cong [OF assms(3)] option_live_act)
qed

lemma apply_event_shape:
  assumes "get_or_create_chain m (ck_underlying (oe_contract_key ev)) = (m1, ch)"
    and "ch_contracts ch (oe_contract_key ev) = Some b"
  shows "\<exists>b'. fst (apply_option_order_event F ks now m ev) =
      put_chain m1 (ck_underlying (oe_contract_key ev))
        (ch\<lparr>ch_contracts := (ch_contracts ch)(oe_contract_key ev \<mapsto> b')\<rparr>)
    \<and> book_core b' = book_core (option_book_act b (oe_action ev))"
proof (cases "last_spot_price ch")
  case None
  then show ?thesis using assms by (auto simp: apply_option_order_event_def Let_def)
next
  case (Some spot)
  let ?b = "option_book_act b (oe_action ev)"
  have "fst (apply_option_order_event F ks now m ev) =
      put_chain m1 (ck_underlying (oe_contract_key ev))
        (ch\<lparr>ch_contracts := (ch_contracts ch)(oe_contract_key ev \<mapsto>
          fst (compute_pricing F ks ?b spot now (mgr_risk_free_rate m)))\<rparr>)"
    using Some assms by (simp add: apply_option_order_event_def Let_def split: prod.split)
  then show ?thesis by (intro exI conjI) (assumption, rule compute_pricing_core)
qed

lemma apply_option_order_event_ok:
  fixes m ev F ks now
  defines "m' \<equiv> fst (apply_option_order_event F ks now m ev)"
    and "k \<equiv> oe_contract_key ev"
  assumes "mgr_ok m" "acceptable (mgr_live m k) (oe_action ev)"
  shows "mgr_ok m' \<and> mgr_live m' =
      (mgr_live m)(k := map_option (\<lambda>l. live_step l (as_event (oe_action ev))) (mgr_live m k))"
proof -
  let ?u = "ck_underlying k"
  obtain m1 ch where get: "get_or_create_chain m ?u = (m1, ch)" by fastforce
  note m1 = get_or_create_chain_ok [OF assms(3) get]
  have ch: "chain_ok ?u ch" "ch_risk_free_rate ch = mgr_risk_free_rate m1"
    using m1 by (simp_all add: mgr_ok_def)
  have live: "mgr_live m k = chain_live ch k"
    using m1(2,3) by (metis (mono_tags) mgr_live_def option.simps(5))
  show ?thesis
  proof (cases "ch_contracts ch k")
    case None
    then have "m' = m1"
      using get by (simp add: m'_def k_def apply_option_order_event_def Let_def)
    moreover have "mgr_live m k = None" using None by (simp add: live chain_live_def)
    ultimately show ?thesis using m1 by (simp add: fun_upd_idem)
  next
    case (Some b)
    then obtain b' where m': "m' = put_chain m1 ?u (ch\<lparr>ch_contracts := (ch_contracts ch)(k \<mapsto> b')\<rparr>)"
      and core: "book_core b' = book_core (option_book_act b (oe_action ev))"
      using apply_event_shape [of m ev m1 ch b F ks now] get by (auto simp: m'_def k_def)
    have acc: "acceptable (chain_live ch k) (oe_action ev)" using assms(4) by (simp add: live)
    note act = chain_act_ok [OF ch(1) Some core acc]
    have rate: "ch_risk_free_rate (ch\<lparr>ch_contracts := (ch_contracts ch)(k \<mapsto> b')\<rparr>) =
        mgr_risk_free_rate m1" using ch(2) by simp
    have other: "mgr_live m j = chain_live ch j" if "ck_underlying j = ?u" for j
      using m1(2,3) that by (metis (mono_tags) mgr_live_def option.simps(5))
    have "mgr_live m' j = ((mgr_live m)(k := map_option (\<lambda>l. live_step l (as_event (oe_action ev)))
        (mgr_live m k))) j" for j
      using put_chain_ok(2) [OF m1(1) act(1) rate] other [of j] m1(2) live
      by (auto simp: m' act(2))
    then show ?thesis using put_chain_ok(1) [OF m1(1) act(1) rate] by (auto simp: m')
  qed
qed

lemma update_spot_core:
  "chain_core (update_spot_price ch s t) = chain_core ch"
  "ch_underlying (update_spot_price ch s t) = ch_underlying ch"
  "expiry_dates (update_spot_price ch s t) = expiry_dates ch"
  "ch_risk_free_rate (update_spot_price ch s t) = ch_risk_free_rate ch"
  by (simp_all add: update_spot_price_def chain_core_def option.map_comp o_def)

lemma aggregate_core:
  assumes "enumerates kks (ch_contracts ch)"
    and "aggregate_snapshot F kks hos ch bbo now = Some (ch', r)"
  shows "chain_core ch' = chain_core ch" "ch_underlying ch' = ch_underlying ch"
    "expiry_dates ch' = expiry_dates ch" "ch_risk_free_rate ch' = ch_risk_free_rate ch"
  using aggregate_snapshot_unfold [OF assms(1), of F hos bbo now] assms(2)
  by (auto simp: Let_def chain_core_def snapshot_book_def option.map_comp o_def split: if_splits)

text \<open>
  The runs of the manager, with the live orders of every registered contract: a registration
  opens a contract with no orders (again, if it was registered before), an order event moves
  the orders of its contract, everything else leaves them alone.
\<close>

inductive mgr_run ::
  "'f float_ops \<Rightarrow> 'f option_chain_manager
     \<Rightarrow> (option_contract_key \<Rightarrow> (u64 \<rightharpoonup> order_info) option) \<Rightarrow> bool" for F where
  start: "mgr_run F (option_chain_manager_new rate) (\<lambda>k. None)"
| register: "mgr_run F m live \<Longrightarrow> coherent c \<Longrightarrow>
    mgr_run F (mgr_register_contract m c) (live(oc_key c \<mapsto> Map.empty))"
| spot: "mgr_run F m live \<Longrightarrow> mgr_run F (mgr_update_spot_price m u s t) live"
| order: "mgr_run F m live \<Longrightarrow> acceptable (live (oe_contract_key ev)) (oe_action ev) \<Longrightarrow>
    mgr_run F (fst (apply_option_order_event F ks now m ev))
      (live(oe_contract_key ev :=
         map_option (\<lambda>l. live_step l (as_event (oe_action ev))) (live (oe_contract_key ev))))"
| aggregate: "mgr_run F m live \<Longrightarrow> mgr_chains m u = Some ch \<Longrightarrow> enumerates kks (ch_contracts ch) \<Longrightarrow>
    aggregate_snapshot F kks hos ch bbo now = Some (ch', r) \<Longrightarrow> mgr_run F (put_chain m u ch') live"

lemma register_ok:
  assumes "mgr_ok m" "coherent c"
  shows "mgr_ok (mgr_register_contract m c)
    \<and> mgr_live (mgr_register_contract m c) = (mgr_live m)(oc_key c \<mapsto> Map.empty)"
proof -
  let ?u = "oc_underlying c"
  obtain m1 ch where get: "get_or_create_chain m ?u = (m1, ch)" by fastforce
  note m1 = get_or_create_chain_ok [OF assms(1) get]
  have ch: "chain_ok ?u ch" "ch_risk_free_rate (register_contract ch c) = mgr_risk_free_rate m1"
    using m1 by (simp_all add: mgr_ok_def register_contract_def Let_def)
  note reg = register_contract_ok [OF ch(1) assms(2) refl]
  have "mgr_live m1 j = chain_live ch j" if "ck_underlying j = ?u" for j
    using m1(3) that by (simp add: mgr_live_def)
  then have "mgr_live (put_chain m1 ?u (register_contract ch c)) = (mgr_live m)(oc_key c \<mapsto> Map.empty)"
    using coherent_key [OF assms(2)] m1(2)
    by (auto simp: put_chain_ok(2) [OF m1(1) reg(1) ch(2)] reg(2) fun_eq_iff)
  then show ?thesis
    using put_chain_ok(1) [OF m1(1) reg(1) ch(2)]
    by (simp add: mgr_register_contract_def get)
qed

text \<open>Putting back a chain whose listings and books are what they were changes nothing.\<close>

lemma put_same_ok:
  assumes "mgr_ok m" "mgr_chains m u = Some ch" "chain_core ch' = chain_core ch"
    and "ch_underlying ch' = ch_underlying ch" "expiry_dates ch' = expiry_dates ch"
    and "ch_risk_free_rate ch' = ch_risk_free_rate ch"
  shows "mgr_ok (put_chain m u ch') \<and> mgr_live (put_chain m u ch') = mgr_live m"
proof -
  have ch: "chain_ok u ch" "ch_risk_free_rate ch' = mgr_risk_free_rate m"
    using assms(1,2,6) by (simp_all add: mgr_ok_def)
  note upd = chain_ok_core [OF ch(1) assms(3-5)]
  have "mgr_live (put_chain m u ch') = mgr_live m"
    using assms(2) upd(2) by (auto simp: put_chain_ok(2) [OF assms(1) upd(1) ch(2)] mgr_live_def fun_eq_iff)
  then show ?thesis using put_chain_ok(1) [OF assms(1) upd(1) ch(2)] by simp
qed

lemma mgr_run_refines: "mgr_run F m live \<Longrightarrow> mgr_ok m \<and> mgr_live m = live"
proof (induction rule: mgr_run.induct)
  case (start rate)
  then show ?case
    by (simp add: mgr_ok_def mgr_live_def option_chain_manager_new_def fun_eq_iff)
next
  case (register m live c)
  then show ?case using register_ok [of m c] by simp
next
  case (spot m live u s t)
  then show ?case
    using put_same_ok [of m u _ "update_spot_price _ s t", OF _ _ update_spot_core]
    by (cases "mgr_chains m u") (simp_all add: mgr_update_spot_price_def)
next
  case (order m live ev ks now)
  then show ?case using apply_option_order_event_ok [of m ev F ks now] by simp
next
  case (aggregate m live u ch kks hos bbo now ch' r)
  then show ?case
    using put_same_ok [OF _ _ aggregate_core [OF aggregate.hyps(3,4)], of m u] by simp
qed

section \<open>Properties\<close>

text \<open>
  C31: however registrations, spot prices, order events and snapshots are interleaved, the
  book of every registered contract of every chain quotes exactly its own live orders: the
  abstract ones, which only that contract's order events move.
\<close>

theorem manager_books_quote_live_orders:
  assumes "mgr_run F m live"
    and "mgr_chains m u = Some ch" "ch_contracts ch k = Some b"
    and "enumerates (ks Buy) (opt_bids b)" "enumerates (ks Sell) (opt_asks b)"
    and "option_bbo_snapshot ks b = (bid, bid_vol, ask, ask_vol)"
  shows "ck_underlying k = u \<and> live k = Some (option_live b)
    \<and> quotes (option_live b) Buy (bid, bid_vol) \<and> quotes (option_live b) Sell (ask, ask_vol)"
proof -
  have m: "chain_ok u ch" "mgr_live m = live"
    using mgr_run_refines [OF assms(1)] assms(2) by (simp_all add: mgr_ok_def)
  then have k: "ck_underlying k = u" and b: "option_ok b" "option_positive b"
    using assms(3) by (simp_all add: chain_ok_def)
  have "live k = Some (option_live b)"
    unfolding m(2) [symmetric] using assms(2,3) k by (simp add: mgr_live_def chain_live_def)
  moreover have "quotes (option_live b) Buy (option_quote ks Buy b)"
    "quotes (option_live b) Sell (option_quote ks Sell b)"
    using option_quote_quotes [OF b] assms(4,5) by simp_all
  ultimately show ?thesis using k assms(6) by (auto simp: option_bbo_quotes)
qed

text \<open>
  C32: in every run, a chain lists its expirations in ascending order without repetition,
  exactly those of its registered contracts, and for each of them the strikes likewise,
  whatever order the hash map is visited in.
\<close>

theorem manager_chain_listings:
  assumes "mgr_run F m live" "mgr_chains m u = Some ch" "enumerates kks (ch_contracts ch)"
  shows "sorted_wrt (<) (expiry_dates ch)
    \<and> set (expiry_dates ch) = {ck_expiry_date k | k. live k \<noteq> None \<and> ck_underlying k = u}
    \<and> sorted_wrt (<) (strikes_for_expiry kks ch e)
    \<and> set (strikes_for_expiry kks ch e) =
        {ck_strike_price k | k. live k \<noteq> None \<and> ck_underlying k = u \<and> ck_expiry_date k = e}"
proof -
  have m: "chain_ok u ch" "mgr_live m = live"
    using mgr_run_refines [OF assms(1)] assms(2) by (simp_all add: mgr_ok_def)
  have live: "live k \<noteq> None \<and> ck_underlying k = u \<longleftrightarrow> k \<in> dom (ch_contracts ch)" for k
    unfolding m(2) [symmetric] using m(1) assms(2)
    by (auto simp: mgr_live_def chain_live_def chain_ok_def)
  have "set (expiry_dates ch) = {ck_expiry_date k | k. k \<in> dom (ch_contracts ch)}"
    using m(1) by (auto simp: chain_ok_def)
  moreover have "sorted_wrt (<) (expiry_dates ch)" using m(1) by (simp add: chain_ok_def)
  moreover have "{ck_expiry_date k | k. live k \<noteq> None \<and> ck_underlying k = u}
      = {ck_expiry_date k | k. k \<in> dom (ch_contracts ch)}"
    "{ck_strike_price k | k. live k \<noteq> None \<and> ck_underlying k = u \<and> ck_expiry_date k = e}
      = {ck_strike_price k | k. k \<in> dom (ch_contracts ch) \<and> ck_expiry_date k = e}"
    using live by blast+
  ultimately show ?thesis using strikes_listed [OF m(1) assms(3)] by simp
qed

text \<open>A short run: one contract, one resting bid.\<close>

definition sample_manager :: "xreal option_chain_manager" where
  "sample_manager = fst (apply_option_order_event exact_ops (\<lambda>sd. []) 0
     (mgr_register_contract (option_chain_manager_new (Fin 0.03)) sample_contract)
     (option_event_add (oc_key sample_contract) 1 Buy 50000 10 0))"

lemma sample_manager_run:
  "\<exists>live. mgr_run exact_ops sample_manager live"
proof -
  have "coherent sample_contract" by (simp add: sample_contract_def coherent_new)
  note reg = mgr_run.register [OF mgr_run.start [of exact_ops "Fin 0.03"] this]
  show ?thesis
    unfolding sample_manager_def
    by (rule exI, rule mgr_run.order [OF reg])
      (simp add: option_event_add_def acceptable_def)
qed

lemma sample_manager_chain:
  "\<exists>ch b. mgr_chains sample_manager 7 = Some ch \<and> ch_contracts ch = [oc_key sample_contract \<mapsto> b]
     \<and> opt_bids b = [50000 \<mapsto> price_level_new 50000 10 1] \<and> opt_asks b = Map.empty"
  by (simp add: sample_manager_def apply_option_order_event_def mgr_register_contract_def
      option_chain_manager_new_def get_or_create_chain_def put_chain_def option_event_add_def
      sample_contract_def option_contract_new_def register_contract_def option_chain_new_def
      option_add_order_def on_levels_def join_level_def option_book_new_def Let_def)
    (intro exI conjI, rule refl, simp_all)

theorem manager_books_quote_live_orders_witness:
  "\<exists>ch b. mgr_chains sample_manager 7 = Some ch \<and> ch_contracts ch (oc_key sample_contract) = Some b
     \<and> quotes (option_live b) Buy (50000, 10)"
proof -
  obtain live where run: "mgr_run exact_ops sample_manager live" using sample_manager_run by blast
  obtain ch b where ch: "mgr_chains sample_manager 7 = Some ch"
    "ch_contracts ch = [oc_key sample_contract \<mapsto> b]"
    and b: "opt_bids b = [50000 \<mapsto> price_level_new 50000 10 1]" "opt_asks b = Map.empty"
    using sample_manager_chain by blast
  let ?ks = "\<lambda>sd. case sd of Buy \<Rightarrow> [50000] | Sell \<Rightarrow> []"
  have visit: "enumerates (?ks Buy) (opt_bids b)" "enumerates (?ks Sell) (opt_asks b)"
    by (simp_all add: enumerates_def b)
  have k: "ch_contracts ch (oc_key sample_contract) = Some b" by (simp add: ch(2))
  have "option_bbo_snapshot ?ks b = (50000, 10, 0, 0)"
    by (simp add: option_bbo_snapshot_def option_best_bid_def option_best_ask_def max_by_key_def
        min_by_key_def b)
  from manager_books_quote_live_orders [OF run ch(1) k visit this] ch(1) k show ?thesis by blast
qed

theorem manager_chain_listings_witness:
  "\<exists>ch. mgr_chains sample_manager 7 = Some ch \<and> sorted_wrt (<) (expiry_dates ch)"
proof -
  obtain live where run: "mgr_run exact_ops sample_manager live" using sample_manager_run by blast
  obtain ch b where ch: "mgr_chains sample_manager 7 = Some ch"
    "ch_contracts ch = [oc_key sample_contract \<mapsto> b]"
    using sample_manager_chain by blast
  have "enumerates [oc_key sample_contract] (ch_contracts ch)" by (simp add: enumerates_def ch(2))
  from manager_chain_listings [OF run ch(1) this] ch(1) show ?thesis by blast
qed

end
