(* ===== verification/Queues.thy ===== *)
theory Queues
  imports Prelude
begin

text \<open>
  The bounded queues between the threads.  The code uses \<open>crossbeam_queue::ArrayQueue\<close>,
  which is a parameter of the model: a record of its operations, and the locale
  \<open>array_queue\<close> for what its documentation promises -- a first-in first-out queue of a
  fixed capacity whose \<open>push\<close> gives the element back when it is full and whose \<open>pop\<close> is
  empty-handed exactly when it is empty.
\<close>

section \<open>The interface\<close>

record ('a, 'q) queue_ops =
  q_push :: "'a \<Rightarrow> 'q \<Rightarrow> 'q option"
  q_pop :: "'q \<Rightarrow> ('a \<times> 'q) option"
  q_len :: "'q \<Rightarrow> nat"

locale array_queue =
  fixes Q :: "('a, 'q) queue_ops"
    and contents :: "'q \<Rightarrow> 'a list"
    and cap :: nat
  assumes push_full: "q_push Q x q = None \<longleftrightarrow> cap \<le> length (contents q)"
    and push_Some: "q_push Q x q = Some q' \<Longrightarrow> contents q' = contents q @ [x]"
    and pop_empty: "q_pop Q q = None \<longleftrightarrow> contents q = []"
    and pop_Some: "q_pop Q q = Some (x, q') \<Longrightarrow> contents q = x # contents q'"
    and len: "q_len Q q = length (contents q)"

section \<open>Draining into a batch\<close>

text \<open>\<open>while batch.len() < n { match queue.pop() { Some(x) => batch.push(x), None => break } }\<close>\<close>

fun drain :: "('a, 'q) queue_ops \<Rightarrow> nat \<Rightarrow> 'q \<Rightarrow> 'a list \<times> 'q" where
  "drain Q 0 q = ([], q)"
| "drain Q (Suc n) q =
     (case q_pop Q q of
        None \<Rightarrow> ([], q)
      | Some (x, q) \<Rightarrow> (let (xs, q) = drain Q n q in (x # xs, q)))"

context array_queue
begin

lemma drain_contents:
  "drain Q n q = (xs, q') \<Longrightarrow> xs = take n (contents q) \<and> contents q' = drop n (contents q)"
proof (induction n arbitrary: q xs)
  case (Suc n)
  show ?case
  proof (cases "q_pop Q q")
    case None
    then show ?thesis using Suc.prems pop_empty [of q] by simp
  next
    case (Some p)
    then obtain x q1 where p: "q_pop Q q = Some (x, q1)" by (cases p) simp
    obtain ys where rest: "drain Q n q1 = (ys, q')" and xs: "xs = x # ys"
      using Suc.prems p by (auto split: prod.splits)
    show ?thesis using Suc.IH [OF rest] pop_Some [OF p] xs by simp
  qed
qed simp

text \<open>A drain that stops early has emptied the queue.\<close>

lemma drain_short: "drain Q n q = (xs, q') \<Longrightarrow> length xs < n \<Longrightarrow> contents q' = []"
  using drain_contents [of n q xs q'] by simp

end

section \<open>A queue of the documented behaviour\<close>

definition list_queue :: "nat \<Rightarrow> ('a, 'a list) queue_ops" where
  "list_queue cap =
     \<lparr>q_push = (\<lambda>x q. if length q < cap then Some (q @ [x]) else None),
      q_pop = (\<lambda>q. case q of [] \<Rightarrow> None | x # q \<Rightarrow> Some (x, q)), q_len = length\<rparr>"

interpretation lq: array_queue "list_queue cap" "\<lambda>q. q" cap for cap
  by unfold_locales (auto simp: list_queue_def split: if_splits list.splits)

end
