(* ===== verification/Pipeline.thy ===== *)
theory Pipeline
  imports Queues Option_Chain
begin

text \<open>
  The queues between the threads of the gateway (src/pipeline.rs).  The four queues have the
  operations of \<open>pipeline_ops\<close>, one record of \<open>queue_ops\<close> each.  A push gives the element
  back (\<open>Inl\<close>) when its queue is full.
\<close>

section \<open>State\<close>

definition EVENT_QUEUE_CAP :: nat where "EVENT_QUEUE_CAP = 2 ^ 16"
definition BBO_QUEUE_CAP :: nat where "BBO_QUEUE_CAP = 2 ^ 14"
definition OPTION_EVENT_QUEUE_CAP :: nat where "OPTION_EVENT_QUEUE_CAP = 2 ^ 16"
definition OPTION_SNAPSHOT_QUEUE_CAP :: nat where "OPTION_SNAPSHOT_QUEUE_CAP = 2 ^ 14"

record ('e, 'b, 'o, 's) pipeline =
  event_tx :: 'e
  bbo_rx :: 'b
  option_event_tx :: 'o
  option_snapshot_rx :: 's

record ('f, 'e, 'b, 'o, 's) pipeline_ops =
  event_ops :: "(itch_event, 'e) queue_ops"
  bbo_ops :: "(bbo_update, 'b) queue_ops"
  option_event_ops :: "(option_order_event, 'o) queue_ops"
  option_snapshot_ops :: "('f aggregated_option_snapshot, 's) queue_ops"

text \<open>The queue constructors are those of the queue crate.\<close>

definition pipeline_new ::
  "(nat \<Rightarrow> 'e) \<Rightarrow> (nat \<Rightarrow> 'b) \<Rightarrow> (nat \<Rightarrow> 'o) \<Rightarrow> (nat \<Rightarrow> 's) \<Rightarrow> ('e, 'b, 'o, 's) pipeline" where
  "pipeline_new new_e new_b new_o new_s =
     \<lparr>event_tx = new_e EVENT_QUEUE_CAP, bbo_rx = new_b BBO_QUEUE_CAP,
      option_event_tx = new_o OPTION_EVENT_QUEUE_CAP,
      option_snapshot_rx = new_s OPTION_SNAPSHOT_QUEUE_CAP\<rparr>"

section \<open>Operations\<close>

definition push_event ::
  "('f, 'e, 'b, 'o, 's) pipeline_ops \<Rightarrow> itch_event \<Rightarrow> ('e, 'b, 'o, 's) pipeline
     \<Rightarrow> (itch_event + unit) \<times> ('e, 'b, 'o, 's) pipeline" where
  "push_event L event pl =
     (case q_push (event_ops L) event (event_tx pl) of
        None \<Rightarrow> (Inl event, pl)
      | Some q \<Rightarrow> (Inr (), pl\<lparr>event_tx := q\<rparr>))"

definition pop_event ::
  "('f, 'e, 'b, 'o, 's) pipeline_ops \<Rightarrow> ('e, 'b, 'o, 's) pipeline
     \<Rightarrow> (itch_event \<times> ('e, 'b, 'o, 's) pipeline) option" where
  "pop_event L pl =
     map_option (\<lambda>(x, q). (x, pl\<lparr>event_tx := q\<rparr>)) (q_pop (event_ops L) (event_tx pl))"

definition pop_bbo ::
  "('f, 'e, 'b, 'o, 's) pipeline_ops \<Rightarrow> ('e, 'b, 'o, 's) pipeline
     \<Rightarrow> (bbo_update \<times> ('e, 'b, 'o, 's) pipeline) option" where
  "pop_bbo L pl =
     map_option (\<lambda>(x, q). (x, pl\<lparr>bbo_rx := q\<rparr>)) (q_pop (bbo_ops L) (bbo_rx pl))"

definition push_option_event ::
  "('f, 'e, 'b, 'o, 's) pipeline_ops \<Rightarrow> option_order_event \<Rightarrow> ('e, 'b, 'o, 's) pipeline
     \<Rightarrow> (option_order_event + unit) \<times> ('e, 'b, 'o, 's) pipeline" where
  "push_option_event L event pl =
     (case q_push (option_event_ops L) event (option_event_tx pl) of
        None \<Rightarrow> (Inl event, pl)
      | Some q \<Rightarrow> (Inr (), pl\<lparr>option_event_tx := q\<rparr>))"

definition pop_option_event ::
  "('f, 'e, 'b, 'o, 's) pipeline_ops \<Rightarrow> ('e, 'b, 'o, 's) pipeline
     \<Rightarrow> (option_order_event \<times> ('e, 'b, 'o, 's) pipeline) option" where
  "pop_option_event L pl =
     map_option (\<lambda>(x, q). (x, pl\<lparr>option_event_tx := q\<rparr>))
       (q_pop (option_event_ops L) (option_event_tx pl))"

definition push_option_snapshot ::
  "('f, 'e, 'b, 'o, 's) pipeline_ops \<Rightarrow> 'f aggregated_option_snapshot \<Rightarrow> ('e, 'b, 'o, 's) pipeline
     \<Rightarrow> ('f aggregated_option_snapshot + unit) \<times> ('e, 'b, 'o, 's) pipeline" where
  "push_option_snapshot L snapshot pl =
     (case q_push (option_snapshot_ops L) snapshot (option_snapshot_rx pl) of
        None \<Rightarrow> (Inl snapshot, pl)
      | Some q \<Rightarrow> (Inr (), pl\<lparr>option_snapshot_rx := q\<rparr>))"

definition pop_option_snapshot ::
  "('f, 'e, 'b, 'o, 's) pipeline_ops \<Rightarrow> ('e, 'b, 'o, 's) pipeline
     \<Rightarrow> ('f aggregated_option_snapshot \<times> ('e, 'b, 'o, 's) pipeline) option" where
  "pop_option_snapshot L pl =
     map_option (\<lambda>(x, q). (x, pl\<lparr>option_snapshot_rx := q\<rparr>))
       (q_pop (option_snapshot_ops L) (option_snapshot_rx pl))"

end
