(* ===== verification/Buffers.thy ===== *)
theory Buffers
  imports Bytes "HOL-Library.Monad_Syntax"
begin

text \<open>
  Writing into a fixed buffer: \<open>buf[pos..pos + n].copy_from_slice(bytes)\<close> followed by
  \<open>pos += n\<close>.  A range outside the buffer panics (\<open>None\<close>).  A writer's state is the
  position and the buffer; \<open>write_fields_append\<close> says that a sequence of writes that
  fits lays its fields out one after the other, whatever the buffer held.
\<close>

type_synonym writer = "nat \<times> u8 list"

definition write_bytes :: "u8 list \<Rightarrow> writer \<Rightarrow> writer option" where
  "write_bytes bs w =
     (let (pos, buf) = w in
      if pos + length bs \<le> length buf
      then Some (pos + length bs, take pos buf @ bs @ drop (pos + length bs) buf)
      else None)"

fun write_fields :: "u8 list list \<Rightarrow> writer \<Rightarrow> writer option" where
  "write_fields [] w = Some w"
| "write_fields (f # fs) w = do { w \<leftarrow> write_bytes f w; write_fields fs w }"

lemma write_fields_Cons:
  "write_fields (f # fs) = (\<lambda>w. Option.bind (write_bytes f w) (write_fields fs))"
  by (simp add: fun_eq_iff)

lemma write_fields_snoc [wire_simps]:
  "write_fields (fs @ gs) w = do { w \<leftarrow> write_fields fs w; write_fields gs w }"
proof (induction fs arbitrary: w)
  case Nil
  then show ?case by simp
next
  case (Cons f fs)
  then show ?case by (cases "write_bytes f w") simp_all
qed

lemma write_bytes_at:
  "length bs \<le> length rest \<Longrightarrow>
     write_bytes bs (length pre, pre @ rest) = Some (length (pre @ bs), (pre @ bs) @ drop (length bs) rest)"
  by (simp add: write_bytes_def)

lemma write_fields_append:
  "length (concat fs) \<le> length rest \<Longrightarrow>
     write_fields fs (length pre, pre @ rest) =
       Some (length (pre @ concat fs), (pre @ concat fs) @ drop (length (concat fs)) rest)"
proof (induction fs arbitrary: pre rest)
  case Nil
  then show ?case by simp
next
  case (Cons f fs)
  then have "write_bytes f (length pre, pre @ rest) =
      Some (length (pre @ f), (pre @ f) @ drop (length f) rest)"
    by (intro write_bytes_at) simp
  then show ?case
    using Cons.IH [of "drop (length f) rest" "pre @ f"] Cons.prems by (simp add: add.commute)
qed

lemma write_fields_fit:
  "length (concat fs) \<le> length buf \<Longrightarrow>
     write_fields fs (0, buf) = Some (length (concat fs), concat fs @ drop (length (concat fs)) buf)"
  using write_fields_append [of fs buf "[]"] by simp

end
