(* ===== verification/Bbo_Wire.thy ===== *)
theory Bbo_Wire
  imports Buffers Single_Book
begin

text \<open>
  \<open>BboUpdate::serialize\<close> of \<open>src/orderbook/mod.rs\<close>: the 216-byte payload of a
  spot message, seven header words and the price and volume of the five best levels of
  each side, little-endian.
\<close>

section \<open>The serialiser\<close>

definition BBO_SERIALIZED_SIZE :: nat where
  "BBO_SERIALIZED_SIZE = 216"

text \<open>\<open>self.top_bids.get(i).copied().unwrap_or(PriceLevel::zero())\<close>\<close>

definition level_or_zero :: "price_level list \<Rightarrow> nat \<Rightarrow> price_level" where
  "level_or_zero ls i = (if i < length ls then ls ! i else price_level_zero)"

fun write_levels :: "nat list \<Rightarrow> price_level list \<Rightarrow> writer \<Rightarrow> writer option" where
  "write_levels [] ls w = Some w"
| "write_levels (i # is) ls w =
     (let level = level_or_zero ls i in
      do {
        w \<leftarrow> write_bytes (u64_to_le_bytes (pl_price level)) w;
        w \<leftarrow> write_bytes (u64_to_le_bytes (pl_volume level)) w;
        write_levels is ls w
      })"

definition bbo_serialize :: "bbo_update \<Rightarrow> u8 list \<Rightarrow> u8 list option" where
  "bbo_serialize u buf = do {
     w \<leftarrow> write_bytes (u64_to_le_bytes (upd_stock u)) (0, buf);
     w \<leftarrow> write_bytes (u64_to_le_bytes (upd_timestamp u)) w;
     w \<leftarrow> write_bytes (u64_to_le_bytes (upd_seq_num u)) w;
     w \<leftarrow> write_bytes (u64_to_le_bytes (upd_bid_price u)) w;
     w \<leftarrow> write_bytes (u64_to_le_bytes (upd_bid_volume u)) w;
     w \<leftarrow> write_bytes (u64_to_le_bytes (upd_ask_price u)) w;
     w \<leftarrow> write_bytes (u64_to_le_bytes (upd_ask_volume u)) w;
     w \<leftarrow> write_levels [0..<5] (top_bids u) w;
     (pos, buf) \<leftarrow> write_levels [0..<5] (top_asks u) w;
     Some buf
   }"

section \<open>The layout\<close>

text \<open>What a receiver sees of the levels: price and volume of the first five.\<close>

definition shown_levels :: "price_level list \<Rightarrow> (u64 \<times> u64) list" where
  "shown_levels ls = map (\<lambda>i. (pl_price (level_or_zero ls i), pl_volume (level_or_zero ls i))) [0..<5]"

definition bbo_words :: "bbo_update \<Rightarrow> u64 list" where
  "bbo_words u =
     [upd_stock u, upd_timestamp u, upd_seq_num u, upd_bid_price u, upd_bid_volume u,
      upd_ask_price u, upd_ask_volume u] @
     concat (map (\<lambda>(p, v). [p, v]) (shown_levels (top_bids u) @ shown_levels (top_asks u)))"

definition bbo_payload :: "bbo_update \<Rightarrow> u8 list" where
  "bbo_payload u = concat (map u64_to_le_bytes (bbo_words u))"

text \<open>The receiver: a payload is a sequence of little-endian words.\<close>

fun read_words :: "nat \<Rightarrow> u8 list \<Rightarrow> u64 list" where
  "read_words 0 bs = []"
| "read_words (Suc n) bs = from_le_bytes (take 8 bs) # read_words n (drop 8 bs)"

lemma read_words_concat: "read_words (length ws) (concat (map u64_to_le_bytes ws) @ rest) = ws"
  by (induction ws) simp_all

lemma length_concat_words [simp]: "length (concat (map u64_to_le_bytes ws)) = 8 * length ws"
  by (induction ws) simp_all

lemma length_bbo_words: "length (bbo_words u) = 27"
  by (simp add: bbo_words_def shown_levels_def upt_rec)

lemma length_bbo_payload [simp]: "length (bbo_payload u) = BBO_SERIALIZED_SIZE"
  by (simp add: bbo_payload_def length_bbo_words BBO_SERIALIZED_SIZE_def)

lemma write_levels_fields:
  "write_levels is ls =
     write_fields (concat (map (\<lambda>i. [u64_to_le_bytes (pl_price (level_or_zero ls i)),
       u64_to_le_bytes (pl_volume (level_or_zero ls i))]) is))"
proof (induction "is")
  case Nil
  then show ?case by (simp add: fun_eq_iff)
next
  case (Cons i "is")
  show ?case
    by (rule ext) (simp add: Let_def write_fields_Cons Cons.IH del: write_fields.simps)
qed

lemma bbo_serialize_fields:
  "bbo_serialize u buf = map_option snd (write_fields (map u64_to_le_bytes (bbo_words u)) (0, buf))"
proof -
  have levels: "map u64_to_le_bytes (concat (map (\<lambda>(p, v). [p, v]) (shown_levels ls))) =
      concat (map (\<lambda>i. [u64_to_le_bytes (pl_price (level_or_zero ls i)),
        u64_to_le_bytes (pl_volume (level_or_zero ls i))]) [0..<5])" for ls
    by (simp add: shown_levels_def map_concat o_def)
  have snd: "do { (pos, buf) \<leftarrow> w; Some buf } = map_option snd w" for w :: "writer option"
    by (cases w) (simp_all add: split_def)
  have bind: "map_option g (Option.bind x f) = Option.bind x (\<lambda>a. map_option g (f a))"
    for g :: "writer \<Rightarrow> u8 list" and x and f :: "writer \<Rightarrow> writer option"
    by (cases x) simp_all
  show ?thesis
    by (simp add: bbo_serialize_def bbo_words_def write_levels_fields levels write_fields_snoc snd
        bind del: upt_Suc)
qed

lemma serialize_payload:
  "length buf = BBO_SERIALIZED_SIZE \<Longrightarrow> bbo_serialize u buf = Some (bbo_payload u)"
  using write_fields_fit [of "map u64_to_le_bytes (bbo_words u)" buf]
  by (simp add: bbo_serialize_fields bbo_payload_def length_bbo_words BBO_SERIALIZED_SIZE_def)

section \<open>Properties\<close>

text \<open>
  Serialising an update into a buffer of the announced size never leaves it: no write
  is out of range, and the payload fills all 216 bytes, so nothing of the buffer's old
  contents is sent.
\<close>

theorem bbo_serialize_fills:
  assumes "length buf = BBO_SERIALIZED_SIZE"
  shows "bbo_serialize u buf = Some (bbo_payload u)"
  using assms by (rule serialize_payload)

theorem bbo_serialize_fills_witness:
  "\<exists>u. upd_stock u = 7 \<and> bbo_serialize u (replicate 216 0) = Some (bbo_payload u)"
proof (intro exI conjI)
  let ?u = "\<lparr>upd_stock = 7, upd_timestamp = 9, upd_seq_num = 0,
      upd_bid_price = 1000000, upd_bid_volume = 100, upd_ask_price = 0, upd_ask_volume = 0,
      top_bids = [], top_asks = []\<rparr>"
  show "upd_stock ?u = 7" by simp
  show "bbo_serialize ?u (replicate 216 0) = Some (bbo_payload ?u)"
    by (rule bbo_serialize_fills) (simp add: BBO_SERIALIZED_SIZE_def)
qed

text \<open>
  C23: Round trip of the spot payload: reading the 27 little-endian words of what was
  written gives the header words and, level by level, the price and volume of the five
  best levels of each side (zeroes where there are fewer).
\<close>

theorem bbo_roundtrip:
  assumes "length buf = BBO_SERIALIZED_SIZE" "bbo_serialize u buf = Some bs"
  shows "read_words 27 bs = bbo_words u"
proof -
  have "bs = bbo_payload u"
    using serialize_payload [OF assms(1)] assms(2) by simp
  then show ?thesis
    using read_words_concat [of "bbo_words u" "[]"] by (simp add: bbo_payload_def length_bbo_words)
qed

theorem bbo_roundtrip_witness:
  "read_words 27 (bbo_payload \<lparr>upd_stock = 7, upd_timestamp = 9, upd_seq_num = 0,
      upd_bid_price = 1000000, upd_bid_volume = 100, upd_ask_price = 0, upd_ask_volume = 0,
      top_bids = [price_level_new 1000000 100 1], top_asks = []\<rparr>) =
   [7, 9, 0, 1000000, 100, 0, 0, 1000000, 100, 0, 0, 0, 0, 0, 0, 0, 0,
    0, 0, 0, 0, 0, 0, 0, 0, 0, 0]"
proof -
  let ?u = "\<lparr>upd_stock = 7, upd_timestamp = 9, upd_seq_num = 0,
      upd_bid_price = 1000000, upd_bid_volume = 100, upd_ask_price = 0, upd_ask_volume = 0,
      top_bids = [price_level_new 1000000 100 1], top_asks = []\<rparr>"
  have "bbo_serialize ?u (replicate 216 0) = Some (bbo_payload ?u)"
    by (rule serialize_payload) (simp add: BBO_SERIALIZED_SIZE_def)
  then have "read_words 27 (bbo_payload ?u) = bbo_words ?u"
    by (rule bbo_roundtrip [rotated]) (simp add: BBO_SERIALIZED_SIZE_def)
  then show ?thesis
    by (simp add: bbo_words_def shown_levels_def level_or_zero_def price_level_zero_def upt_rec)
qed

end
