(* ===== verification/Option_Wire.thy ===== *)
theory Option_Wire
  imports Bbo_Wire Option_Chain
begin

text \<open>
  The wire format of an aggregated option snapshot (\<open>OptionContractSnapshot::serialize\<close> and
  \<open>AggregatedOptionSnapshot::serialize\<close> of src/options/mod.rs).  The bit pattern of a
  double, which is what the code sends, is the argument \<open>bits\<close> (\<open>f64::to_bits\<close>).
\<close>

section \<open>The serialisers\<close>

definition MSG_TYPE_SPOT_BBO :: u8 where "MSG_TYPE_SPOT_BBO = 0"
definition MSG_TYPE_OPTION_SNAPSHOT :: u8 where "MSG_TYPE_OPTION_SNAPSHOT = 1"

definition OPTION_CONTRACT_SERIALIZED_SIZE :: nat where "OPTION_CONTRACT_SERIALIZED_SIZE = 121"

definition OPTION_HEADER_SERIALIZED_SIZE :: nat where
  "OPTION_HEADER_SERIALIZED_SIZE = 1 + 2 + 8 + 8 + 8 + 8 + 8 + 8 + 2"

definition option_type_byte :: "option_type \<Rightarrow> u8" where
  "option_type_byte ot = (case ot of Call \<Rightarrow> 0 | Put \<Rightarrow> 1)"

definition option_contract_serialize ::
  "('f \<Rightarrow> u64) \<Rightarrow> 'f option_contract_snapshot \<Rightarrow> u8 list \<Rightarrow> u8 list option" where
  "option_contract_serialize bits s buf = do {
     w \<leftarrow> write_bytes (u32_to_le_bytes (oc_expiry_date (cs_contract s))) (0, buf);
     w \<leftarrow> write_bytes (u64_to_le_bytes (oc_strike_price (cs_contract s))) w;
     w \<leftarrow> write_bytes [option_type_byte (oc_option_type (cs_contract s))] w;
     w \<leftarrow> write_bytes (u64_to_le_bytes (cs_bid_price s)) w;
     w \<leftarrow> write_bytes (u64_to_le_bytes (cs_bid_volume s)) w;
     w \<leftarrow> write_bytes (u64_to_le_bytes (cs_ask_price s)) w;
     w \<leftarrow> write_bytes (u64_to_le_bytes (cs_ask_volume s)) w;
     w \<leftarrow> write_bytes (u64_to_le_bytes (bits (cs_implied_volatility s))) w;
     w \<leftarrow> write_bytes (u64_to_le_bytes (bits (cs_delta s))) w;
     w \<leftarrow> write_bytes (u64_to_le_bytes (bits (cs_gamma s))) w;
     w \<leftarrow> write_bytes (u64_to_le_bytes (bits (cs_vega s))) w;
     w \<leftarrow> write_bytes (u64_to_le_bytes (bits (cs_theta s))) w;
     w \<leftarrow> write_bytes (u64_to_le_bytes (bits (cs_rho s))) w;
     (pos, buf) \<leftarrow> write_bytes (u64_to_le_bytes (bits (cs_model_price s))) w;
     Some buf
   }"

definition option_serialized_size :: "'f aggregated_option_snapshot \<Rightarrow> nat" where
  "option_serialized_size a =
     OPTION_HEADER_SERIALIZED_SIZE + length (ag_contracts a) * OPTION_CONTRACT_SERIALIZED_SIZE"

fun serialize_contracts ::
  "('f \<Rightarrow> u64) \<Rightarrow> 'f option_contract_snapshot list \<Rightarrow> u8 list \<Rightarrow> u8 list option" where
  "serialize_contracts bits [] buf = Some buf"
| "serialize_contracts bits (s # ss) buf = do {
     contract_buf \<leftarrow> option_contract_serialize bits s (replicate OPTION_CONTRACT_SERIALIZED_SIZE 0);
     serialize_contracts bits ss (buf @ contract_buf)
   }"

definition option_serialize ::
  "('f \<Rightarrow> u64) \<Rightarrow> 'f aggregated_option_snapshot \<Rightarrow> u8 list \<Rightarrow> u8 list option" where
  "option_serialize bits a buf =
     (let total_len = word_of_nat (option_serialized_size a);
          buf = buf @ [MSG_TYPE_OPTION_SNAPSHOT];
          buf = buf @ u16_to_le_bytes total_len;
          buf = buf @ u64_to_le_bytes (ag_underlying a);
          buf = buf @ u64_to_le_bytes (ag_spot_bid_price a);
          buf = buf @ u64_to_le_bytes (ag_spot_bid_volume a);
          buf = buf @ u64_to_le_bytes (ag_spot_ask_price a);
          buf = buf @ u64_to_le_bytes (ag_spot_ask_volume a);
          buf = buf @ u64_to_le_bytes (ag_spot_timestamp a);
          buf = buf @ u16_to_le_bytes (word_of_nat (length (ag_contracts a)))
      in serialize_contracts bits (ag_contracts a) buf)"

section \<open>The layout\<close>

definition record_words :: "('f \<Rightarrow> u64) \<Rightarrow> 'f option_contract_snapshot \<Rightarrow> u64 list" where
  "record_words bits s =
     [cs_bid_price s, cs_bid_volume s, cs_ask_price s, cs_ask_volume s,
      bits (cs_implied_volatility s), bits (cs_delta s), bits (cs_gamma s), bits (cs_vega s),
      bits (cs_theta s), bits (cs_rho s), bits (cs_model_price s)]"

definition record_bytes :: "('f \<Rightarrow> u64) \<Rightarrow> 'f option_contract_snapshot \<Rightarrow> u8 list" where
  "record_bytes bits s =
     u32_to_le_bytes (oc_expiry_date (cs_contract s)) @ u64_to_le_bytes (oc_strike_price (cs_contract s))
     @ [option_type_byte (oc_option_type (cs_contract s))]
     @ concat (map u64_to_le_bytes (record_words bits s)) @ replicate 20 0"

definition header_words :: "'f aggregated_option_snapshot \<Rightarrow> u64 list" where
  "header_words a =
     [ag_underlying a, ag_spot_bid_price a, ag_spot_bid_volume a, ag_spot_ask_price a,
      ag_spot_ask_volume a, ag_spot_timestamp a]"

definition option_bytes :: "('f \<Rightarrow> u64) \<Rightarrow> 'f aggregated_option_snapshot \<Rightarrow> u8 list" where
  "option_bytes bits a =
     [MSG_TYPE_OPTION_SNAPSHOT] @ u16_to_le_bytes (word_of_nat (option_serialized_size a))
     @ concat (map u64_to_le_bytes (header_words a))
     @ u16_to_le_bytes (word_of_nat (length (ag_contracts a)))
     @ concat (map (record_bytes bits) (ag_contracts a))"

lemma length_record_bytes [simp]: "length (record_bytes bits s) = 121"
  by (simp add: record_bytes_def record_words_def)

lemma length_records [simp]: "length (concat (map (record_bytes bits) ss)) = 121 * length ss"
  by (induction ss) simp_all

lemma length_option_bytes [simp]: "length (option_bytes bits a) = option_serialized_size a"
  by (simp add: option_bytes_def header_words_def option_serialized_size_def
      OPTION_HEADER_SERIALIZED_SIZE_def OPTION_CONTRACT_SERIALIZED_SIZE_def)

lemma option_contract_serialize_fields:
  "option_contract_serialize bits s buf = map_option snd (write_fields
     ([u32_to_le_bytes (oc_expiry_date (cs_contract s)), u64_to_le_bytes (oc_strike_price (cs_contract s)),
       [option_type_byte (oc_option_type (cs_contract s))]]
      @ map u64_to_le_bytes (record_words bits s)) (0, buf))"
proof -
  have snd: "do { (pos, buf) \<leftarrow> w; Some buf } = Option.bind w (\<lambda>w. Some (snd w))" for w :: "writer option"
    by (cases w) (simp_all add: split_def)
  have bind: "map_option g (Option.bind x f) = Option.bind x (\<lambda>a. map_option g (f a))"
    for g :: "writer \<Rightarrow> u8 list" and x and f :: "writer \<Rightarrow> writer option"
    by (cases x) simp_all
  show ?thesis
    by (simp add: option_contract_serialize_def record_words_def snd bind)
qed

lemma option_contract_serialize_bytes:
  "option_contract_serialize bits s (replicate OPTION_CONTRACT_SERIALIZED_SIZE 0)
     = Some (record_bytes bits s)"
  unfolding option_contract_serialize_fields
  by (subst write_fields_fit)
    (simp_all add: record_bytes_def record_words_def OPTION_CONTRACT_SERIALIZED_SIZE_def)

lemma serialize_contracts_bytes:
  "serialize_contracts bits ss buf = Some (buf @ concat (map (record_bytes bits) ss))"
  by (induction ss arbitrary: buf) (simp_all add: option_contract_serialize_bytes)

lemma option_serialize_bytes: "option_serialize bits a buf = Some (buf @ option_bytes bits a)"
  by (simp add: option_serialize_def serialize_contracts_bytes option_bytes_def header_words_def
      Let_def)

section \<open>The receiver\<close>

type_synonym option_record = "u32 \<times> u64 \<times> u8 \<times> u64 list"

definition decode_record :: "u8 list \<Rightarrow> option_record" where
  "decode_record bs =
     (from_le_bytes (bytes_at 0 4 bs), from_le_bytes (bytes_at 4 8 bs), bs ! 12,
      read_words 11 (drop 13 bs))"

fun decode_records :: "nat \<Rightarrow> u8 list \<Rightarrow> option_record list" where
  "decode_records 0 bs = []"
| "decode_records (Suc n) bs = decode_record (take 121 bs) # decode_records n (drop 121 bs)"

definition decode_options :: "u8 list \<Rightarrow> u8 \<times> u16 \<times> u64 list \<times> option_record list" where
  "decode_options bs =
     (bs ! 0, from_le_bytes (bytes_at 1 2 bs), read_words 6 (drop 3 bs),
      decode_records (unat (from_le_bytes (bytes_at 51 2 bs) :: u16)) (drop 53 bs))"

definition record_of :: "('f \<Rightarrow> u64) \<Rightarrow> 'f option_contract_snapshot \<Rightarrow> option_record" where
  "record_of bits s =
     (oc_expiry_date (cs_contract s), oc_strike_price (cs_contract s),
      option_type_byte (oc_option_type (cs_contract s)), record_words bits s)"

lemma decode_record_bytes: "decode_record (record_bytes bits s) = record_of bits s"
proof -
  have "length (record_words bits s) = 11" by (simp add: record_words_def)
  then have "read_words 11 (concat (map u64_to_le_bytes (record_words bits s)) @ replicate 20 0)
      = record_words bits s"
    using read_words_concat [of "record_words bits s" "replicate 20 0"] by simp
  then show ?thesis
    by (simp add: decode_record_def record_bytes_def record_of_def bytes_at_def nth_append)
qed

lemma decode_records_bytes:
  "decode_records (length ss) (concat (map (record_bytes bits) ss) @ rest) = map (record_of bits) ss"
  by (induction ss) (simp_all add: decode_record_bytes)

lemma small_sizes:
  assumes "length (ag_contracts a) \<le> MAX_CONTRACTS_PER_CHAIN"
  shows "unat (word_of_nat (option_serialized_size a) :: u16) = option_serialized_size a"
    and "unat (word_of_nat (length (ag_contracts a)) :: u16) = length (ag_contracts a)"
  by (rule unat_u16_of_nat, use assms in \<open>simp add: MAX_CONTRACTS_PER_CHAIN_def
      option_serialized_size_def OPTION_HEADER_SERIALIZED_SIZE_def
      OPTION_CONTRACT_SERIALIZED_SIZE_def\<close>)+

lemma decode_option_bytes:
  assumes "length (ag_contracts a) \<le> MAX_CONTRACTS_PER_CHAIN"
  shows "decode_options (option_bytes bits a @ rest) =
    (MSG_TYPE_OPTION_SNAPSHOT, word_of_nat (option_serialized_size a), header_words a,
     map (record_of bits) (ag_contracts a))"
proof -
  define H where "H = concat (map u64_to_le_bytes (header_words a))"
  have hdr: "length (header_words a) = 6" by (simp add: header_words_def)
  then have H: "length H = 48" by (simp add: H_def)
  have words: "read_words 6 (H @ tl) = header_words a" for tl
    using read_words_concat [of "header_words a" tl] by (simp add: hdr H_def)
  define R where "R = concat (map (record_bytes bits) (ag_contracts a))"
  have bytes: "option_bytes bits a =
      [MSG_TYPE_OPTION_SNAPSHOT] @ u16_to_le_bytes (word_of_nat (option_serialized_size a)) @ H
      @ u16_to_le_bytes (word_of_nat (length (ag_contracts a))) @ R"
    by (simp only: option_bytes_def H_def R_def)
  have "decode_records (length (ag_contracts a)) (R @ rest) = map (record_of bits) (ag_contracts a)"
    unfolding R_def by (rule decode_records_bytes)
  then show ?thesis
    using small_sizes [OF assms] by (simp add: decode_options_def bytes bytes_at_def H words)
qed

section \<open>Properties\<close>

text \<open>
  C34: round trip of the option message.  Serialising a snapshot of at most 128 contracts --
  all a chain's vector can hold -- appends exactly the announced number of bytes, and the
  16-bit length does not overflow; reading the fields back gives the underlying, the spot
  quote and, contract by contract, the terms, the quotes and the bits of the sensitivities,
  whatever follows the message.
\<close>

theorem option_message_roundtrip:
  assumes "length (ag_contracts a) \<le> MAX_CONTRACTS_PER_CHAIN"
  shows "\<exists>bs. option_serialize bits a buf = Some (buf @ bs)
    \<and> length bs = option_serialized_size a
    \<and> unat (from_le_bytes (bytes_at 1 2 bs) :: u16) = length bs
    \<and> decode_options (bs @ rest) =
        (MSG_TYPE_OPTION_SNAPSHOT, word_of_nat (length bs), header_words a,
         map (record_of bits) (ag_contracts a))"
proof -
  have "from_le_bytes (bytes_at 1 2 (option_bytes bits a)) = (word_of_nat (option_serialized_size a) :: u16)"
    by (simp add: option_bytes_def bytes_at_def)
  then show ?thesis
    using decode_option_bytes [OF assms] small_sizes [OF assms]
    by (intro exI [of _ "option_bytes bits a"]) (simp add: option_serialize_bytes)
qed

theorem option_message_roundtrip_witness:
  "\<exists>bs. option_serialize (\<lambda>x. x) \<lparr>ag_underlying = 7, ag_spot_bid_price = 1, ag_spot_bid_volume = 2,
      ag_spot_ask_price = 3, ag_spot_ask_volume = 4, ag_spot_timestamp = 5, ag_contracts = []\<rparr> [] = Some bs
    \<and> length bs = 53
    \<and> decode_options bs = (1, 53, [7, 1, 2, 3, 4, 5], [])"
proof -
  let ?a = "\<lparr>ag_underlying = 7, ag_spot_bid_price = 1, ag_spot_bid_volume = 2, ag_spot_ask_price = 3,
      ag_spot_ask_volume = 4, ag_spot_timestamp = 5, ag_contracts = []\<rparr>"
  have small: "length (ag_contracts ?a) \<le> MAX_CONTRACTS_PER_CHAIN" by simp
  show ?thesis
    using option_message_roundtrip [OF small, of "\<lambda>x. x" "[]" "[]"]
    by (auto simp: option_serialized_size_def OPTION_HEADER_SERIALIZED_SIZE_def header_words_def
        MSG_TYPE_OPTION_SNAPSHOT_def)
qed

text \<open>
  Every contract record ends in twenty zero bytes: its fields take 101 of the 121 bytes
  the format reserves, so the padding carries nothing.
\<close>

theorem option_record_padding:
  "\<exists>fields. option_contract_serialize bits s (replicate OPTION_CONTRACT_SERIALIZED_SIZE 0)
     = Some (fields @ replicate 20 0) \<and> length fields = 101"
proof -
  let ?fields = "take 101 (record_bytes bits s)"
  have "record_bytes bits s = ?fields @ replicate 20 0"
    by (simp add: record_bytes_def record_words_def)
  then show ?thesis
    by (intro exI [of _ ?fields]) (simp add: option_contract_serialize_bytes)
qed

end
