(* ===== verification/Broadcast.thy ===== *)
theory Broadcast
  imports Queues Option_Wire
begin

text \<open>
  The TCP broadcast server (src/network/tcp_broadcast.rs).  A client is its address and the
  bytes its socket has taken so far.  The outcome of \<open>write_all\<close> is the environment's: an
  argument gives it for each position of the client list.  A failed \<open>write_all\<close> may have
  written a part of the data, so its outcomes carry how much.
\<close>

section \<open>State\<close>

definition MAX_CLIENTS :: nat where "MAX_CLIENTS = 256"
definition BROADCAST_QUEUE_CAP :: nat where "BROADCAST_QUEUE_CAP = 2 ^ 15"
definition OPTION_QUEUE_CAP :: nat where "OPTION_QUEUE_CAP = 2 ^ 13"
definition BATCH_SIZE :: nat where "BATCH_SIZE = 64"
definition MAX_OPTION_BATCH :: nat where "MAX_OPTION_BATCH = 16"
definition REMOVE_CAP :: nat where "REMOVE_CAP = 64"

record client =
  cl_addr :: nat
  cl_stream :: "u8 list"

datatype write_outcome = Written | Would_Block nat | Disconnected nat | Write_Error nat

record ('f, 'q, 'p) broadcast_server =
  srv_clients :: "client list"
  broadcast_queue :: 'q
  option_queue :: 'p
  dropped_count :: u64
  option_dropped_count :: u64
  running :: bool

text \<open>A new server has no clients; the queue constructors are those of the queue crate.\<close>

definition broadcast_server_new ::
  "(nat \<Rightarrow> 'q) \<Rightarrow> (nat \<Rightarrow> 'p) \<Rightarrow> ('f, 'q, 'p) broadcast_server" where
  "broadcast_server_new new_q new_p =
     \<lparr>srv_clients = [], broadcast_queue = new_q BROADCAST_QUEUE_CAP,
      option_queue = new_p OPTION_QUEUE_CAP, dropped_count = 0, option_dropped_count = 0,
      running = True\<rparr>"

section \<open>Accepting and removing clients\<close>

definition accept_client :: "client \<Rightarrow> client list \<Rightarrow> client list" where
  "accept_client c clients = (if length clients = MAX_CLIENTS then clients else clients @ [c])"

text \<open>\<open>ArrayVec::swap_remove\<close>: the last element takes the place of the removed one.\<close>

definition swap_remove :: "nat \<Rightarrow> 'a list \<Rightarrow> 'a list" where
  "swap_remove i xs = butlast (xs[i := last xs])"

section \<open>Broadcasting bytes\<close>

definition cl_write :: "u8 list \<Rightarrow> write_outcome \<Rightarrow> client \<Rightarrow> client" where
  "cl_write data r c =
     (let n = (case r of Written \<Rightarrow> length data | Would_Block n \<Rightarrow> n | Disconnected n \<Rightarrow> n
                       | Write_Error n \<Rightarrow> n)
      in c\<lparr>cl_stream := cl_stream c @ take n data\<rparr>)"

text \<open>Whether the error arm of the outcome marks the client for removal.\<close>

definition marks :: "write_outcome \<Rightarrow> bool" where
  "marks r = (case r of Written \<Rightarrow> False | Would_Block _ \<Rightarrow> False | Disconnected _ \<Rightarrow> True
                      | Write_Error _ \<Rightarrow> True)"

text \<open>The loop over the clients; the push onto the vector of 64 indices panics when full.\<close>

fun write_clients ::
  "(nat \<Rightarrow> write_outcome) \<Rightarrow> u8 list \<Rightarrow> nat \<Rightarrow> client list \<Rightarrow> nat list
     \<Rightarrow> (client list \<times> nat list) option" where
  "write_clients res data idx [] to_remove = Some ([], to_remove)"
| "write_clients res data idx (c # cs) to_remove = do {
     to_remove \<leftarrow> (if marks (res idx) then arrayvec_push REMOVE_CAP idx to_remove
                    else Some to_remove);
     (cs, to_remove) \<leftarrow> write_clients res data (Suc idx) cs to_remove;
     Some (cl_write data (res idx) c # cs, to_remove)
   }"

definition broadcast_bytes ::
  "(nat \<Rightarrow> write_outcome) \<Rightarrow> u8 list \<Rightarrow> client list \<Rightarrow> client list option" where
  "broadcast_bytes res data clients = do {
     (clients, to_remove) \<leftarrow> write_clients res data 0 clients [];
     Some (fold swap_remove (rev to_remove) clients)
   }"

section \<open>The broadcast loop\<close>

definition frame_bbo :: "bbo_update \<Rightarrow> u8 list \<Rightarrow> u8 list option" where
  "frame_bbo bbo buf = do {
     let buf = buf @ [MSG_TYPE_SPOT_BBO];
     let buf = buf @ u16_to_le_bytes (word_of_nat BBO_SERIALIZED_SIZE);
     payload \<leftarrow> bbo_serialize bbo (replicate BBO_SERIALIZED_SIZE 0);
     Some (buf @ payload)
   }"

fun frame_bbos :: "bbo_update list \<Rightarrow> u8 list \<Rightarrow> u8 list option" where
  "frame_bbos [] buf = Some buf"
| "frame_bbos (b # bs) buf = do { buf \<leftarrow> frame_bbo b buf; frame_bbos bs buf }"

fun frame_options ::
  "('f \<Rightarrow> u64) \<Rightarrow> 'f aggregated_option_snapshot list \<Rightarrow> u8 list \<Rightarrow> u8 list option" where
  "frame_options bits [] buf = Some buf"
| "frame_options bits (a # as) buf = do {
     buf \<leftarrow> option_serialize bits a buf; frame_options bits as buf }"

text \<open>
  One turn of the loop: both queues are drained into a batch, the batch is serialised and
  written to every client, and the drop counters are reset (their values are only logged).
  An empty batch sleeps and changes nothing.
\<close>

definition broadcast_turn ::
  "(bbo_update, 'q) queue_ops \<Rightarrow> ('f aggregated_option_snapshot, 'p) queue_ops \<Rightarrow> ('f \<Rightarrow> u64)
     \<Rightarrow> (nat \<Rightarrow> write_outcome) \<Rightarrow> ('f, 'q, 'p) broadcast_server
     \<Rightarrow> ('f, 'q, 'p) broadcast_server option" where
  "broadcast_turn Q P bits res srv =
     (let (batch, q) = drain Q BATCH_SIZE (broadcast_queue srv);
          (option_batch, p) = drain P MAX_OPTION_BATCH (option_queue srv);
          srv = srv\<lparr>broadcast_queue := q, option_queue := p\<rparr>
      in if batch = [] \<and> option_batch = [] then Some srv
         else do {
           buf \<leftarrow> frame_bbos batch [];
           buf \<leftarrow> frame_options bits option_batch buf;
           clients \<leftarrow> (if buf \<noteq> [] then broadcast_bytes res buf (srv_clients srv)
                       else Some (srv_clients srv));
           Some (srv\<lparr>srv_clients := clients, dropped_count := 0, option_dropped_count := 0\<rparr>)
         })"

section \<open>The calls of the writer\<close>

definition enqueue_bbo ::
  "(bbo_update, 'q) queue_ops \<Rightarrow> bbo_update \<Rightarrow> ('f, 'q, 'p) broadcast_server
     \<Rightarrow> ('f, 'q, 'p) broadcast_server" where
  "enqueue_bbo Q bbo srv =
     (case q_push Q bbo (broadcast_queue srv) of
        Some q \<Rightarrow> srv\<lparr>broadcast_queue := q\<rparr>
      | None \<Rightarrow> srv\<lparr>dropped_count := dropped_count srv + 1\<rparr>)"

definition broadcast_bbo ::
  "(bbo_update, 'q) queue_ops \<Rightarrow> bbo_update \<Rightarrow> ('f, 'q, 'p) broadcast_server
     \<Rightarrow> ('f, 'q, 'p) broadcast_server" where
  "broadcast_bbo Q bbo srv = enqueue_bbo Q bbo srv"

definition enqueue_option_snapshot ::
  "('f aggregated_option_snapshot, 'p) queue_ops \<Rightarrow> 'f aggregated_option_snapshot
     \<Rightarrow> ('f, 'q, 'p) broadcast_server \<Rightarrow> ('f, 'q, 'p) broadcast_server" where
  "enqueue_option_snapshot P snapshot srv =
     (case q_push P snapshot (option_queue srv) of
        Some p \<Rightarrow> srv\<lparr>option_queue := p\<rparr>
      | None \<Rightarrow> srv\<lparr>option_dropped_count := option_dropped_count srv + 1\<rparr>)"

definition accept_turn ::
  "client \<Rightarrow> ('f, 'q, 'p) broadcast_server \<Rightarrow> ('f, 'q, 'p) broadcast_server" where
  "accept_turn c srv = srv\<lparr>srv_clients := accept_client c (srv_clients srv)\<rparr>"

text \<open>
  One turn of the accept loop: a connection that fails to be had, or is not yet there, is
  logged and slept on; options of the socket that cannot be set are only logged.
\<close>

datatype accept_outcome = Accepted client | Accept_Would_Block | Accept_Error

definition accept_loop_turn ::
  "accept_outcome \<Rightarrow> ('f, 'q, 'p) broadcast_server \<Rightarrow> ('f, 'q, 'p) broadcast_server" where
  "accept_loop_turn result srv =
     (case result of
        Accepted c \<Rightarrow> accept_turn c srv
      | Accept_Would_Block \<Rightarrow> srv
      | Accept_Error \<Rightarrow> srv)"

definition client_count :: "('f, 'q, 'p) broadcast_server \<Rightarrow> nat" where
  "client_count srv = length (srv_clients srv)"

definition queue_len ::
  "(bbo_update, 'q) queue_ops \<Rightarrow> ('f aggregated_option_snapshot, 'p) queue_ops
     \<Rightarrow> ('f, 'q, 'p) broadcast_server \<Rightarrow> nat" where
  "queue_len Q P srv = q_len Q (broadcast_queue srv) + q_len P (option_queue srv)"

definition shutdown :: "('f, 'q, 'p) broadcast_server \<Rightarrow> ('f, 'q, 'p) broadcast_server" where
  "shutdown srv = srv\<lparr>running := False, srv_clients := []\<rparr>"

definition server_drop :: "('f, 'q, 'p) broadcast_server \<Rightarrow> ('f, 'q, 'p) broadcast_server" where
  "server_drop srv = shutdown srv"

end
