(* ===== verification/Gateway.thy ===== *)
theory Gateway
  imports Pipeline Broadcast Order_Book
begin

text \<open>
  The threads of src/main.rs that move data: the consumer of multicast packets, the single
  writer that owns all books, and the statistics monitor.  They share the pipeline and the
  broadcast server.  What the writer reads from its environment while it handles an event
  -- hash map orders and the clock -- is an \<open>env\<close>; \<open>None\<close> is a panic.
\<close>

section \<open>The consumer\<close>

text \<open>
  The loop over the items of a packet.  A full queue gives the event back and the loop drops
  it; a parse error is logged.
\<close>

fun consume_items ::
  "('f, 'e, 'b, 'o, 's) pipeline_ops \<Rightarrow> (protocol_error + itch_event) list
     \<Rightarrow> ('e, 'b, 'o, 's) pipeline \<Rightarrow> ('e, 'b, 'o, 's) pipeline" where
  "consume_items L [] pl = pl"
| "consume_items L (Inr event # items) pl = consume_items L items (snd (push_event L event pl))"
| "consume_items L (Inl error # items) pl = consume_items L items pl"

definition consumer_packet ::
  "byte_reader \<Rightarrow> ('f, 'e, 'b, 'o, 's) pipeline_ops \<Rightarrow> u8 list \<Rightarrow> ('e, 'b, 'o, 's) pipeline
     \<Rightarrow> ('e, 'b, 'o, 's) pipeline option" where
  "consumer_packet rd L packet pl =
     (case parse_multicast_packet rd packet of
        None \<Rightarrow> None
      | Some items \<Rightarrow> Some (consume_items L items pl))"

section \<open>The writer\<close>

definition WRITER_BATCH_SIZE :: nat where "WRITER_BATCH_SIZE = 1024"

record env =
  env_books :: "u64 list"
  env_contracts :: "option_contract_key list"
  env_orders :: "option_contract_key \<Rightarrow> hash_order"
  env_event_now :: u64
  env_now :: u64

text \<open>The books the writer owns, the server it feeds, and the counters of its turn.\<close>

record ('f, 'q, 'p) writer =
  wr_order_book :: order_book
  wr_option_manager :: "'f option_chain_manager"
  wr_server :: "('f, 'q, 'p) broadcast_server"
  events_count :: u64
  bbo_count :: u64
  opt_count :: u64

definition writer_new :: "'f \<Rightarrow> ('f, 'q, 'p) broadcast_server \<Rightarrow> ('f, 'q, 'p) writer" where
  "writer_new risk_free_rate srv =
     \<lparr>wr_order_book = order_book_new,
      wr_option_manager = option_chain_manager_new risk_free_rate,
      wr_server = srv, events_count = 0, bbo_count = 0, opt_count = 0\<rparr>"

definition offer_snapshot ::
  "'f float_ops \<Rightarrow> ('f aggregated_option_snapshot, 'p) queue_ops \<Rightarrow> env \<Rightarrow> u64
     \<Rightarrow> 'f option_chain \<Rightarrow> bbo_snapshot \<Rightarrow> ('f, 'q, 'p) writer \<Rightarrow> ('f, 'q, 'p) writer option" where
  "offer_snapshot F P e underlying chain spot_bbo w = do {
     (chain, result) \<leftarrow> aggregate_snapshot F (env_contracts e) (env_orders e) chain spot_bbo (env_now e);
     let w = w\<lparr>wr_option_manager := put_chain (wr_option_manager w) underlying chain\<rparr>;
     Some (case result of
             None \<Rightarrow> w
           | Some snapshot \<Rightarrow>
               w\<lparr>wr_server := enqueue_option_snapshot P snapshot (wr_server w),
                 opt_count := opt_count w + 1\<rparr>)
   }"

definition spot_of_update :: "bbo_update \<Rightarrow> bbo_snapshot" where
  "spot_of_update bbo =
     \<lparr>bid_price = upd_bid_price bbo, bid_volume = upd_bid_volume bbo,
      ask_price = upd_ask_price bbo, ask_volume = upd_ask_volume bbo\<rparr>"

text \<open>What the writer does with an update its order book published.\<close>

definition writer_publish ::
  "'f float_ops \<Rightarrow> (bbo_update, 'q) queue_ops \<Rightarrow> ('f aggregated_option_snapshot, 'p) queue_ops
     \<Rightarrow> env \<Rightarrow> bbo_update \<Rightarrow> ('f, 'q, 'p) writer \<Rightarrow> ('f, 'q, 'p) writer option" where
  "writer_publish F Q P e bbo w =
     (let w = w\<lparr>wr_server := enqueue_bbo Q bbo (wr_server w), bbo_count := bbo_count w + 1\<rparr>;
          spot_bbo = spot_of_update bbo
      in case bbo_mid_price F spot_bbo of
           None \<Rightarrow> Some w
         | Some spot_price \<Rightarrow>
             (let w = w\<lparr>wr_option_manager := mgr_update_spot_price (wr_option_manager w)
                          (upd_stock bbo) spot_price (upd_timestamp bbo)\<rparr>
              in case get_chain (wr_option_manager w) (upd_stock bbo) of
                   None \<Rightarrow> Some w
                 | Some chain \<Rightarrow> offer_snapshot F P e (upd_stock bbo) chain spot_bbo w))"

definition writer_spot_event ::
  "'f float_ops \<Rightarrow> (bbo_update, 'q) queue_ops \<Rightarrow> ('f aggregated_option_snapshot, 'p) queue_ops
     \<Rightarrow> env \<Rightarrow> itch_event \<Rightarrow> ('f, 'q, 'p) writer \<Rightarrow> ('f, 'q, 'p) writer option" where
  "writer_spot_event F Q P e event w =
     (let (ob, result) = ob_apply (env_books e) (wr_order_book w) event;
          w = w\<lparr>events_count := events_count w + 1, wr_order_book := ob\<rparr>
      in case result of
           None \<Rightarrow> Some w
         | Some bbo \<Rightarrow> writer_publish F Q P e bbo w)"

text \<open>The spot quote of an option event is made up from the chain's last spot price.\<close>

definition option_spot_bbo :: "'f float_ops \<Rightarrow> 'f option_chain \<Rightarrow> bbo_snapshot" where
  "option_spot_bbo F chain =
     (let spot_price = (case last_spot_price chain of None \<Rightarrow> f_lit F 0 | Some s \<Rightarrow> s);
          spot_raw = f_to_u64 F (f_mul F spot_price (f_lit F 10000))
      in \<lparr>bid_price = spot_raw, bid_volume = 0, ask_price = spot_raw, ask_volume = 0\<rparr>)"

definition writer_option_event ::
  "'f float_ops \<Rightarrow> ('f aggregated_option_snapshot, 'p) queue_ops
     \<Rightarrow> env \<Rightarrow> option_order_event \<Rightarrow> ('f, 'q, 'p) writer \<Rightarrow> ('f, 'q, 'p) writer option" where
  "writer_option_event F P e event w =
     (let (m, result) = apply_option_order_event F (env_orders e (oe_contract_key event))
            (env_event_now e) (wr_option_manager w) event;
          w = w\<lparr>events_count := events_count w + 1, wr_option_manager := m\<rparr>
      in case result of
           None \<Rightarrow> Some w
         | Some greeks \<Rightarrow>
             (let underlying = ck_underlying (gs_contract_key greeks) in
              case get_chain (wr_option_manager w) underlying of
                None \<Rightarrow> Some w
              | Some chain \<Rightarrow>
                  offer_snapshot F P e underlying chain (option_spot_bbo F chain) w))"

text \<open>
  The two loops of a turn, with at most \<open>n\<close> events left to take; \<open>es i\<close> gives the
  environment of the event taken when \<open>i\<close> remain after it, for a spot event from the books
  the writer then has (whose map it may have to visit).
\<close>

fun spot_batch ::
  "'f float_ops \<Rightarrow> ('f, 'e, 'b, 'o, 's) pipeline_ops \<Rightarrow> (bbo_update, 'q) queue_ops
     \<Rightarrow> ('f aggregated_option_snapshot, 'p) queue_ops \<Rightarrow> (nat \<Rightarrow> order_book \<Rightarrow> env) \<Rightarrow> nat
     \<Rightarrow> ('e, 'b, 'o, 's) pipeline \<Rightarrow> ('f, 'q, 'p) writer
     \<Rightarrow> (('e, 'b, 'o, 's) pipeline \<times> ('f, 'q, 'p) writer) option" where
  "spot_batch F L Q P es 0 pl w = Some (pl, w)"
| "spot_batch F L Q P es (Suc n) pl w =
     (case pop_event L pl of
        None \<Rightarrow> Some (pl, w)
      | Some (event, pl) \<Rightarrow>
          (case writer_spot_event F Q P (es n (wr_order_book w)) event w of
             None \<Rightarrow> None
           | Some w \<Rightarrow> spot_batch F L Q P es n pl w))"

fun option_batch ::
  "'f float_ops \<Rightarrow> ('f, 'e, 'b, 'o, 's) pipeline_ops
     \<Rightarrow> ('f aggregated_option_snapshot, 'p) queue_ops \<Rightarrow> (nat \<Rightarrow> env) \<Rightarrow> nat
     \<Rightarrow> ('e, 'b, 'o, 's) pipeline \<Rightarrow> ('f, 'q, 'p) writer
     \<Rightarrow> (('e, 'b, 'o, 's) pipeline \<times> ('f, 'q, 'p) writer) option" where
  "option_batch F L P es 0 pl w = Some (pl, w)"
| "option_batch F L P es (Suc n) pl w =
     (case pop_option_event L pl of
        None \<Rightarrow> Some (pl, w)
      | Some (event, pl) \<Rightarrow>
          (case writer_option_event F P (es n) event w of
             None \<Rightarrow> None
           | Some w \<Rightarrow> option_batch F L P es n pl w))"

section \<open>The gateway\<close>

text \<open>The counters the threads share, and whether the writer has reported a crossed book.\<close>

record ('f, 'e, 'b, 'o, 's, 'q, 'p) gateway =
  gw_pipeline :: "('e, 'b, 'o, 's) pipeline"
  gw_writer :: "('f, 'q, 'p) writer"
  total_events :: u64
  total_bbo_updates :: u64
  total_option_updates :: u64
  crossed_reported :: bool

definition gateway_new ::
  "('e, 'b, 'o, 's) pipeline \<Rightarrow> ('f, 'q, 'p) broadcast_server \<Rightarrow> 'f
     \<Rightarrow> ('f, 'e, 'b, 'o, 's, 'q, 'p) gateway" where
  "gateway_new pl srv risk_free_rate =
     \<lparr>gw_pipeline = pl, gw_writer = writer_new risk_free_rate srv, total_events = 0,
      total_bbo_updates = 0, total_option_updates = 0, crossed_reported = False\<rparr>"

text \<open>
  A turn of the writer: the counters are reset, both batches are taken, and -- if there was
  any event -- the totals advance and all books are checked, in the order \<open>ks\<close>.
  Otherwise the writer sleeps.
\<close>

definition begin_turn :: "('f, 'q, 'p) writer \<Rightarrow> ('f, 'q, 'p) writer" where
  "begin_turn w = w\<lparr>events_count := 0, bbo_count := 0, opt_count := 0\<rparr>"

definition end_turn ::
  "u64 list \<Rightarrow> ('f, 'e, 'b, 'o, 's, 'q, 'p) gateway \<Rightarrow> ('f, 'e, 'b, 'o, 's, 'q, 'p) gateway" where
  "end_turn ks gw =
     (let w = gw_writer gw in
      if events_count w > 0 then
        gw\<lparr>total_events := total_events gw + events_count w,
           total_bbo_updates := total_bbo_updates gw + bbo_count w,
           total_option_updates := total_option_updates gw + opt_count w,
           crossed_reported := crossed_reported gw \<or> \<not> all_consistent ks (wr_order_book w)\<rparr>
      else gw)"

definition writer_turn ::
  "'f float_ops \<Rightarrow> ('f, 'e, 'b, 'o, 's) pipeline_ops \<Rightarrow> (bbo_update, 'q) queue_ops
     \<Rightarrow> ('f aggregated_option_snapshot, 'p) queue_ops \<Rightarrow> (nat \<Rightarrow> order_book \<Rightarrow> env)
     \<Rightarrow> (nat \<Rightarrow> env) \<Rightarrow> u64 list
     \<Rightarrow> ('f, 'e, 'b, 'o, 's, 'q, 'p) gateway \<Rightarrow> ('f, 'e, 'b, 'o, 's, 'q, 'p) gateway option" where
  "writer_turn F L Q P es es' ks gw = do {
     let w = begin_turn (gw_writer gw);
     (pl, w) \<leftarrow> spot_batch F L Q P es WRITER_BATCH_SIZE (gw_pipeline gw) w;
     (pl, w) \<leftarrow> option_batch F L P es' WRITER_BATCH_SIZE pl w;
     Some (end_turn ks (gw\<lparr>gw_pipeline := pl, gw_writer := w\<rparr>))
   }"

text \<open>The monitor takes the totals and resets them.\<close>

definition stats_turn ::
  "('f, 'e, 'b, 'o, 's, 'q, 'p) gateway
     \<Rightarrow> (u64 \<times> u64 \<times> u64) \<times> ('f, 'e, 'b, 'o, 's, 'q, 'p) gateway" where
  "stats_turn gw =
     ((total_events gw, total_bbo_updates gw, total_option_updates gw),
      gw\<lparr>total_events := 0, total_bbo_updates := 0, total_option_updates := 0\<rparr>)"

end
