(* ===== verification/Broadcast_Correct.thy ===== *)
theory Broadcast_Correct
  imports Broadcast "HOL-Library.Multiset" "HOL-Library.Sublist"
begin

text \<open>
  The broadcast server: which clients a broadcast keeps, when it panics, what the clients
  receive, and that the receiver can take the stream apart again.
\<close>

section \<open>Removing the marked clients\<close>

lemma length_swap_remove: "xs \<noteq> [] \<Longrightarrow> length (swap_remove i xs) = length xs - 1"
  by (simp add: swap_remove_def)

lemma mset_swap_remove:
  assumes "i < length xs"
  shows "mset (swap_remove i xs) = mset xs - {#xs ! i#}"
proof -
  have ne: "xs \<noteq> []" using assms by auto
  then have ne': "xs[i := last xs] \<noteq> []" by simp
  have "last (xs[i := last xs]) = last xs"
    using ne by (simp add: last_list_update)
  then have "mset (xs[i := last xs]) = mset (swap_remove i xs) + {#last xs#}"
    unfolding swap_remove_def by (metis append_butlast_last_id ne' mset.simps(1) mset.simps(2)
        union_commute union_mset_add_mset_right mset_append add.right_neutral)
  moreover have "mset (xs[i := last xs]) = add_mset (last xs) (mset xs - {#xs ! i#})"
    by (rule mset_update [OF assms])
  ultimately show ?thesis by simp
qed

text \<open>Below the removed position nothing moves.\<close>

lemma nth_swap_remove: "j < i \<Longrightarrow> i < length xs \<Longrightarrow> swap_remove i xs ! j = xs ! j"
  by (simp add: swap_remove_def nth_butlast)

text \<open>Hence removing from the highest index down removes exactly the elements at the indices.\<close>

lemma mset_swap_remove_all:
  "sorted_wrt (>) is \<Longrightarrow> \<forall>i \<in> set is. i < length xs \<Longrightarrow>
     mset (fold swap_remove is xs) = mset xs - mset (map ((!) xs) is)"
proof (induction "is" arbitrary: xs)
  case (Cons i "is")
  let ?xs = "swap_remove i xs"
  have i: "i < length xs" "xs \<noteq> []" using Cons.prems(2) by auto
  have below: "\<forall>j \<in> set is. j < i" using Cons.prems(1) by simp
  then have len: "\<forall>j \<in> set is. j < length ?xs"
    using i length_swap_remove [of xs i] by auto
  have eq: "map ((!) ?xs) is = map ((!) xs) is" using below i(1) by (simp add: nth_swap_remove)
  have "mset (fold swap_remove is ?xs) = mset xs - {#xs ! i#} - mset (map ((!) xs) is)"
    using Cons.IH [of ?xs] Cons.prems(1) len mset_swap_remove [OF i(1)] unfolding eq by simp
  then show ?case by (simp del: mset_map)
qed simp

lemma length_swap_remove_all:
  "length is \<le> length xs \<Longrightarrow> length (fold swap_remove is xs) = length xs - length is"
proof (induction "is" arbitrary: xs)
  case (Cons i "is")
  then have "xs \<noteq> []" by auto
  then show ?case using Cons length_swap_remove [of xs i] by simp
qed simp

section \<open>The loop over the clients\<close>

definition written :: "(nat \<Rightarrow> write_outcome) \<Rightarrow> u8 list \<Rightarrow> nat \<Rightarrow> client list \<Rightarrow> client list" where
  "written res data k cs = map (\<lambda>i. cl_write data (res (k + i)) (cs ! i)) [0..<length cs]"

definition failed :: "(nat \<Rightarrow> write_outcome) \<Rightarrow> nat \<Rightarrow> nat \<Rightarrow> nat list" where
  "failed res k n = filter (\<lambda>i. marks (res i)) [k..<k + n]"

lemma written_Nil [simp]: "written res data k [] = []"
  by (simp add: written_def)

lemma written_Cons: "written res data k (c # cs) = cl_write data (res k) c # written res data (Suc k) cs"
  by (simp add: written_def map_upt_Suc del: upt_Suc)

lemma failed_Suc: "failed res k (Suc n) = (if marks (res k) then [k] else []) @ failed res (Suc k) n"
  by (simp add: failed_def upt_conv_Cons del: upt_Suc)

lemma write_clients_result:
  assumes "length acc \<le> REMOVE_CAP"
  shows "write_clients res data k cs acc =
    (let removed = acc @ failed res k (length cs)
     in if length removed \<le> REMOVE_CAP then Some (written res data k cs, removed) else None)"
  using assms
proof (induction cs arbitrary: k acc)
  case Nil
  then show ?case by (simp add: failed_def)
next
  case (Cons c cs)
  show ?case
  proof (cases "marks (res k) \<and> \<not> length acc < REMOVE_CAP")
    case True
    then show ?thesis by (simp add: arrayvec_push_def failed_Suc)
  next
    case False
    let ?acc = "if marks (res k) then acc @ [k] else acc"
    have "length ?acc \<le> REMOVE_CAP" using False Cons.prems by auto
    from Cons.IH [OF this] False show ?thesis
      by (auto simp: arrayvec_push_def failed_Suc written_Cons Let_def)
  qed
qed

definition survivors :: "(nat \<Rightarrow> write_outcome) \<Rightarrow> u8 list \<Rightarrow> client list \<Rightarrow> client list" where
  "survivors res data cs =
     map (\<lambda>i. cl_write data (res i) (cs ! i)) (filter (\<lambda>i. \<not> marks (res i)) [0..<length cs])"

lemma length_failed_survivors:
  "length (failed res 0 (length cs)) + length (survivors res data cs) = length cs"
  using sum_length_filter_compl [of "\<lambda>i. marks (res i)" "[0..<length cs]"]
  by (simp add: failed_def survivors_def)

lemma mset_map_partition:
  "mset (map f xs) = mset (map f (filter P xs)) + mset (map f (filter (\<lambda>x. \<not> P x) xs))"
  by (induction xs) auto

lemma broadcast_bytes_result:
  "if 64 < length (failed res 0 (length cs)) then broadcast_bytes res data cs = None
   else \<exists>cs'. broadcast_bytes res data cs = Some cs' \<and> mset cs' = mset (survivors res data cs)"
proof (cases "64 < length (failed res 0 (length cs))")
  case True
  then show ?thesis by (simp add: broadcast_bytes_def write_clients_result REMOVE_CAP_def)
next
  case False
  let ?ws = "written res data 0 cs" and ?is = "rev (failed res 0 (length cs))"
  have len: "length ?ws = length cs" by (simp add: written_def)
  have desc: "sorted_wrt (>) ?is" by (simp add: failed_def sorted_wrt_rev sorted_wrt_filter)
  have bound: "\<forall>i \<in> set ?is. i < length ?ws" by (simp add: failed_def len)
  have nth: "map ((!) ?ws) js = map (\<lambda>i. cl_write data (res i) (cs ! i)) js"
    if "set js \<subseteq> {0..<length cs}" for js
    using that by (auto simp: written_def)
  have failed_ws: "map ((!) ?ws) (failed res 0 (length cs)) =
      map (\<lambda>i. cl_write data (res i) (cs ! i)) (failed res 0 (length cs))"
    by (rule nth) (auto simp: failed_def)
  have "mset ?ws = mset (map (\<lambda>i. cl_write data (res i) (cs ! i)) [0..<length cs])"
    by (simp add: written_def)
  also have "\<dots> = mset (map (\<lambda>i. cl_write data (res i) (cs ! i)) (failed res 0 (length cs)))
      + mset (survivors res data cs)"
    unfolding failed_def survivors_def add_0 by (rule mset_map_partition)
  finally have split: "mset ?ws = mset (map ((!) ?ws) ?is) + mset (survivors res data cs)"
    by (simp only: failed_ws rev_map [symmetric] mset_rev)
  have "mset (fold swap_remove ?is ?ws) = mset (survivors res data cs)"
    using mset_swap_remove_all [OF desc bound] split by simp
  then show ?thesis
    using False by (simp add: broadcast_bytes_def write_clients_result REMOVE_CAP_def)
qed

section \<open>The stream\<close>

definition bbo_frame :: "bbo_update \<Rightarrow> u8 list" where
  "bbo_frame u = [MSG_TYPE_SPOT_BBO] @ u16_to_le_bytes (word_of_nat BBO_SERIALIZED_SIZE) @ bbo_payload u"

definition turn_bytes ::
  "('f \<Rightarrow> u64) \<Rightarrow> bbo_update list \<Rightarrow> 'f aggregated_option_snapshot list \<Rightarrow> u8 list" where
  "turn_bytes bits us as = concat (map bbo_frame us) @ concat (map (option_bytes bits) as)"

lemma frame_bbos_bytes: "frame_bbos us buf = Some (buf @ concat (map bbo_frame us))"
proof (induction us arbitrary: buf)
  case (Cons u us)
  have "frame_bbo u buf = Some (buf @ bbo_frame u)"
    using serialize_payload [of "replicate BBO_SERIALIZED_SIZE 0" u]
    by (simp add: frame_bbo_def bbo_frame_def)
  with Cons.IH show ?case by simp
qed simp

lemma frame_options_bytes: "frame_options bits as buf = Some (buf @ concat (map (option_bytes bits) as))"
  by (induction as arbitrary: buf) (simp_all add: option_serialize_bytes)

text \<open>
  The receiver.  The length of a spot message counts what follows its three-byte header, the
  length of an option message counts the header too: the receiver has to look at the type.
\<close>

definition frame_size :: "u8 list \<Rightarrow> nat" where
  "frame_size bs =
     (let n = unat (from_le_bytes (bytes_at 1 2 bs) :: u16)
      in if bs ! 0 = MSG_TYPE_SPOT_BBO then 3 + n else n)"

function split_stream :: "u8 list \<Rightarrow> u8 list list \<times> u8 list" where
  "split_stream bs =
     (if length bs < 3 \<or> frame_size bs < 3 \<or> length bs < frame_size bs then ([], bs)
      else let (fs, rest) = split_stream (drop (frame_size bs) bs)
           in (take (frame_size bs) bs # fs, rest))"
  by pat_completeness auto
termination by (relation "measure length") auto

declare split_stream.simps [simp del]

definition whole_frame :: "u8 list \<Rightarrow> bool" where
  "whole_frame f \<longleftrightarrow> 3 \<le> length f \<and> frame_size f = length f"

lemma frame_size_append: "3 \<le> length f \<Longrightarrow> frame_size (f @ r) = frame_size f"
  by (cases f) (simp_all add: frame_size_def bytes_at_def nth_append)

lemma split_stream_frame:
  assumes "whole_frame f"
  shows "split_stream (f @ r) = (let (fs, rest) = split_stream r in (f # fs, rest))"
  using assms frame_size_append [of f r]
  by (subst split_stream.simps) (simp add: whole_frame_def)

lemma split_stream_frames:
  "\<forall>f \<in> set fs. whole_frame f \<Longrightarrow>
     split_stream (concat fs @ r) = (fs @ fst (split_stream r), snd (split_stream r))"
  by (induction fs) (simp_all add: split_stream_frame split_def Let_def)

lemma split_stream_Nil [simp]: "split_stream [] = ([], [])"
  by (subst split_stream.simps) simp

text \<open>What a whole stream is made of, so that it can be continued.\<close>

lemma split_stream_concat:
  "split_stream bs = (fs, rest) \<Longrightarrow> bs = concat fs @ rest \<and> (\<forall>f \<in> set fs. whole_frame f)"
proof (induction bs arbitrary: fs rest rule: split_stream.induct)
  case (1 bs)
  show ?case
  proof (cases "length bs < 3 \<or> frame_size bs < 3 \<or> length bs < frame_size bs")
    case True
    then show ?thesis using "1.prems" by (simp add: split_stream.simps [of bs])
  next
    case False
    obtain gs where gs: "split_stream (drop (frame_size bs) bs) = (gs, rest)"
      and fs: "fs = take (frame_size bs) bs # gs"
      using "1.prems" False by (auto simp: split_stream.simps [of bs] split: prod.splits)
    have "whole_frame (take (frame_size bs) bs)"
      using False frame_size_append [of "take (frame_size bs) bs" "drop (frame_size bs) bs"]
      by (simp add: whole_frame_def)
    moreover have "drop (frame_size bs) bs = concat gs @ rest \<and> (\<forall>f \<in> set gs. whole_frame f)"
      using "1.IH" [OF False gs] .
    ultimately show ?thesis
      using append_take_drop_id [of "frame_size bs" bs] by (simp add: fs)
  qed
qed

lemma whole_bbo_frame: "whole_frame (bbo_frame u)"
  by (simp add: whole_frame_def bbo_frame_def frame_size_def bytes_at_def BBO_SERIALIZED_SIZE_def
      unat_u16_of_nat)

lemma whole_option_bytes:
  "length (ag_contracts a) \<le> MAX_CONTRACTS_PER_CHAIN \<Longrightarrow> whole_frame (option_bytes bits a)"
  using small_sizes(1) [of a]
  by (simp add: whole_frame_def frame_size_def option_bytes_def bytes_at_def MSG_TYPE_SPOT_BBO_def
      MSG_TYPE_OPTION_SNAPSHOT_def header_words_def option_serialized_size_def
      OPTION_HEADER_SERIALIZED_SIZE_def OPTION_CONTRACT_SERIALIZED_SIZE_def)

lemma split_turn_bytes:
  assumes "split_stream s = (fs, [])"
    and "\<forall>a \<in> set as. length (ag_contracts a) \<le> MAX_CONTRACTS_PER_CHAIN"
  shows "split_stream (s @ turn_bytes bits us as)
    = (fs @ map bbo_frame us @ map (option_bytes bits) as, [])"
proof -
  have "s = concat fs" "\<forall>f \<in> set fs. whole_frame f"
    using split_stream_concat [OF assms(1)] by simp_all
  then have "\<forall>f \<in> set (fs @ map bbo_frame us @ map (option_bytes bits) as). whole_frame f"
    using assms(2) by (auto simp: whole_bbo_frame whole_option_bytes)
  from split_stream_frames [OF this, of "[]"] \<open>s = concat fs\<close> show ?thesis
    by (simp add: turn_bytes_def)
qed

section \<open>A turn of the loop\<close>

lemma option_bytes_nonempty: "option_bytes bits a \<noteq> []"
  by (simp add: option_bytes_def)

lemma turn_bytes_empty: "turn_bytes bits us as = [] \<longleftrightarrow> us = [] \<and> as = []"
  by (auto simp: turn_bytes_def bbo_frame_def option_bytes_nonempty)

lemma broadcast_turn_result:
  assumes "array_queue Q cq capq" "array_queue P cp capp"
    and "broadcast_turn Q P bits res srv = Some srv'"
  defines "us \<equiv> take BATCH_SIZE (cq (broadcast_queue srv))"
    and "as \<equiv> take MAX_OPTION_BATCH (cp (option_queue srv))"
  shows "cq (broadcast_queue srv') = drop BATCH_SIZE (cq (broadcast_queue srv))
    \<and> cp (option_queue srv') = drop MAX_OPTION_BATCH (cp (option_queue srv))
    \<and> (if us = [] \<and> as = []
        then srv_clients srv' = srv_clients srv \<and> dropped_count srv' = dropped_count srv
        else broadcast_bytes res (turn_bytes bits us as) (srv_clients srv) = Some (srv_clients srv')
             \<and> dropped_count srv' = 0)"
proof -
  obtain batch q where q: "drain Q BATCH_SIZE (broadcast_queue srv) = (batch, q)" by fastforce
  obtain obatch p where p: "drain P MAX_OPTION_BATCH (option_queue srv) = (obatch, p)" by fastforce
  have b: "batch = us" "cq q = drop BATCH_SIZE (cq (broadcast_queue srv))"
    using array_queue.drain_contents [OF assms(1) q] by (simp_all add: us_def)
  have o: "obatch = as" "cp p = drop MAX_OPTION_BATCH (cp (option_queue srv))"
    using array_queue.drain_contents [OF assms(2) p] by (simp_all add: as_def)
  have buf: "frame_options bits as (concat (map bbo_frame us)) = Some (turn_bytes bits us as)"
    by (simp add: frame_options_bytes turn_bytes_def)
  show ?thesis
  proof (cases "us = [] \<and> as = []")
    case True
    then show ?thesis
      using assms(3) b o by (auto simp: broadcast_turn_def q p Let_def)
  next
    case False
    then obtain clients where
      "broadcast_bytes res (turn_bytes bits us as) (srv_clients srv) = Some clients"
      "srv' = srv\<lparr>broadcast_queue := q, option_queue := p, srv_clients := clients,
                 dropped_count := 0, option_dropped_count := 0\<rparr>"
      using assms(3) b(1) o(1) buf turn_bytes_empty [of bits us as]
      by (auto simp: broadcast_turn_def q p Let_def frame_bbos_bytes bind_eq_Some_conv
          split: if_splits)
    then show ?thesis using False b o by auto
  qed
qed

section \<open>Runs of the server\<close>

text \<open>
  The writer enqueues, clients connect, the broadcaster takes its turns.  The run records
  the spot updates offered so far, those broadcast, and the number reported as dropped (the
  counter's value when a turn resets it).
\<close>

inductive server_run ::
  "(bbo_update, 'q) queue_ops \<Rightarrow> ('q \<Rightarrow> bbo_update list)
     \<Rightarrow> ('f aggregated_option_snapshot, 'p) queue_ops \<Rightarrow> ('p \<Rightarrow> 'f aggregated_option_snapshot list)
     \<Rightarrow> ('f \<Rightarrow> u64) \<Rightarrow> ('f, 'q, 'p) broadcast_server \<Rightarrow> bbo_update list \<Rightarrow> bbo_update list \<Rightarrow> nat \<Rightarrow> bool"
  for Q cq P cp bits where
  start: "cq (broadcast_queue srv) = [] \<Longrightarrow> cp (option_queue srv) = [] \<Longrightarrow> srv_clients srv = [] \<Longrightarrow>
    dropped_count srv = 0 \<Longrightarrow> server_run Q cq P cp bits srv [] [] 0"
| bbo: "server_run Q cq P cp bits srv offered sent reported \<Longrightarrow>
    server_run Q cq P cp bits (enqueue_bbo Q u srv) (offered @ [u]) sent reported"
| option: "server_run Q cq P cp bits srv offered sent reported \<Longrightarrow>
    server_run Q cq P cp bits (enqueue_option_snapshot P a srv) offered sent reported"
| accept: "server_run Q cq P cp bits srv offered sent reported \<Longrightarrow>
    server_run Q cq P cp bits (accept_turn c srv) offered sent reported"
| turn: "server_run Q cq P cp bits srv offered sent reported \<Longrightarrow>
    broadcast_turn Q P bits res srv = Some srv' \<Longrightarrow>
    server_run Q cq P cp bits srv' offered (sent @ take BATCH_SIZE (cq (broadcast_queue srv)))
      (reported + (unat (dropped_count srv) - unat (dropped_count srv')))"

lemma server_run_accounts:
  assumes "array_queue Q cq capq" "array_queue P cp capp"
    and "server_run Q cq P cp bits srv offered sent reported"
  shows "length (srv_clients srv) \<le> MAX_CLIENTS
    \<and> subseq (sent @ cq (broadcast_queue srv)) offered
    \<and> (length offered < 2 ^ 64 \<longrightarrow>
        length offered = length sent + length (cq (broadcast_queue srv))
          + reported + unat (dropped_count srv))"
  using assms(3)
proof (induction rule: server_run.induct)
  case (bbo srv offered sent reported u)
  note sub = bbo.IH [THEN conjunct2, THEN conjunct1]
  show ?case
  proof (cases "q_push Q u (broadcast_queue srv)")
    case None
    have count: "unat (dropped_count srv + 1) = unat (dropped_count srv) + 1"
      if "length (offered @ [u]) < 2 ^ 64"
      using that bbo.IH by (intro trans [OF unat_u64_add]) simp_all
    have "subseq (sent @ cq (broadcast_queue srv)) (offered @ [u])"
      by (rule subseq_rev_drop_many) (rule sub)
    then show ?thesis using None bbo.IH count by (simp add: enqueue_bbo_def)
  next
    case (Some q)
    have "subseq ((sent @ cq (broadcast_queue srv)) @ [u]) (offered @ [u])"
      by (rule list_emb_append_mono [OF sub]) simp
    then show ?thesis
      using bbo.IH array_queue.push_Some [OF assms(1) Some] Some by (simp add: enqueue_bbo_def)
  qed
next
  case (option srv offered sent reported a)
  then show ?case by (simp add: enqueue_option_snapshot_def split: option.split)
next
  case (accept srv offered sent reported c)
  then show ?case by (auto simp: accept_turn_def accept_client_def)
next
  case (turn srv offered sent reported res srv')
  note res = broadcast_turn_result [OF assms(1,2) turn.hyps(2)]
  have len: "length (srv_clients srv') \<le> length (srv_clients srv)"
  proof -
    have "length cs' \<le> length cs" if "broadcast_bytes res data cs = Some cs'" for data cs cs'
      using broadcast_bytes_result [of res cs data] that length_failed_survivors [of res cs data]
      by (auto split: if_splits dest: mset_eq_length)
    then show ?thesis using res by (auto split: if_splits)
  qed
  have "length (take BATCH_SIZE (cq (broadcast_queue srv))) + length (cq (broadcast_queue srv'))
      = length (cq (broadcast_queue srv))"
    using res by (metis append_take_drop_id length_append)
  moreover have "dropped_count srv' = dropped_count srv \<or> dropped_count srv' = 0"
    using res by (auto split: if_splits)
  moreover have "take BATCH_SIZE (cq (broadcast_queue srv)) @ cq (broadcast_queue srv')
      = cq (broadcast_queue srv)" using res by simp
  ultimately show ?case using turn.IH len by auto
qed simp

section \<open>Properties\<close>

lemma length_failed: "length (failed res 0 n) = card {i. i < n \<and> marks (res i)}"
  using distinct_card [of "failed res 0 n"] by (simp add: failed_def conj_commute)

text \<open>
  C35: a broadcast fails exactly when more than 64 clients fail at once: their indices do not
  fit the vector that collects them, and the push panics.  Otherwise exactly the clients
  whose write failed are removed -- those that would block are kept -- and each of the others
  has been sent the data, in whatever order the removals leave them.
\<close>

theorem broadcast_bytes_keeps_survivors:
  "if 64 < card {i. i < length cs \<and> marks (res i)}
   then broadcast_bytes res data cs = None
   else \<exists>cs'. broadcast_bytes res data cs = Some cs' \<and> mset cs' = mset (survivors res data cs)
     \<and> length cs' + card {i. i < length cs \<and> marks (res i)} = length cs"
proof -
  have "length cs' + length (failed res 0 (length cs)) = length cs"
    if "mset cs' = mset (survivors res data cs)" for cs'
    using mset_eq_length [OF that] length_failed_survivors [of res cs data] by simp
  then show ?thesis
    using broadcast_bytes_result [of res cs data] by (auto simp: length_failed split: if_splits)
qed

lemma client_of_turn:
  assumes "broadcast_bytes res data cs = Some cs'" "c \<in> set cs'"
  shows "\<exists>i < length cs. \<not> marks (res i) \<and> c = cl_write data (res i) (cs ! i)"
proof -
  have "mset cs' = mset (survivors res data cs)"
    using broadcast_bytes_result [of res cs data] assms(1) by (auto split: if_splits)
  then have "c \<in> set (survivors res data cs)" using assms(2) by (metis set_mset_mset)
  then show ?thesis by (auto simp: survivors_def)
qed

lemma client_served:
  assumes "broadcast_bytes res data cs = Some cs'" "i < length cs" "\<not> marks (res i)"
  shows "cl_write data (res i) (cs ! i) \<in> set cs'"
proof -
  have "mset cs' = mset (survivors res data cs)"
    using broadcast_bytes_result [of res cs data] assms(1) by (auto split: if_splits)
  moreover have "cl_write data (res i) (cs ! i) \<in> set (survivors res data cs)"
    using assms(2,3) by (auto simp: survivors_def)
  ultimately show ?thesis by (metis set_mset_mset)
qed

text \<open>A part of a sequence of messages is some of them and the beginning of the next.\<close>

lemma cut_messages:
  "n < length (concat gs) \<Longrightarrow> \<exists>k r t. k < length gs \<and> gs ! k = r @ t \<and> t \<noteq> []
     \<and> n = length (concat (take k gs)) + length r \<and> take n (concat gs) = concat (take k gs) @ r"
proof (induction gs arbitrary: n)
  case (Cons g gs)
  show ?case
  proof (cases "n < length g")
    case True
    then show ?thesis by (intro exI [of _ 0] exI [of _ "take n g"] exI [of _ "drop n g"]) simp
  next
    case False
    then have "n - length g < length (concat gs)" using Cons.prems by simp
    from Cons.IH [OF this] obtain k r t where "k < length gs" "gs ! k = r @ t" "t \<noteq> []"
      "n - length g = length (concat (take k gs)) + length r"
      "take (n - length g) (concat gs) = concat (take k gs) @ r" by blast
    with False show ?thesis by (intro exI [of _ "Suc k"] exI [of _ r] exI [of _ t]) simp
  qed
qed simp

lemma split_stream_incomplete:
  assumes "whole_frame (r @ t)" "t \<noteq> []"
  shows "split_stream r = ([], r)"
proof -
  have "length r < frame_size r" if "3 \<le> length r"
    using assms frame_size_append [OF that, of t] by (simp add: whole_frame_def)
  then show ?thesis by (subst split_stream.simps) auto
qed

text \<open>The receiver takes the bytes that are missing from what comes next.\<close>

lemma split_stream_spliced:
  assumes "whole_frame (r @ t)" "3 \<le> length r" "length t \<le> length d"
  shows "split_stream (r @ d) =
    ((r @ take (length t) d) # fst (split_stream (drop (length t) d)), snd (split_stream (drop (length t) d)))"
proof -
  have "frame_size (r @ take (length t) d) = frame_size (r @ t)"
    using frame_size_append [OF assms(2)] by simp
  then have "whole_frame (r @ take (length t) d)" using assms by (simp add: whole_frame_def)
  from split_stream_frame [OF this, of "drop (length t) d"] show ?thesis
    by (simp add: split_def Let_def)
qed

text \<open>
  C36: what a client reads.  After a turn of the broadcast loop with something to send, every
  remaining client is one of the former, and if its write went through, a receiver that had
  split its stream into whole messages finds there, next, the spot updates of the turn and
  then its option snapshots: the first 64 and 16 of the queues, complete and in order.
\<close>

theorem broadcast_turn_streams:
  assumes "array_queue Q cq capq" "array_queue P cp capp"
    and "broadcast_turn Q P bits res srv = Some srv'"
    and "cq (broadcast_queue srv) \<noteq> [] \<or> cp (option_queue srv) \<noteq> []"
    and "\<forall>a \<in> set (cp (option_queue srv)). length (ag_contracts a) \<le> MAX_CONTRACTS_PER_CHAIN"
    and "c' \<in> set (srv_clients srv')"
  shows "\<exists>i < length (srv_clients srv). cl_addr c' = cl_addr (srv_clients srv ! i)
    \<and> \<not> marks (res i)
    \<and> (\<forall>fs. res i = Written \<longrightarrow> split_stream (cl_stream (srv_clients srv ! i)) = (fs, []) \<longrightarrow>
         split_stream (cl_stream c') =
           (fs @ map bbo_frame (take 64 (cq (broadcast_queue srv)))
               @ map (option_bytes bits) (take 16 (cp (option_queue srv))), []))"
proof -
  let ?us = "take BATCH_SIZE (cq (broadcast_queue srv))"
  let ?as = "take MAX_OPTION_BATCH (cp (option_queue srv))"
  have "\<not> (?us = [] \<and> ?as = [])" using assms(4) by (auto simp: BATCH_SIZE_def MAX_OPTION_BATCH_def)
  then have "broadcast_bytes res (turn_bytes bits ?us ?as) (srv_clients srv) = Some (srv_clients srv')"
    using broadcast_turn_result [OF assms(1-3)] by (auto split: if_splits)
  from client_of_turn [OF this assms(6)] obtain i where i: "i < length (srv_clients srv)"
    "\<not> marks (res i)" "c' = cl_write (turn_bytes bits ?us ?as) (res i) (srv_clients srv ! i)"
    by blast
  have "\<forall>a \<in> set ?as. length (ag_contracts a) \<le> MAX_CONTRACTS_PER_CHAIN"
    using assms(5) by (meson in_set_takeD)
  from split_turn_bytes [OF _ this, of "cl_stream (srv_clients srv ! i)" _ bits ?us] i show ?thesis
    by (intro exI [of _ i]) (auto simp: cl_write_def BATCH_SIZE_def MAX_OPTION_BATCH_def)
qed

definition sample_update :: bbo_update where
  "sample_update = \<lparr>upd_stock = 7, upd_timestamp = 9, upd_seq_num = 0, upd_bid_price = 1000000,
     upd_bid_volume = 100, upd_ask_price = 0, upd_ask_volume = 0, top_bids = [], top_asks = []\<rparr>"

definition sample_server ::
  "(nat, bbo_update list, nat aggregated_option_snapshot list) broadcast_server" where
  "sample_server = \<lparr>srv_clients = [\<lparr>cl_addr = 1, cl_stream = []\<rparr>], broadcast_queue = [sample_update],
     option_queue = [], dropped_count = 0, option_dropped_count = 0, running = True\<rparr>"

theorem broadcast_turn_streams_witness:
  "\<exists>srv' c'. broadcast_turn (list_queue 8) (list_queue 8) (\<lambda>x. 0) (\<lambda>i. Written) sample_server = Some srv'
     \<and> c' \<in> set (srv_clients srv') \<and> split_stream (cl_stream c') = ([bbo_frame sample_update], [])"
proof -
  have "drain (list_queue 8) BATCH_SIZE [sample_update] = ([sample_update], [])"
    "drain (list_queue 8) MAX_OPTION_BATCH ([] :: nat aggregated_option_snapshot list) = ([], [])"
    by (simp_all add: list_queue_def BATCH_SIZE_def MAX_OPTION_BATCH_def eval_nat_numeral)
  then obtain srv' c' where srv': "broadcast_turn (list_queue 8) (list_queue 8) (\<lambda>x. 0) (\<lambda>i. Written)
      sample_server = Some srv'" and c': "srv_clients srv' = [c']"
    by (simp add: broadcast_turn_def sample_server_def frame_bbos_bytes broadcast_bytes_def marks_def
        bbo_frame_def)
  have c'_mem: "c' \<in> set (srv_clients srv')" by (simp add: c')
  have "split_stream (cl_stream c') = ([bbo_frame sample_update], [])"
    using broadcast_turn_streams [OF lq.array_queue_axioms lq.array_queue_axioms srv' _ _ c'_mem]
    by (simp add: sample_server_def)
  then show ?thesis using srv' c'_mem by blast
qed

text \<open>
  C37: nothing is lost unnoticed.  In every run of the server there are at most 256 clients,
  the spot updates broadcast so far and those still queued are the offered ones in order
  (some left out), and the ones left out are exactly those the drop counter has counted --
  reported by a turn already or still in the counter -- while fewer than \<open>2 ^ 64\<close> are offered.
\<close>

theorem server_accounts_for_updates:
  assumes "array_queue Q cq capq" "array_queue P cp capp"
    and "server_run Q cq P cp bits srv offered sent reported"
    and "length offered < 2 ^ 64"
  shows "client_count srv \<le> 256
    \<and> subseq (sent @ cq (broadcast_queue srv)) offered
    \<and> length offered = length (sent @ cq (broadcast_queue srv)) + reported
        + unat (dropped_count srv)"
  using server_run_accounts [OF assms(1-3)] assms(4) by (simp add: client_count_def MAX_CLIENTS_def)

theorem server_accounts_for_updates_witness:
  "\<exists>srv. server_run (list_queue 1) (\<lambda>q. q) (list_queue 1) (\<lambda>q. q) (\<lambda>x :: nat. 0) srv
           [sample_update, sample_update] [] 0
     \<and> broadcast_queue srv = [sample_update] \<and> unat (dropped_count srv) = 1"
proof -
  let ?srv = "sample_server\<lparr>srv_clients := [], broadcast_queue := []\<rparr>"
  let ?enq = "enqueue_bbo (list_queue 1) sample_update"
  have run: "server_run (list_queue 1) (\<lambda>q. q) (list_queue 1) (\<lambda>q. q) (\<lambda>x :: nat. 0) (?enq (?enq ?srv))
      [sample_update, sample_update] [] 0"
    by (rule server_run.bbo [OF server_run.bbo [OF server_run.start], simplified append.simps])
      (simp_all add: sample_server_def)
  have q: "broadcast_queue (?enq (?enq ?srv)) = [sample_update]"
    by (simp add: enqueue_bbo_def list_queue_def sample_server_def)
  have "unat (dropped_count (?enq (?enq ?srv))) = 1"
    using server_accounts_for_updates [OF lq.array_queue_axioms lq.array_queue_axioms run] q by simp
  with run q show ?thesis by blast
qed

text \<open>
  C38: a write that would block.  The client is kept with the first \<open>n\<close> bytes of the batch:
  the whole messages before some message of the batch, and a proper beginning \<open>r\<close> of that one.
  The rest of the batch is never sent: any later successful write continues right there.  So
  when the cut is between two messages, the receiver stays in step but misses the rest of
  the batch.  When it is inside a message, the receiver first waits for the remaining bytes,
  and takes them, once the header is complete, from the front of what comes next: it reads a
  message put together of two, and goes on at that place of the later data.
\<close>

theorem blocked_write_cuts_stream:
  assumes "broadcast_bytes res (turn_bytes bits us as) cs = Some cs'"
    and "i < length cs" "res i = Would_Block n" "n < length (turn_bytes bits us as)"
    and "split_stream (cl_stream (cs ! i)) = (fs, [])"
    and "\<forall>a \<in> set as. length (ag_contracts a) \<le> MAX_CONTRACTS_PER_CHAIN"
  defines "msgs \<equiv> map bbo_frame us @ map (option_bytes bits) as"
  shows "\<exists>k r t c. k < length msgs \<and> msgs ! k = r @ t \<and> t \<noteq> [] \<and> n = length (concat (take k msgs)) + length r
    \<and> c = (cs ! i)\<lparr>cl_stream := cl_stream (cs ! i) @ concat (take k msgs) @ r\<rparr> \<and> c \<in> set cs'
    \<and> split_stream (cl_stream c) = (fs @ take k msgs, r)
    \<and> (\<forall>res' d cs'' j. broadcast_bytes res' d cs' = Some cs'' \<and> j < length cs' \<and> cs' ! j = c \<and> res' j = Written \<longrightarrow>
         c\<lparr>cl_stream := cl_stream c @ d\<rparr> \<in> set cs'')
    \<and> (\<forall>d. split_stream (cl_stream c @ d) = (fs @ take k msgs @ fst (split_stream (r @ d)), snd (split_stream (r @ d))))
    \<and> (\<forall>d. 3 \<le> length r \<and> length t \<le> length d \<longrightarrow> split_stream (r @ d) =
         ((r @ take (length t) d) # fst (split_stream (drop (length t) d)), snd (split_stream (drop (length t) d))))"
proof -
  have data: "turn_bytes bits us as = concat msgs" by (simp add: turn_bytes_def msgs_def)
  obtain k r t where k: "k < length msgs" "msgs ! k = r @ t" "t \<noteq> []" "n = length (concat (take k msgs)) + length r"
    and cut: "take n (concat msgs) = concat (take k msgs) @ r"
    using cut_messages [of n msgs] assms(4) unfolding data by blast
  let ?c = "(cs ! i)\<lparr>cl_stream := cl_stream (cs ! i) @ concat (take k msgs) @ r\<rparr>"
  have whole: "\<forall>f \<in> set msgs. whole_frame f"
    using assms(6) by (auto simp: msgs_def whole_bbo_frame whole_option_bytes)
  then have frame: "whole_frame (r @ t)" using k(1,2) by (metis nth_mem)
  have sent: "cl_stream (cs ! i) = concat fs" and old: "\<forall>f \<in> set fs. whole_frame f"
    using split_stream_concat [OF assms(5)] by simp_all
  have "\<forall>f \<in> set (fs @ take k msgs). whole_frame f" using whole old by (auto dest: in_set_takeD)
  note frames = split_stream_frames [OF this]
  have stream: "split_stream (cl_stream ?c @ d) =
      (fs @ take k msgs @ fst (split_stream (r @ d)), snd (split_stream (r @ d)))" for d
    using frames [of "r @ d"] by (simp add: sent)
  have "\<not> marks (res i)" by (simp add: assms(3) marks_def)
  from client_served [OF assms(1,2) this] have "?c \<in> set cs'"
    by (simp add: assms(3) cl_write_def data cut)
  moreover have "?c\<lparr>cl_stream := cl_stream ?c @ d\<rparr> \<in> set cs''"
    if "broadcast_bytes res' d cs' = Some cs''" "j < length cs'" "cs' ! j = ?c" "res' j = Written" for res' d cs'' j
    using client_served [OF that(1,2)] that(3,4) by (simp add: marks_def cl_write_def)
  moreover have "split_stream (cl_stream ?c) = (fs @ take k msgs, r)"
    using stream [of "[]"] split_stream_incomplete [OF frame k(3)] by simp
  ultimately show ?thesis
    using k stream split_stream_spliced [OF frame]
    by - (rule exI [of _ k], rule exI [of _ r], rule exI [of _ t], rule exI [of _ ?c], blast)
qed

theorem blocked_write_cuts_stream_witness:
  "\<exists>c d. broadcast_bytes (\<lambda>i. Would_Block 100) (bbo_frame sample_update) [\<lparr>cl_addr = 1, cl_stream = []\<rparr>] = Some [c]
     \<and> split_stream (cl_stream c) = ([], take 100 (bbo_frame sample_update))
     \<and> broadcast_bytes (\<lambda>i. Written) (bbo_frame (sample_update\<lparr>upd_seq_num := 1\<rparr>)) [c] = Some [d]
     \<and> fst (split_stream (cl_stream d)) \<noteq> []
     \<and> hd (fst (split_stream (cl_stream d)))
         = take 100 (bbo_frame sample_update) @ take 119 (bbo_frame (sample_update\<lparr>upd_seq_num := 1\<rparr>))"
proof -
  let ?u = sample_update and ?v = "sample_update\<lparr>upd_seq_num := 1\<rparr>"
  let ?c = "\<lparr>cl_addr = 1, cl_stream = take 100 (bbo_frame ?u)\<rparr>"
  have frame: "length (bbo_frame w) = 219" "bbo_frame w \<noteq> []" for w
    using whole_bbo_frame [of w] by (auto simp: bbo_frame_def BBO_SERIALIZED_SIZE_def)
  have data: "turn_bytes (\<lambda>x :: nat. 0) [?u] [] = bbo_frame ?u" by (simp add: turn_bytes_def)
  have "broadcast_bytes (\<lambda>i. Would_Block 100) (bbo_frame ?u) [\<lparr>cl_addr = 1, cl_stream = []\<rparr>] = Some [?c]"
    by (simp add: broadcast_bytes_def marks_def cl_write_def)
  moreover have "broadcast_bytes (\<lambda>i. Written) (bbo_frame ?v) [?c] =
      Some [\<lparr>cl_addr = 1, cl_stream = take 100 (bbo_frame ?u) @ bbo_frame ?v\<rparr>]"
    by (simp add: broadcast_bytes_def marks_def cl_write_def)
  moreover obtain k r t c where "k < length [bbo_frame ?u]" "[bbo_frame ?u] ! k = r @ t"
    "100 = length (concat (take k [bbo_frame ?u])) + length r" "c \<in> set [?c]"
    and split: "split_stream (cl_stream c) = ([] @ take k [bbo_frame ?u], r)"
      "split_stream (cl_stream c @ bbo_frame ?v) = ([] @ take k [bbo_frame ?u] @ fst (split_stream (r @ bbo_frame ?v)),
         snd (split_stream (r @ bbo_frame ?v)))"
      "3 \<le> length r \<and> length t \<le> length (bbo_frame ?v) \<longrightarrow> split_stream (r @ bbo_frame ?v) =
         ((r @ take (length t) (bbo_frame ?v)) # fst (split_stream (drop (length t) (bbo_frame ?v))),
           snd (split_stream (drop (length t) (bbo_frame ?v))))"
    using blocked_write_cuts_stream [of "\<lambda>i. Would_Block 100" "\<lambda>x :: nat. 0" "[?u]" "[]"
        "[\<lparr>cl_addr = 1, cl_stream = []\<rparr>]" "[?c]" 0 100 "[]"] calculation(1) frame
    unfolding data by fastforce
  moreover from this have "k = 0" "c = ?c" "length r = 100" "length t = 119" "r = take 100 (bbo_frame ?u)"
    using frame(1) [of ?u] by (auto dest: arg_cong [of _ _ length])
  ultimately show ?thesis using frame(1) [of ?v] by fastforce
qed

end
