(* ===== verification/Gateway_Correct.thy ===== *)
theory Gateway_Correct
  imports Gateway Order_Book_Correct Broadcast_Correct Protocol_Correct
begin

text \<open>
  The gateway as a whole: what the writer does with the events of the feed, and what every
  interleaving of its threads keeps true.
\<close>

section \<open>The queues of the gateway\<close>

text \<open>What is in each queue, oldest first.\<close>

record ('f, 'e, 'b, 'o, 's, 'q, 'p) queue_views =
  v_event :: "'e \<Rightarrow> itch_event list"
  v_bbo :: "'b \<Rightarrow> bbo_update list"
  v_option_event :: "'o \<Rightarrow> option_order_event list"
  v_option_snapshot :: "'s \<Rightarrow> 'f aggregated_option_snapshot list"
  v_server_bbo :: "'q \<Rightarrow> bbo_update list"
  v_server_option :: "'p \<Rightarrow> 'f aggregated_option_snapshot list"

locale gateway_queues =
  fixes L :: "('f, 'e, 'b, 'o, 's) pipeline_ops"
    and Q :: "(bbo_update, 'q) queue_ops"
    and P :: "('f aggregated_option_snapshot, 'p) queue_ops"
    and V :: "('f, 'e, 'b, 'o, 's, 'q, 'p) queue_views"
  assumes event_queue: "array_queue (event_ops L) (v_event V) EVENT_QUEUE_CAP"
    and bbo_queue: "array_queue (bbo_ops L) (v_bbo V) BBO_QUEUE_CAP"
    and option_event_queue:
      "array_queue (option_event_ops L) (v_option_event V) OPTION_EVENT_QUEUE_CAP"
    and option_snapshot_queue:
      "array_queue (option_snapshot_ops L) (v_option_snapshot V) OPTION_SNAPSHOT_QUEUE_CAP"
    and server_bbo_queue: "array_queue Q (v_server_bbo V) BROADCAST_QUEUE_CAP"
    and server_option_queue: "array_queue P (v_server_option V) OPTION_QUEUE_CAP"

definition list_pipeline ::
  "('f, itch_event list, bbo_update list, option_order_event list,
    'f aggregated_option_snapshot list) pipeline_ops" where
  "list_pipeline =
     \<lparr>event_ops = list_queue EVENT_QUEUE_CAP, bbo_ops = list_queue BBO_QUEUE_CAP,
      option_event_ops = list_queue OPTION_EVENT_QUEUE_CAP,
      option_snapshot_ops = list_queue OPTION_SNAPSHOT_QUEUE_CAP\<rparr>"

definition list_views ::
  "('f, itch_event list, bbo_update list, option_order_event list,
    'f aggregated_option_snapshot list, bbo_update list,
    'f aggregated_option_snapshot list) queue_views" where
  "list_views =
     \<lparr>v_event = (\<lambda>q. q), v_bbo = (\<lambda>q. q), v_option_event = (\<lambda>q. q),
      v_option_snapshot = (\<lambda>q. q), v_server_bbo = (\<lambda>q. q), v_server_option = (\<lambda>q. q)\<rparr>"

interpretation lists: gateway_queues list_pipeline "list_queue BROADCAST_QUEUE_CAP"
  "list_queue OPTION_QUEUE_CAP" list_views
  by unfold_locales
    (auto simp: list_pipeline_def list_views_def list_queue_def split: if_splits list.splits)

section \<open>Feeding the order book\<close>

abbreviation published :: "bbo_update option \<Rightarrow> bbo_update list" where
  "published r \<equiv> (case r of None \<Rightarrow> [] | Some u \<Rightarrow> [u])"

text \<open>
  \<open>feeds ob evs ob' us\<close>: the events \<open>evs\<close>, each handled under some iteration order of the
  books, take the order book from \<open>ob\<close> to \<open>ob'\<close> and publish \<open>us\<close>.
\<close>

inductive feeds ::
  "order_book \<Rightarrow> itch_event list \<Rightarrow> order_book \<Rightarrow> bbo_update list \<Rightarrow> bool" for ob where
  start: "feeds ob [] ob []"
| event: "feeds ob evs ob' us \<Longrightarrow> enumerates ks (books ob') \<Longrightarrow> ob_apply ks ob' ev = (ob'', r) \<Longrightarrow>
    feeds ob (evs @ [ev]) ob'' (us @ published r)"

inductive_cases feeds_NilE: "feeds ob [] ob' us"

lemma feeds_trans: "feeds ob1 evs' ob2 us' \<Longrightarrow> feeds ob evs ob1 us \<Longrightarrow> feeds ob (evs @ evs') ob2 (us @ us')"
  by (induction rule: feeds.induct) (auto simp flip: append_assoc intro: feeds.event)

lemma feeds_step:
  "enumerates ks (books ob) \<Longrightarrow> ob_apply ks ob ev = (ob', r) \<Longrightarrow> feeds ob [ev] ob' (published r)"
  using feeds.event [OF feeds.start, of ks ob ev ob' r] by simp

text \<open>A feed whose events are fresh and sized, one after the other.\<close>

fun market_feed_ok :: "market \<Rightarrow> itch_event list \<Rightarrow> bool" where
  "market_feed_ok m [] \<longleftrightarrow> True"
| "market_feed_ok m (ev # evs) \<longleftrightarrow> event_fresh m ev \<and> event_sized ev \<and> market_feed_ok (market_step m ev) evs"

lemma market_feed_ok_append: "market_feed_ok m (evs @ evs') \<longleftrightarrow> market_feed_ok m evs \<and> market_feed_ok (foldl market_step m evs) evs'"
  by (induction evs arbitrary: m) auto

lemma feeds_market:
  "feeds order_book_new evs ob us \<Longrightarrow> market_feed_ok Map.empty evs \<Longrightarrow>
     market_run ob (foldl market_step Map.empty evs)"
proof (induction rule: feeds.induct)
  case start
  show ?case by (simp add: market_run.start)
next
  case (event evs ob' us ks ev ob'' r)
  then show ?case
    using market_run.event [of ob' "foldl market_step Map.empty evs" ev ks]
    by (simp add: market_feed_ok_append)
qed

lemma finite_books_on_book: "finite (dom (books ob)) \<Longrightarrow> finite (dom (books (fst (on_book ob s ev))))"
  by (simp add: on_book_def get_or_create_def split: option.split prod.split)

lemma finite_books_scan:
  "finite (dom (books ob)) \<Longrightarrow> finite (dom (books (fst (delete_scan ks ob ev r))))"
  by (induction ks) (auto split: option.split prod.split)

lemma finite_books_apply:
  "finite (dom (books ob)) \<Longrightarrow> finite (dom (books (fst (ob_apply ks ob ev))))"
proof (cases ev)
  case (OrderDelete t r)
  then show "finite (dom (books ob)) \<Longrightarrow> ?thesis"
    using finite_books_scan by (simp add: ob_delete_def)
qed (auto simp: ob_add_def ob_replace_def ob_reduce_def finite_books_on_book Let_def
    dest: finite_books_on_book split: option.split prod.split)

lemma feeds_finite: "feeds ob evs ob' us \<Longrightarrow> finite (dom (books ob)) \<Longrightarrow> finite (dom (books ob'))"
proof (induction rule: feeds.induct)
  case (event evs ob' us ks ev ob'' r)
  then show ?case using finite_books_apply [of ob' ks ev] by simp
qed simp

lemma feeds_exist: "finite (dom (books ob)) \<Longrightarrow> \<exists>ob' us. feeds ob evs ob' us"
proof (induction evs rule: rev_induct)
  case Nil
  show ?case using feeds.start by blast
next
  case (snoc ev evs)
  then obtain ob1 us where run: "feeds ob evs ob1 us" by blast
  have "enumerates (sorted_list_of_set (dom (books ob1))) (books ob1)"
    using feeds_finite [OF run snoc.prems] by (simp add: enumerates_def)
  from feeds.event [OF run this, of ev] show ?case by (meson prod.exhaust)
qed

section \<open>No contract is ever registered\<close>

definition no_contracts :: "'f option_chain_manager \<Rightarrow> bool" where
  "no_contracts m \<longleftrightarrow> (\<forall>u ch. mgr_chains m u = Some ch \<longrightarrow> ch_contracts ch = Map.empty)"

lemma no_contracts_new [simp]: "no_contracts (option_chain_manager_new rate)"
  by (simp add: no_contracts_def option_chain_manager_new_def)

lemma no_contracts_put:
  "no_contracts m \<Longrightarrow> ch_contracts ch = Map.empty \<Longrightarrow> no_contracts (put_chain m u ch)"
  by (simp add: no_contracts_def put_chain_def)

lemma no_contracts_spot: "no_contracts m \<Longrightarrow> no_contracts (mgr_update_spot_price m u s t)"
  by (auto simp: mgr_update_spot_price_def update_spot_price_def no_contracts_def put_chain_def
      split: option.split)

lemma price_no_books: "price_books F hos spot now rate kks Map.empty = (Map.empty, [])"
  by (induction kks) simp_all

lemma collect_no_books: "collect_snapshots hos Map.empty kks acc = Some acc"
  by (induction kks) simp_all

lemma aggregate_no_contracts:
  assumes "ch_contracts ch = Map.empty"
  shows "\<exists>ch'. aggregate_snapshot F kks hos ch bbo now = Some (ch', None)
    \<and> ch_contracts ch' = Map.empty"
  using assms
  by (simp add: aggregate_snapshot_def update_spot_price_def update_all_pricing_def Let_def
      price_no_books collect_no_books)

lemma option_event_no_contracts:
  assumes "no_contracts m"
  shows "\<exists>m'. apply_option_order_event F ks now m ev = (m', None) \<and> no_contracts m'"
proof -
  obtain m' ch where get: "get_or_create_chain m (ck_underlying (oe_contract_key ev)) = (m', ch)"
    by fastforce
  then have "no_contracts m'" "ch_contracts ch = Map.empty"
    using assms by (auto simp: get_or_create_chain_def no_contracts_def option_chain_new_def Let_def
        split: option.splits if_splits)
  then show ?thesis by (simp add: apply_option_order_event_def get Let_def)
qed

lemma offer_no_contracts:
  assumes "no_contracts (wr_option_manager w)" "ch_contracts ch = Map.empty"
  shows "\<exists>m'. offer_snapshot F P e u ch bbo w = Some (w\<lparr>wr_option_manager := m'\<rparr>) \<and> no_contracts m'"
proof -
  obtain ch' where "aggregate_snapshot F (env_contracts e) (env_orders e) ch bbo (env_now e)
      = Some (ch', None)" "ch_contracts ch' = Map.empty"
    using aggregate_no_contracts [OF assms(2)] by blast
  with assms(1) show ?thesis by (auto simp: offer_snapshot_def no_contracts_put Let_def)
qed

text \<open>Hence the writer never panics, and its option side never reaches the server.\<close>

lemma writer_publish_idle:
  assumes "no_contracts (wr_option_manager w)"
  shows "\<exists>m'. writer_publish F Q P e u w =
      Some (w\<lparr>wr_server := enqueue_bbo Q u (wr_server w), bbo_count := bbo_count w + 1,
              wr_option_manager := m'\<rparr>) \<and> no_contracts m'"
proof -
  let ?w = "w\<lparr>wr_server := enqueue_bbo Q u (wr_server w), bbo_count := bbo_count w + 1\<rparr>"
  show ?thesis
  proof (cases "bbo_mid_price F (spot_of_update u)")
    case None
    then show ?thesis using assms by (auto simp: writer_publish_def Let_def
          intro!: exI [of _ "wr_option_manager w"])
  next
    case (Some p)
    define m where "m = mgr_update_spot_price (wr_option_manager w) (upd_stock u) p (upd_timestamp u)"
    have m: "no_contracts m" using assms by (simp add: m_def no_contracts_spot)
    show ?thesis
    proof (cases "get_chain m (upd_stock u)")
      case None
      then show ?thesis using Some m
        by (auto simp: writer_publish_def Let_def m_def [symmetric] intro!: exI [of _ m])
    next
      case (Some ch)
      then have "ch_contracts ch = Map.empty" using m by (simp add: get_chain_def no_contracts_def)
      from offer_no_contracts [of "?w\<lparr>wr_option_manager := m\<rparr>", OF _ this] m
      obtain m' where "offer_snapshot F P e (upd_stock u) ch (spot_of_update u)
          (?w\<lparr>wr_option_manager := m\<rparr>) = Some (?w\<lparr>wr_option_manager := m'\<rparr>)" "no_contracts m'"
        by fastforce
      then show ?thesis using \<open>bbo_mid_price F (spot_of_update u) = Some p\<close> Some
        by (auto simp: writer_publish_def Let_def m_def [symmetric])
    qed
  qed
qed

lemma writer_spot_event_idle:
  assumes "no_contracts (wr_option_manager w)" "ob_apply (env_books e) (wr_order_book w) ev = (ob, r)"
  shows "\<exists>m'. writer_spot_event F Q P e ev w =
      Some (w\<lparr>wr_order_book := ob, wr_option_manager := m',
              wr_server := fold (enqueue_bbo Q) (published r) (wr_server w),
              events_count := events_count w + 1,
              bbo_count := bbo_count w + of_nat (length (published r))\<rparr>) \<and> no_contracts m'"
proof (cases r)
  case None
  then show ?thesis using assms
    by (auto simp: writer_spot_event_def intro!: exI [of _ "wr_option_manager w"])
next
  case (Some u)
  obtain m' where "writer_publish F Q P e u (w\<lparr>events_count := events_count w + 1, wr_order_book := ob\<rparr>)
      = Some (w\<lparr>events_count := events_count w + 1, wr_order_book := ob,
          wr_server := enqueue_bbo Q u (wr_server w), bbo_count := bbo_count w + 1,
          wr_option_manager := m'\<rparr>)" "no_contracts m'"
    using writer_publish_idle [of "w\<lparr>events_count := events_count w + 1, wr_order_book := ob\<rparr>" F Q P e u]
      assms(1) by auto
  with Some assms(2) show ?thesis
    by (auto simp: writer_spot_event_def intro!: exI [of _ m'])
qed

lemma writer_option_event_idle:
  assumes "no_contracts (wr_option_manager w)"
  shows "\<exists>m'. writer_option_event F P e ev w =
      Some (w\<lparr>events_count := events_count w + 1, wr_option_manager := m'\<rparr>) \<and> no_contracts m'"
proof -
  obtain m' where "apply_option_order_event F (env_orders e (oe_contract_key ev)) (env_event_now e)
      (wr_option_manager w) ev = (m', None)" "no_contracts m'"
    using option_event_no_contracts [OF assms] by blast
  then show ?thesis by (auto simp: writer_option_event_def intro!: exI [of _ m'])
qed

section \<open>Runs of the gateway\<close>

abbreviation on_server ::
  "(('f, 'q, 'p) broadcast_server \<Rightarrow> ('f, 'q, 'p) broadcast_server)
     \<Rightarrow> ('f, 'e, 'b, 'o, 's, 'q, 'p) gateway \<Rightarrow> ('f, 'e, 'b, 'o, 's, 'q, 'p) gateway" where
  "on_server f gw \<equiv> gw\<lparr>gw_writer := (gw_writer gw)\<lparr>wr_server := f (wr_server (gw_writer gw))\<rparr>\<rparr>"

text \<open>
  A step of one thread: a producer pushes an event, the writer begins a turn, takes an event
  of either kind, ends a turn, the monitor resets the totals, a client connects, which has
  been sent nothing, the broadcaster takes a turn, in which every write ends with an outcome
  that \<open>R\<close> allows.  Between the states stand the events the event queue has accepted in the
  step, those the writer has handled, the updates it has published, and those the broadcaster
  has taken.
\<close>

inductive gw_step ::
  "'f float_ops \<Rightarrow> ('f, 'e, 'b, 'o, 's) pipeline_ops \<Rightarrow> (bbo_update, 'q) queue_ops
     \<Rightarrow> ('f aggregated_option_snapshot, 'p) queue_ops
     \<Rightarrow> ('f, 'e, 'b, 'o, 's, 'q, 'p) queue_views \<Rightarrow> ('f \<Rightarrow> u64) \<Rightarrow> (write_outcome \<Rightarrow> bool)
     \<Rightarrow> ('f, 'e, 'b, 'o, 's, 'q, 'p) gateway \<Rightarrow> itch_event list \<Rightarrow> itch_event list
     \<Rightarrow> bbo_update list \<Rightarrow> bbo_update list \<Rightarrow> ('f, 'e, 'b, 'o, 's, 'q, 'p) gateway \<Rightarrow> bool"
  for F L Q P V bits R gw where
  push: "push_event L ev (gw_pipeline gw) = (r, pl) \<Longrightarrow>
    gw_step F L Q P V bits R gw (if isl r then [] else [ev]) [] [] [] (gw\<lparr>gw_pipeline := pl\<rparr>)"
| push_option: "gw_step F L Q P V bits R gw [] [] [] []
    (gw\<lparr>gw_pipeline := snd (push_option_event L oev (gw_pipeline gw))\<rparr>)"
| begin_turn: "gw_step F L Q P V bits R gw [] [] [] [] (gw\<lparr>gw_writer := begin_turn (gw_writer gw)\<rparr>)"
| spot: "pop_event L (gw_pipeline gw) = Some (ev, pl) \<Longrightarrow>
    enumerates (env_books e) (books (wr_order_book (gw_writer gw))) \<Longrightarrow>
    ob_apply (env_books e) (wr_order_book (gw_writer gw)) ev = (ob, r) \<Longrightarrow>
    writer_spot_event F Q P e ev (gw_writer gw) = Some w \<Longrightarrow>
    gw_step F L Q P V bits R gw [] [ev] (published r) [] (gw\<lparr>gw_pipeline := pl, gw_writer := w\<rparr>)"
| option: "pop_option_event L (gw_pipeline gw) = Some (oev, pl) \<Longrightarrow>
    writer_option_event F P e oev (gw_writer gw) = Some w \<Longrightarrow>
    gw_step F L Q P V bits R gw [] [] [] [] (gw\<lparr>gw_pipeline := pl, gw_writer := w\<rparr>)"
| end_turn: "gw_step F L Q P V bits R gw [] [] [] [] (end_turn ks gw)"
| stats: "gw_step F L Q P V bits R gw [] [] [] [] (snd (stats_turn gw))"
| accept: "cl_stream c = [] \<Longrightarrow>
    gw_step F L Q P V bits R gw [] [] [] [] (on_server (accept_turn c) gw)"
| broadcast: "(\<And>i. R (res i)) \<Longrightarrow> broadcast_turn Q P bits res (wr_server (gw_writer gw)) = Some srv \<Longrightarrow>
    gw_step F L Q P V bits R gw [] [] []
      (take BATCH_SIZE (v_server_bbo V (broadcast_queue (wr_server (gw_writer gw))))) (on_server (\<lambda>_. srv) gw)"

text \<open>The runs, with what all their steps have accepted, handled, published and streamed.\<close>

inductive gw_run ::
  "'f float_ops \<Rightarrow> ('f, 'e, 'b, 'o, 's) pipeline_ops \<Rightarrow> (bbo_update, 'q) queue_ops
     \<Rightarrow> ('f aggregated_option_snapshot, 'p) queue_ops
     \<Rightarrow> ('f, 'e, 'b, 'o, 's, 'q, 'p) queue_views \<Rightarrow> ('f \<Rightarrow> u64) \<Rightarrow> (write_outcome \<Rightarrow> bool)
     \<Rightarrow> ('f, 'e, 'b, 'o, 's, 'q, 'p) gateway \<Rightarrow> itch_event list \<Rightarrow> itch_event list
     \<Rightarrow> bbo_update list \<Rightarrow> bbo_update list \<Rightarrow> bool" for F L Q P V bits R where
  start: "v_event V (event_tx pl) = [] \<Longrightarrow> v_bbo V (bbo_rx pl) = [] \<Longrightarrow>
    v_option_snapshot V (option_snapshot_rx pl) = [] \<Longrightarrow> v_server_bbo V (broadcast_queue srv) = [] \<Longrightarrow>
    v_server_option V (option_queue srv) = [] \<Longrightarrow> srv_clients srv = [] \<Longrightarrow> dropped_count srv = 0 \<Longrightarrow>
    gw_run F L Q P V bits R (gateway_new pl srv rate) [] [] [] []"
| step: "gw_run F L Q P V bits R gw accepted handled sent streamed \<Longrightarrow>
    gw_step F L Q P V bits R gw evs hs us ss gw' \<Longrightarrow>
    gw_run F L Q P V bits R gw' (accepted @ evs) (handled @ hs) (sent @ us) (streamed @ ss)"

lemmas gw_run_push = gw_run.step [OF _ gw_step.push, unfolded append_Nil2]
lemmas gw_run_accept = gw_run.step [OF _ gw_step.accept, unfolded append_Nil2]
lemmas gw_run_broadcast = gw_run.step [OF _ gw_step.broadcast, unfolded append_Nil2]

text \<open>Several steps in a row.\<close>

inductive gw_steps ::
  "'f float_ops \<Rightarrow> ('f, 'e, 'b, 'o, 's) pipeline_ops \<Rightarrow> (bbo_update, 'q) queue_ops
     \<Rightarrow> ('f aggregated_option_snapshot, 'p) queue_ops
     \<Rightarrow> ('f, 'e, 'b, 'o, 's, 'q, 'p) queue_views \<Rightarrow> ('f \<Rightarrow> u64) \<Rightarrow> (write_outcome \<Rightarrow> bool)
     \<Rightarrow> ('f, 'e, 'b, 'o, 's, 'q, 'p) gateway \<Rightarrow> itch_event list \<Rightarrow> itch_event list
     \<Rightarrow> bbo_update list \<Rightarrow> bbo_update list \<Rightarrow> ('f, 'e, 'b, 'o, 's, 'q, 'p) gateway \<Rightarrow> bool"
  for F L Q P V bits R where
  idle: "gw_steps F L Q P V bits R gw [] [] [] [] gw"
| step: "gw_step F L Q P V bits R gw evs hs us ss gw1 \<Longrightarrow>
    gw_steps F L Q P V bits R gw1 evs' hs' us' ss' gw' \<Longrightarrow>
    gw_steps F L Q P V bits R gw (evs @ evs') (hs @ hs') (us @ us') (ss @ ss') gw'"

lemmas gw_steps_step = gw_steps.step [OF _ gw_steps.idle, unfolded append_Nil2]

lemma gw_steps_trans:
  "gw_steps F L Q P V bits R gw evs hs us ss gw1 \<Longrightarrow> gw_steps F L Q P V bits R gw1 evs' hs' us' ss' gw' \<Longrightarrow>
     gw_steps F L Q P V bits R gw (evs @ evs') (hs @ hs') (us @ us') (ss @ ss') gw'"
  by (induction rule: gw_steps.induct) (auto intro: gw_steps.step)

lemmas gw_steps_spot = gw_steps.step [OF gw_step.spot]
lemmas gw_steps_option = gw_steps.step [OF gw_step.option, unfolded append_Nil]

lemma gw_run_steps:
  "gw_steps F L Q P V bits R gw evs hs us ss gw' \<Longrightarrow> gw_run F L Q P V bits R gw accepted handled sent streamed \<Longrightarrow>
     gw_run F L Q P V bits R gw' (accepted @ evs) (handled @ hs) (sent @ us) (streamed @ ss)"
proof (induction arbitrary: accepted handled sent streamed rule: gw_steps.induct)
  case (step gw evs hs us ss gw1 evs' hs' us' ss' gw')
  from step.IH [OF gw_run.step [OF step.prems step.hyps(1)]] show ?case by simp
qed simp

section \<open>A turn of the writer\<close>

text \<open>Environments that visit the books of the writer in some order of their hash map.\<close>

definition honest :: "(nat \<Rightarrow> order_book \<Rightarrow> env) \<Rightarrow> bool" where
  "honest es \<longleftrightarrow> (\<forall>n ob. finite (dom (books ob)) \<longrightarrow> enumerates (env_books (es n ob)) (books ob))"

text \<open>Two changes of the event queue are one.\<close>

lemma event_tx_trans:
  "a = b\<lparr>event_tx := event_tx a\<rparr> \<Longrightarrow> b = c\<lparr>event_tx := event_tx b\<rparr> \<Longrightarrow> a = c\<lparr>event_tx := event_tx a\<rparr>"
  by (cases a, cases b, cases c) simp

context gateway_queues
begin

lemma pop_event_empty: "pop_event L pl = None \<longleftrightarrow> v_event V (event_tx pl) = []"
  by (simp add: pop_event_def array_queue.pop_empty [OF event_queue])

lemma pop_event_Some:
  "pop_event L pl = Some (ev, pl') \<Longrightarrow>
     v_event V (event_tx pl) = ev # v_event V (event_tx pl') \<and> pl' = pl\<lparr>event_tx := event_tx pl'\<rparr>"
  by (auto simp: pop_event_def dest: array_queue.pop_Some [OF event_queue])

lemma pop_option_event_empty:
  "pop_option_event L pl = None \<longleftrightarrow> v_option_event V (option_event_tx pl) = []"
  by (simp add: pop_option_event_def array_queue.pop_empty [OF option_event_queue])

lemma pop_option_event_Some:
  "pop_option_event L pl = Some (ev, pl') \<Longrightarrow>
     v_option_event V (option_event_tx pl) = ev # v_option_event V (option_event_tx pl')
     \<and> pl' = pl\<lparr>option_event_tx := option_event_tx pl'\<rparr>"
  by (auto simp: pop_option_event_def dest: array_queue.pop_Some [OF option_event_queue])

lemma push_event_result:
  assumes "push_event L ev pl = (r, pl')"
  shows "(isl r \<longleftrightarrow> EVENT_QUEUE_CAP \<le> length (v_event V (event_tx pl)))
    \<and> v_event V (event_tx pl') = v_event V (event_tx pl) @ (if isl r then [] else [ev])
    \<and> pl' = pl\<lparr>event_tx := event_tx pl'\<rparr>"
  using assms array_queue.push_full [OF event_queue, of ev "event_tx pl"]
  by (auto simp: push_event_def array_queue.push_Some [OF event_queue] split: option.splits)

lemma push_event_cases:
  "v_event V (event_tx (snd (push_event L ev pl))) =
     (if length (v_event V (event_tx pl)) < EVENT_QUEUE_CAP
      then v_event V (event_tx pl) @ [ev] else v_event V (event_tx pl))
   \<and> snd (push_event L ev pl) = pl\<lparr>event_tx := event_tx (snd (push_event L ev pl))\<rparr>"
  using push_event_result [of ev pl "fst (push_event L ev pl)" "snd (push_event L ev pl)"] by auto

text \<open>The packet loop appends what fits.\<close>

lemma consume_items_contents:
  "length (v_event V (event_tx pl)) \<le> EVENT_QUEUE_CAP \<Longrightarrow>
     v_event V (event_tx (consume_items L items pl)) =
       take EVENT_QUEUE_CAP (v_event V (event_tx pl) @ [ev. Inr ev \<leftarrow> items])
     \<and> consume_items L items pl = pl\<lparr>event_tx := event_tx (consume_items L items pl)\<rparr>"
proof (induction items arbitrary: pl)
  case (Cons item items)
  show ?case
  proof (cases item)
    case (Inl error)
    then show ?thesis using Cons by simp
  next
    case (Inr ev)
    let ?pl = "snd (push_event L ev pl)"
    have "length (v_event V (event_tx ?pl)) \<le> EVENT_QUEUE_CAP"
      using push_event_cases [of ev pl] Cons.prems by simp
    note IH = Cons.IH [OF this]
    have "v_event V (event_tx (consume_items L items ?pl)) =
        take EVENT_QUEUE_CAP (v_event V (event_tx pl) @ ev # [ev. Inr ev \<leftarrow> items])"
      using IH push_event_cases [of ev pl] Cons.prems
      by (cases "length (v_event V (event_tx pl)) < EVENT_QUEUE_CAP") simp_all
    moreover have "consume_items L items ?pl = pl\<lparr>event_tx := event_tx (consume_items L items ?pl)\<rparr>"
      using IH push_event_cases [of ev pl] event_tx_trans by blast
    ultimately show ?thesis using Inr by simp
  qed
qed simp

text \<open>
  The batches: the first \<open>n\<close> events are taken, none of them panics, and each is a step.
\<close>

lemma gateway_same: "gw\<lparr>gw_pipeline := gw_pipeline gw, gw_writer := gw_writer gw\<rparr> = gw"
  by simp

lemma spot_batch_idle:
  assumes "honest es" "no_contracts (wr_option_manager (gw_writer gw))"
    and "finite (dom (books (wr_order_book (gw_writer gw))))"
  shows "\<exists>q m' ob us.
    let pl = gw_pipeline gw; w = gw_writer gw; evs = take n (v_event V (event_tx pl));
        pl' = pl\<lparr>event_tx := q\<rparr>;
        w' = w\<lparr>wr_order_book := ob, wr_option_manager := m', wr_server := fold (enqueue_bbo Q) us (wr_server w),
          events_count := events_count w + of_nat (length evs), bbo_count := bbo_count w + of_nat (length us)\<rparr>
    in spot_batch F L Q P es n pl w = Some (pl', w')
     \<and> no_contracts m' \<and> v_event V q = drop n (v_event V (event_tx pl)) \<and> feeds (wr_order_book w) evs ob us
     \<and> gw_steps F L Q P V bits R gw [] evs us [] (gw\<lparr>gw_pipeline := pl', gw_writer := w'\<rparr>)"
  using assms(2,3)
proof (induction n arbitrary: gw)
  case 0
  then show ?case using gateway_same [of gw]
    by (intro exI [of _ "event_tx (gw_pipeline gw)"] exI [of _ "wr_option_manager (gw_writer gw)"]
        exI [of _ "wr_order_book (gw_writer gw)"] exI [of _ "[]"]) (simp add: feeds.start gw_steps.idle)
next
  case (Suc n)
  let ?pl = "gw_pipeline gw" and ?w = "gw_writer gw"
  show ?case
  proof (cases "pop_event L ?pl")
    case None
    then show ?thesis using Suc.prems pop_event_empty [of ?pl] gateway_same [of gw]
      by (intro exI [of _ "event_tx ?pl"] exI [of _ "wr_option_manager ?w"]
          exI [of _ "wr_order_book ?w"] exI [of _ "[]"]) (simp add: feeds.start gw_steps.idle)
  next
    case (Some p)
    then obtain ev pl1 where pop: "pop_event L ?pl = Some (ev, pl1)" by (cases p) simp
    note pl1 = pop_event_Some [OF pop]
    let ?e = "es n (wr_order_book ?w)"
    obtain ob1 r where ob1: "ob_apply (env_books ?e) (wr_order_book ?w) ev = (ob1, r)" by fastforce
    have visit: "enumerates (env_books ?e) (books (wr_order_book ?w))"
      using assms(1) Suc.prems(2) by (simp add: honest_def)
    obtain m1 where step: "writer_spot_event F Q P ?e ev ?w =
        Some (?w\<lparr>wr_order_book := ob1, wr_option_manager := m1,
              wr_server := fold (enqueue_bbo Q) (published r) (wr_server ?w),
              events_count := events_count ?w + 1,
              bbo_count := bbo_count ?w + of_nat (length (published r))\<rparr>)" (is "_ = Some ?w1")
      and m1: "no_contracts m1"
      using writer_spot_event_idle [OF Suc.prems(1) ob1] by blast
    have "finite (dom (books ob1))"
      using finite_books_apply [OF Suc.prems(2), of "env_books ?e" ev] ob1 by simp
    with m1 Suc.IH [of "gw\<lparr>gw_pipeline := pl1, gw_writer := ?w1\<rparr>"]
    obtain q m' ob us pl' w' where rest: "spot_batch F L Q P es n pl1 ?w1 = Some (pl', w')"
      and pl1': "pl' = pl1\<lparr>event_tx := q\<rparr>"
      and w1': "w' = ?w1\<lparr>wr_order_book := ob, wr_option_manager := m', wr_server := fold (enqueue_bbo Q) us (wr_server ?w1),
          events_count := events_count ?w1 + of_nat (length (take n (v_event V (event_tx pl1)))),
          bbo_count := bbo_count ?w1 + of_nat (length us)\<rparr>"
      and m': "no_contracts m'" and q: "v_event V q = drop n (v_event V (event_tx pl1))"
      and us: "feeds ob1 (take n (v_event V (event_tx pl1))) ob us"
      and steps: "gw_steps F L Q P V bits R (gw\<lparr>gw_pipeline := pl1, gw_writer := ?w1\<rparr>) []
        (take n (v_event V (event_tx pl1))) us [] (gw\<lparr>gw_pipeline := pl', gw_writer := w'\<rparr>)"
      by (auto simp: Let_def)
    have "feeds (wr_order_book ?w) (ev # take n (v_event V (event_tx pl1))) ob (published r @ us)"
      using feeds_trans [OF us feeds_step [OF visit ob1]] by simp
    moreover have "pl' = ?pl\<lparr>event_tx := q\<rparr>"
      unfolding pl1' using pl1 by (metis pipeline.update_convs(1) pipeline.surjective)
    moreover have "w' = ?w\<lparr>wr_order_book := ob, wr_option_manager := m',
        wr_server := fold (enqueue_bbo Q) (published r @ us) (wr_server ?w),
        events_count := events_count ?w + of_nat (length (take (Suc n) (v_event V (event_tx ?pl)))),
        bbo_count := bbo_count ?w + of_nat (length (published r @ us))\<rparr>"
      unfolding w1' using pl1 by (simp add: algebra_simps)
    moreover have "spot_batch F L Q P es (Suc n) ?pl ?w = Some (pl', w')"
      using pop step rest by simp
    moreover have "gw_steps F L Q P V bits R gw [] (take (Suc n) (v_event V (event_tx ?pl))) (published r @ us) []
        (gw\<lparr>gw_pipeline := pl', gw_writer := w'\<rparr>)"
      using gw_steps_spot [OF pop visit ob1 step steps] pl1 by simp
    moreover have "v_event V q = drop (Suc n) (v_event V (event_tx ?pl))"
      "take (Suc n) (v_event V (event_tx ?pl)) = ev # take n (v_event V (event_tx pl1))"
      using q pl1 by simp_all
    ultimately show ?thesis
      using m' unfolding Let_def by (intro exI [of _ q] exI [of _ m'] exI [of _ ob] exI [of _ "published r @ us"]) metis
  qed
qed

lemma option_batch_idle:
  assumes "no_contracts (wr_option_manager (gw_writer gw))"
  shows "\<exists>q m'.
    let pl = gw_pipeline gw; w = gw_writer gw; evs = take n (v_option_event V (option_event_tx pl));
        pl' = pl\<lparr>option_event_tx := q\<rparr>;
        w' = w\<lparr>wr_option_manager := m', events_count := events_count w + of_nat (length evs)\<rparr>
    in option_batch F L P es n pl w = Some (pl', w')
     \<and> no_contracts m' \<and> v_option_event V q = drop n (v_option_event V (option_event_tx pl))
     \<and> gw_steps F L Q P V bits R gw [] [] [] [] (gw\<lparr>gw_pipeline := pl', gw_writer := w'\<rparr>)"
  using assms
proof (induction n arbitrary: gw)
  case 0
  then show ?case using gateway_same [of gw]
    by (intro exI [of _ "option_event_tx (gw_pipeline gw)"] exI [of _ "wr_option_manager (gw_writer gw)"])
      (simp add: gw_steps.idle)
next
  case (Suc n)
  let ?pl = "gw_pipeline gw" and ?w = "gw_writer gw"
  show ?case
  proof (cases "pop_option_event L ?pl")
    case None
    then show ?thesis using Suc.prems pop_option_event_empty [of ?pl] gateway_same [of gw]
      by (intro exI [of _ "option_event_tx ?pl"] exI [of _ "wr_option_manager ?w"]) (simp add: gw_steps.idle)
  next
    case (Some p)
    then obtain ev pl1 where pop: "pop_option_event L ?pl = Some (ev, pl1)" by (cases p) simp
    note pl1 = pop_option_event_Some [OF pop]
    obtain m1 where step: "writer_option_event F P (es n) ev ?w =
        Some (?w\<lparr>events_count := events_count ?w + 1, wr_option_manager := m1\<rparr>)" (is "_ = Some ?w1")
      and m1: "no_contracts m1"
      using writer_option_event_idle [OF Suc.prems] by blast
    from Suc.IH [of "gw\<lparr>gw_pipeline := pl1, gw_writer := ?w1\<rparr>"] m1 obtain q m' pl' w' where
      rest: "option_batch F L P es n pl1 ?w1 = Some (pl', w')"
      and pl1': "pl' = pl1\<lparr>option_event_tx := q\<rparr>"
      and w1': "w' = ?w1\<lparr>wr_option_manager := m', events_count := events_count ?w1 +
          of_nat (length (take n (v_option_event V (option_event_tx pl1))))\<rparr>"
      and m': "no_contracts m'" and q: "v_option_event V q = drop n (v_option_event V (option_event_tx pl1))"
      and steps: "gw_steps F L Q P V bits R (gw\<lparr>gw_pipeline := pl1, gw_writer := ?w1\<rparr>) [] [] [] []
        (gw\<lparr>gw_pipeline := pl', gw_writer := w'\<rparr>)"
      by (auto simp: Let_def)
    have "pl' = ?pl\<lparr>option_event_tx := q\<rparr>"
      unfolding pl1' using pl1 by (metis pipeline.update_convs(3) pipeline.surjective)
    moreover have "w' = ?w\<lparr>wr_option_manager := m', events_count := events_count ?w +
        of_nat (length (take (Suc n) (v_option_event V (option_event_tx ?pl))))\<rparr>"
      unfolding w1' using pl1 by (simp add: algebra_simps)
    moreover have "option_batch F L P es (Suc n) ?pl ?w = Some (pl', w')"
      using pop step rest by simp
    moreover have "gw_steps F L Q P V bits R gw [] [] [] [] (gw\<lparr>gw_pipeline := pl', gw_writer := w'\<rparr>)"
      using gw_steps_option [OF pop step] steps by simp
    moreover have "v_option_event V q = drop (Suc n) (v_option_event V (option_event_tx ?pl))"
      using q pl1 by simp
    ultimately show ?thesis
      using m' unfolding Let_def by (intro exI [of _ q] exI [of _ m']) metis
  qed
qed

text \<open>So a turn of the writer takes a batch of each queue, in steps of the gateway.\<close>

lemma writer_turn_idle:
  assumes "honest es" "no_contracts (wr_option_manager (gw_writer gw))"
    and "finite (dom (books (wr_order_book (gw_writer gw))))"
  defines "evs \<equiv> take 1024 (v_event V (event_tx (gw_pipeline gw)))"
    and "oevs \<equiv> take 1024 (v_option_event V (option_event_tx (gw_pipeline gw)))"
  shows "\<exists>q q' m ob us gw'. writer_turn F L Q P es es' ks gw = Some gw'
    \<and> gw' = end_turn ks (gw\<lparr>
      gw_pipeline := (gw_pipeline gw)\<lparr>event_tx := q, option_event_tx := q'\<rparr>,
      gw_writer := (gw_writer gw)\<lparr>opt_count := 0, wr_order_book := ob,
        wr_server := fold (enqueue_bbo Q) us (wr_server (gw_writer gw)), bbo_count := of_nat (length us),
        wr_option_manager := m, events_count := of_nat (length evs + length oevs)\<rparr>\<rparr>)
    \<and> v_event V q = drop 1024 (v_event V (event_tx (gw_pipeline gw)))
    \<and> v_option_event V q' = drop 1024 (v_option_event V (option_event_tx (gw_pipeline gw)))
    \<and> feeds (wr_order_book (gw_writer gw)) evs ob us
    \<and> gw_steps F L Q P V bits R gw [] evs us [] gw'"
proof -
  let ?gw0 = "gw\<lparr>gw_writer := begin_turn (gw_writer gw)\<rparr>"
  have w: "no_contracts (wr_option_manager (gw_writer ?gw0))" "finite (dom (books (wr_order_book (gw_writer ?gw0))))"
    using assms(2,3) by (simp_all add: begin_turn_def)
  from spot_batch_idle [OF assms(1) w, where n = WRITER_BATCH_SIZE and F = F and bits = bits and R = R]
  obtain q m1 ob us pl1 w1 where
    spot: "spot_batch F L Q P es WRITER_BATCH_SIZE (gw_pipeline gw) (begin_turn (gw_writer gw)) = Some (pl1, w1)"
    and pl1: "pl1 = (gw_pipeline gw)\<lparr>event_tx := q\<rparr>"
    and w1: "w1 = (begin_turn (gw_writer gw))\<lparr>wr_order_book := ob, wr_option_manager := m1,
        wr_server := fold (enqueue_bbo Q) us (wr_server (gw_writer gw)),
        events_count := of_nat (length evs), bbo_count := of_nat (length us)\<rparr>"
    and m1: "no_contracts m1" and q: "v_event V q = drop 1024 (v_event V (event_tx (gw_pipeline gw)))"
    and us: "feeds (wr_order_book (gw_writer gw)) evs ob us"
    and steps1: "gw_steps F L Q P V bits R ?gw0 [] evs us [] (gw\<lparr>gw_pipeline := pl1, gw_writer := w1\<rparr>)"
    by (auto simp: Let_def evs_def WRITER_BATCH_SIZE_def begin_turn_def)
  have "no_contracts (wr_option_manager (gw_writer (gw\<lparr>gw_pipeline := pl1, gw_writer := w1\<rparr>)))"
    using m1 w1 by simp
  from option_batch_idle [OF this, where n = WRITER_BATCH_SIZE and F = F and es = es' and bits = bits and R = R]
  obtain q' m2 pl2 w2 where
    option: "option_batch F L P es' WRITER_BATCH_SIZE pl1 w1 = Some (pl2, w2)"
    and pl2: "pl2 = pl1\<lparr>option_event_tx := q'\<rparr>"
    and w2: "w2 = w1\<lparr>wr_option_manager := m2, events_count := events_count w1 + of_nat (length oevs)\<rparr>"
    and q': "v_option_event V q' = drop 1024 (v_option_event V (option_event_tx (gw_pipeline gw)))"
    and steps2: "gw_steps F L Q P V bits R (gw\<lparr>gw_pipeline := pl1, gw_writer := w1\<rparr>) [] [] [] []
        (gw\<lparr>gw_pipeline := pl2, gw_writer := w2\<rparr>)"
    by (auto simp: Let_def oevs_def WRITER_BATCH_SIZE_def pl1)
  let ?gw' = "end_turn ks (gw\<lparr>gw_pipeline := pl2, gw_writer := w2\<rparr>)"
  have "gw_steps F L Q P V bits R gw [] evs us [] ?gw'"
    using gw_steps_trans [OF gw_steps_trans [OF gw_steps_trans [OF
          gw_steps_step [OF gw_step.begin_turn] steps1] steps2] gw_steps_step [OF gw_step.end_turn]]
    by simp
  moreover have "writer_turn F L Q P es es' ks gw = Some ?gw'"
    using spot option by (simp add: writer_turn_def)
  moreover have "pl2 = (gw_pipeline gw)\<lparr>event_tx := q, option_event_tx := q'\<rparr>" unfolding pl2 pl1 ..
  moreover have "w2 = (gw_writer gw)\<lparr>opt_count := 0, wr_order_book := ob,
      wr_server := fold (enqueue_bbo Q) us (wr_server (gw_writer gw)), bbo_count := of_nat (length us),
      wr_option_manager := m2, events_count := of_nat (length evs + length oevs)\<rparr>"
    by (simp add: w2 w1 begin_turn_def)
  ultimately show ?thesis using q q' us by blast
qed

end

section \<open>What every run keeps\<close>

lemma server_run_enqueue:
  "server_run Q cq P cp bits srv offered sent reported \<Longrightarrow>
     server_run Q cq P cp bits (fold (enqueue_bbo Q) us srv) (offered @ us) sent reported"
proof (induction us arbitrary: srv offered)
  case (Cons u us)
  from Cons.IH [OF server_run.bbo [OF Cons.prems, of u]] show ?case by simp
qed simp

text \<open>What is true in every run, in four parts.\<close>

definition gateway_ok ::
  "(bbo_update, 'q) queue_ops \<Rightarrow> ('f aggregated_option_snapshot, 'p) queue_ops
     \<Rightarrow> ('f, 'e, 'b, 'o, 's, 'q, 'p) queue_views \<Rightarrow> ('f \<Rightarrow> u64)
     \<Rightarrow> ('f, 'e, 'b, 'o, 's, 'q, 'p) gateway \<Rightarrow> itch_event list \<Rightarrow> itch_event list
     \<Rightarrow> bbo_update list \<Rightarrow> bbo_update list \<Rightarrow> bool" where
  "gateway_ok Q P V bits gw accepted handled sent streamed \<longleftrightarrow>
     (let w = gw_writer gw; pl = gw_pipeline gw in
        handled @ v_event V (event_tx pl) = accepted
      \<and> length (v_event V (event_tx pl)) \<le> EVENT_QUEUE_CAP
      \<and> feeds order_book_new handled (wr_order_book w) sent
      \<and> (\<exists>reported. server_run Q (v_server_bbo V) P (v_server_option V) bits (wr_server w)
             sent streamed reported)
      \<and> no_contracts (wr_option_manager w) \<and> v_server_option V (option_queue (wr_server w)) = []
      \<and> opt_count w = 0 \<and> total_option_updates gw = 0
      \<and> v_bbo V (bbo_rx pl) = [] \<and> v_option_snapshot V (option_snapshot_rx pl) = [])"

lemma option_queue_enqueue [simp]: "option_queue (fold (enqueue_bbo Q) us srv) = option_queue srv"
  by (induction us arbitrary: srv) (simp_all add: enqueue_bbo_def split: option.split)

context gateway_queues
begin

lemma gateway_ok_push:
  assumes ok: "gateway_ok Q P V bits gw accepted handled sent streamed"
    and "push_event L ev (gw_pipeline gw) = (r, pl)"
  shows "gateway_ok Q P V bits (gw\<lparr>gw_pipeline := pl\<rparr>)
    (accepted @ (if isl r then [] else [ev])) handled sent streamed"
proof -
  have "bbo_rx pl = bbo_rx (gw_pipeline gw)" "option_snapshot_rx pl = option_snapshot_rx (gw_pipeline gw)"
    using assms(2) by (auto simp: push_event_def split: option.splits)
  then show ?thesis
    using ok push_event_result [OF assms(2)] by (auto simp: gateway_ok_def Let_def not_le)
qed

lemma gateway_ok_spot:
  assumes ok: "gateway_ok Q P V bits gw accepted handled sent streamed"
    and "pop_event L (gw_pipeline gw) = Some (ev, pl)"
    and "enumerates (env_books e) (books (wr_order_book (gw_writer gw)))"
    and "ob_apply (env_books e) (wr_order_book (gw_writer gw)) ev = (ob, r)"
    and "writer_spot_event F Q P e ev (gw_writer gw) = Some w"
  shows "gateway_ok Q P V bits (gw\<lparr>gw_pipeline := pl, gw_writer := w\<rparr>)
    accepted (handled @ [ev]) (sent @ published r) streamed"
proof -
  note pl = pop_event_Some [OF assms(2)]
  have rx: "bbo_rx pl = bbo_rx (gw_pipeline gw)"
    "option_snapshot_rx pl = option_snapshot_rx (gw_pipeline gw)"
    using assms(2) by (auto simp: pop_event_def)
  have "no_contracts (wr_option_manager (gw_writer gw))" using ok by (simp add: gateway_ok_def Let_def)
  then obtain m' where w: "w = (gw_writer gw)\<lparr>wr_order_book := ob, wr_option_manager := m',
      wr_server := fold (enqueue_bbo Q) (published r) (wr_server (gw_writer gw)),
      events_count := events_count (gw_writer gw) + 1,
      bbo_count := bbo_count (gw_writer gw) + of_nat (length (published r))\<rparr>" and m': "no_contracts m'"
    using writer_spot_event_idle [OF _ assms(4), of F Q P] assms(5) by auto
  have "feeds order_book_new (handled @ [ev]) ob (sent @ published r)"
    using ok feeds.event [OF _ assms(3,4)] by (simp add: gateway_ok_def Let_def)
  moreover have "\<exists>reported. server_run Q (v_server_bbo V) P (v_server_option V) bits
      (fold (enqueue_bbo Q) (published r) (wr_server (gw_writer gw))) (sent @ published r) streamed reported"
    using ok server_run_enqueue by (fastforce simp: gateway_ok_def Let_def)
  ultimately show ?thesis using ok pl rx m' by (simp add: gateway_ok_def Let_def w)
qed

lemma gateway_ok_option:
  assumes ok: "gateway_ok Q P V bits gw accepted handled sent streamed"
    and "pop_option_event L (gw_pipeline gw) = Some (oev, pl)"
    and "writer_option_event F P e oev (gw_writer gw) = Some w"
  shows "gateway_ok Q P V bits (gw\<lparr>gw_pipeline := pl, gw_writer := w\<rparr>) accepted handled sent streamed"
proof -
  have rx: "event_tx pl = event_tx (gw_pipeline gw)" "bbo_rx pl = bbo_rx (gw_pipeline gw)"
    "option_snapshot_rx pl = option_snapshot_rx (gw_pipeline gw)"
    using assms(2) by (auto simp: pop_option_event_def)
  obtain m' where "w = (gw_writer gw)\<lparr>events_count := events_count (gw_writer gw) + 1,
      wr_option_manager := m'\<rparr>" "no_contracts m'"
    using writer_option_event_idle [of "gw_writer gw" F P e oev] assms(3) ok
    by (auto simp: gateway_ok_def Let_def)
  then show ?thesis using ok rx by (simp add: gateway_ok_def Let_def)
qed

lemma gateway_ok_broadcast:
  assumes ok: "gateway_ok Q P V bits gw accepted handled sent streamed"
    and "broadcast_turn Q P bits res (wr_server (gw_writer gw)) = Some srv"
  shows "gateway_ok Q P V bits (on_server (\<lambda>_. srv) gw) accepted handled sent
    (streamed @ take BATCH_SIZE (v_server_bbo V (broadcast_queue (wr_server (gw_writer gw)))))"
proof -
  note turn = broadcast_turn_result [OF server_bbo_queue server_option_queue assms(2)]
  have "\<exists>reported. server_run Q (v_server_bbo V) P (v_server_option V) bits srv
      sent (streamed @ take BATCH_SIZE (v_server_bbo V (broadcast_queue (wr_server (gw_writer gw))))) reported"
    using ok server_run.turn [OF _ assms(2)] by (fastforce simp: gateway_ok_def Let_def)
  then show ?thesis using ok turn by (simp add: gateway_ok_def Let_def)
qed

lemma gateway_ok_step:
  "gw_step F L Q P V bits R gw evs hs us ss gw' \<Longrightarrow> gateway_ok Q P V bits gw accepted handled sent streamed \<Longrightarrow>
     gateway_ok Q P V bits gw' (accepted @ evs) (handled @ hs) (sent @ us) (streamed @ ss)"
proof (induction rule: gw_step.induct)
  case (push ev r pl)
  then show ?case using gateway_ok_push by simp
next
  case (push_option oev)
  then show ?case by (simp add: gateway_ok_def Let_def push_option_event_def split: option.split)
next
  case begin_turn
  then show ?case by (simp add: gateway_ok_def Let_def begin_turn_def)
next
  case (spot ev pl e ob r w)
  then show ?case using gateway_ok_spot by simp
next
  case (option oev pl e w)
  then show ?case using gateway_ok_option by simp
next
  case (end_turn ks)
  then show ?case by (simp add: gateway_ok_def Let_def end_turn_def)
next
  case stats
  then show ?case by (simp add: gateway_ok_def Let_def stats_turn_def)
next
  case (accept c)
  then show ?case
    using server_run.accept [of Q "v_server_bbo V" P "v_server_option V" bits "wr_server (gw_writer gw)"]
    by (fastforce simp: gateway_ok_def Let_def accept_turn_def)
next
  case (broadcast res srv)
  then show ?case using gateway_ok_broadcast by simp
qed

lemma gateway_ok_run:
  "gw_run F L Q P V bits R gw accepted handled sent streamed \<Longrightarrow> gateway_ok Q P V bits gw accepted handled sent streamed"
proof (induction rule: gw_run.induct)
  case (start pl srv rate)
  then show ?case
    by (auto simp: gateway_ok_def gateway_new_def writer_new_def Let_def feeds.start
        intro: server_run.start)
qed (rule gateway_ok_step)

text \<open>The loop over the items of a packet is such an interleaving.\<close>

lemma consume_items_run:
  "gw_run F L Q P V bits R gw accepted handled sent streamed \<Longrightarrow>
     \<exists>evs. subseq evs [ev. Inr ev \<leftarrow> items]
       \<and> gw_run F L Q P V bits R (gw\<lparr>gw_pipeline := consume_items L items (gw_pipeline gw)\<rparr>)
           (accepted @ evs) handled sent streamed"
proof (induction items arbitrary: gw accepted)
  case Nil
  then show ?case by (intro exI [of _ "[]"]) simp
next
  case (Cons item items)
  show ?case
  proof (cases item)
    case (Inl error)
    then show ?thesis using Cons by simp
  next
    case (Inr ev)
    obtain r pl where push: "push_event L ev (gw_pipeline gw) = (r, pl)" by fastforce
    from Cons.IH [OF gw_run_push [OF Cons.prems push]] obtain evs where
      sub: "subseq evs [ev. Inr ev \<leftarrow> items]" and
      run: "gw_run F L Q P V bits R (gw\<lparr>gw_pipeline := consume_items L items pl\<rparr>)
        (accepted @ (if isl r then [] else [ev]) @ evs) handled sent streamed"
      by auto
    have "subseq ((if isl r then [] else [ev]) @ evs) [ev. Inr ev \<leftarrow> item # items]"
      using sub Inr by auto
    with run Inr push show ?thesis by (intro exI conjI) auto
  qed
qed

end

section \<open>Properties\<close>

text \<open>
  C10: In every interleaving of the threads no event and no update is lost unseen: the events
  handled, followed by those still queued, are exactly the events the queue has accepted, in
  order, and it gives an event back only when it is full; the order book is what the handled
  events make of it; and the updates it published are, in order, streamed to the clients,
  queued, or counted as dropped.
\<close>

theorem gateway_accounts_for_feed:
  assumes "gateway_queues L Q P V" "gw_run F L Q P V bits R gw accepted handled sent streamed"
  shows "handled @ v_event V (event_tx (gw_pipeline gw)) = accepted
    \<and> (isl (fst (push_event L ev (gw_pipeline gw))) \<longleftrightarrow>
         length (v_event V (event_tx (gw_pipeline gw))) = EVENT_QUEUE_CAP)
    \<and> feeds order_book_new handled (wr_order_book (gw_writer gw)) sent
    \<and> (\<exists>reported.
         server_run Q (v_server_bbo V) P (v_server_option V) bits (wr_server (gw_writer gw))
           sent streamed reported
       \<and> subseq (streamed @ v_server_bbo V (broadcast_queue (wr_server (gw_writer gw)))) sent
       \<and> (length sent < 2 ^ 64 \<longrightarrow>
            length sent = length streamed + length (v_server_bbo V (broadcast_queue (wr_server (gw_writer gw))))
              + reported + unat (dropped_count (wr_server (gw_writer gw)))))"
proof -
  note queues = gateway_queues.server_bbo_queue [OF assms(1)] gateway_queues.server_option_queue [OF assms(1)]
  note ok = gateway_queues.gateway_ok_run [OF assms]
  have "isl (fst (push_event L ev (gw_pipeline gw))) \<longleftrightarrow>
      length (v_event V (event_tx (gw_pipeline gw))) = EVENT_QUEUE_CAP"
    using gateway_queues.push_event_result [OF assms(1) surjective_pairing, of ev "gw_pipeline gw"] ok
    by (auto simp: gateway_ok_def Let_def)
  moreover obtain reported where run: "server_run Q (v_server_bbo V) P (v_server_option V) bits
      (wr_server (gw_writer gw)) sent streamed reported"
    using ok by (auto simp: gateway_ok_def Let_def)
  moreover note server_run_accounts [OF queues run]
  ultimately show ?thesis using ok by (simp add: gateway_ok_def Let_def) blast
qed

text \<open>A gateway that has handled one order.\<close>

definition fresh_server :: "(xreal, bbo_update list, xreal aggregated_option_snapshot list) broadcast_server" where
  "fresh_server = broadcast_server_new (\<lambda>_. []) (\<lambda>_. [])"

definition fresh_pipeline ::
  "itch_event list \<Rightarrow> (itch_event list, bbo_update list, option_order_event list,
    xreal aggregated_option_snapshot list) pipeline" where
  "fresh_pipeline evs = pipeline_new (\<lambda>_. evs) (\<lambda>_. []) (\<lambda>_. []) (\<lambda>_. [])"

lemma fresh_pipeline_simps [simp]:
  "event_tx (fresh_pipeline evs) = evs" "bbo_rx (fresh_pipeline evs) = []"
  "option_event_tx (fresh_pipeline evs) = []" "option_snapshot_rx (fresh_pipeline evs) = []"
  "(fresh_pipeline evs)\<lparr>event_tx := evs'\<rparr> = fresh_pipeline evs'"
  by (simp_all add: fresh_pipeline_def pipeline_new_def)

abbreviation "fresh_gateway evs \<equiv> gateway_new (fresh_pipeline evs) fresh_server (Fin 0.03)"

abbreviation "sample_env \<equiv> \<lparr>env_books = [], env_contracts = [], env_orders = (\<lambda>_ _. []),
  env_event_now = 0, env_now = 0\<rparr>"

abbreviation "sample_order \<equiv> AddOrder 1 5 Sell 100 7 1000000"

lemma sample_step:
  "\<exists>gw u. gw_step exact_ops list_pipeline (list_queue BROADCAST_QUEUE_CAP) (list_queue OPTION_QUEUE_CAP)
     list_views bits R (fresh_gateway [sample_order]) [] [sample_order] [u] [] gw
   \<and> wr_server (gw_writer gw) = enqueue_bbo (list_queue BROADCAST_QUEUE_CAP) u fresh_server
   \<and> wr_order_book (gw_writer gw) = fst (ob_apply [] order_book_new sample_order)
   \<and> gw_pipeline gw = fresh_pipeline []"
proof -
  let ?gw = "fresh_gateway [sample_order]"
  have pop: "pop_event list_pipeline (gw_pipeline ?gw) = Some (sample_order, fresh_pipeline [])"
    by (simp add: pop_event_def list_pipeline_def list_queue_def gateway_new_def)
  obtain ob u where ob: "ob_apply [] order_book_new sample_order = (ob, Some u)"
    by (simp add: book_eval order_book_new_def ob_add_def on_book_def get_or_create_def)
  obtain m' where w: "writer_spot_event exact_ops (list_queue BROADCAST_QUEUE_CAP)
      (list_queue OPTION_QUEUE_CAP) sample_env sample_order (gw_writer ?gw) =
      Some ((gw_writer ?gw)\<lparr>wr_order_book := ob, wr_option_manager := m',
        wr_server := enqueue_bbo (list_queue BROADCAST_QUEUE_CAP) u fresh_server,
        events_count := 1, bbo_count := 1\<rparr>)" (is "_ = Some ?w")
    using writer_spot_event_idle [of "gw_writer ?gw" sample_env sample_order ob "Some u" exact_ops
        "list_queue BROADCAST_QUEUE_CAP" "list_queue OPTION_QUEUE_CAP"] ob
    by (auto simp: gateway_new_def writer_new_def)
  have "gw_step exact_ops list_pipeline (list_queue BROADCAST_QUEUE_CAP) (list_queue OPTION_QUEUE_CAP)
      list_views bits R ?gw [] [sample_order] (published (Some u)) []
      (?gw\<lparr>gw_pipeline := fresh_pipeline [], gw_writer := ?w\<rparr>)"
    by (rule gw_step.spot [where e = sample_env and ob = ob])
      (use pop ob w in \<open>simp_all add: gateway_new_def writer_new_def new_books enumerates_def\<close>)
  with ob show ?thesis by (intro exI conjI) auto
qed

lemma sample_gateway_run:
  "\<exists>gw u. gw_run exact_ops list_pipeline (list_queue BROADCAST_QUEUE_CAP) (list_queue OPTION_QUEUE_CAP)
     list_views bits R gw [sample_order] [sample_order] [u] []
   \<and> wr_server (gw_writer gw) = enqueue_bbo (list_queue BROADCAST_QUEUE_CAP) u fresh_server
   \<and> wr_order_book (gw_writer gw) = fst (ob_apply [] order_book_new sample_order)
   \<and> v_server_bbo list_views (broadcast_queue (wr_server (gw_writer gw))) = [u]"
proof -
  let ?run = "gw_run exact_ops list_pipeline (list_queue BROADCAST_QUEUE_CAP) (list_queue OPTION_QUEUE_CAP)
     list_views bits R"
  have "?run (fresh_gateway []) [] [] [] []"
    by (rule gw_run.start)
      (simp_all add: fresh_server_def broadcast_server_new_def list_views_def)
  from gw_run_push [OF this, of sample_order "Inr ()" "fresh_pipeline [sample_order]"]
  have "?run (fresh_gateway [sample_order]) [sample_order] [] [] []"
    by (simp add: gateway_new_def push_event_def list_pipeline_def list_queue_def EVENT_QUEUE_CAP_def)
  note start = this
  obtain gw u where step: "gw_step exact_ops list_pipeline (list_queue BROADCAST_QUEUE_CAP)
      (list_queue OPTION_QUEUE_CAP) list_views bits R (fresh_gateway [sample_order]) [] [sample_order] [u] [] gw"
    and gw: "wr_server (gw_writer gw) = enqueue_bbo (list_queue BROADCAST_QUEUE_CAP) u fresh_server"
      "wr_order_book (gw_writer gw) = fst (ob_apply [] order_book_new sample_order)"
    using sample_step [of bits R] by blast
  have "v_server_bbo list_views (broadcast_queue (wr_server (gw_writer gw))) = [u]"
    by (simp add: gw(1) enqueue_bbo_def list_queue_def fresh_server_def broadcast_server_new_def
        list_views_def BROADCAST_QUEUE_CAP_def)
  with gw_run.step [OF start step] gw show ?thesis by (intro exI [of _ gw] exI [of _ u]) simp
qed

theorem gateway_accounts_for_feed_witness:
  "\<exists>u reported (srv :: (xreal, bbo_update list, xreal aggregated_option_snapshot list) broadcast_server).
     feeds order_book_new [sample_order] (fst (ob_apply [] order_book_new sample_order)) [u]
   \<and> length (broadcast_queue srv) + reported
       + unat (dropped_count srv) = 1"
proof -
  obtain gw u where run: "gw_run exact_ops list_pipeline (list_queue BROADCAST_QUEUE_CAP)
      (list_queue OPTION_QUEUE_CAP) list_views (\<lambda>_. 0) (\<lambda>_. True) gw [sample_order] [sample_order] [u] []"
    and ob: "wr_order_book (gw_writer gw) = fst (ob_apply [] order_book_new sample_order)"
    using sample_gateway_run by blast
  have view: "v_server_bbo list_views q = q" for q by (simp add: list_views_def)
  from gateway_accounts_for_feed [OF lists.gateway_queues_axioms run, where ev = sample_order]
  obtain reported where
    "feeds order_book_new [sample_order] (wr_order_book (gw_writer gw)) [u]"
    "length [u] < 2 ^ 64 \<longrightarrow> length [u] = length ([] :: bbo_update list)
       + length (broadcast_queue (wr_server (gw_writer gw))) + reported
       + unat (dropped_count (wr_server (gw_writer gw)))"
    unfolding view by blast
  with ob show ?thesis by (intro exI conjI) simp_all
qed

text \<open>
  C4: From the feed to the quotes: when the events the writer has handled are fresh and
  sized, then in every interleaving of the threads each of its books quotes the live orders
  of its stock in the market those events make.
\<close>

theorem gateway_quotes_feed:
  assumes "gateway_queues L Q P V" "gw_run F L Q P V bits R gw accepted handled sent streamed"
    and "market_feed_ok Map.empty handled" "books (wr_order_book (gw_writer gw)) s = Some b"
  defines "live \<equiv> stock_orders (foldl market_step Map.empty handled) s"
  shows "quotes live Buy (bid_price (snapshot_bbo b), bid_volume (snapshot_bbo b))
    \<and> quotes live Sell (ask_price (snapshot_bbo b), ask_volume (snapshot_bbo b))"
proof -
  have "feeds order_book_new handled (wr_order_book (gw_writer gw)) sent"
    using gateway_queues.gateway_ok_run [OF assms(1,2)] by (simp add: gateway_ok_def Let_def)
  from market_run_quotes [OF feeds_market [OF this assms(3)] assms(4)] show ?thesis
    by (simp add: live_def)
qed

theorem gateway_quotes_feed_witness:
  "\<exists>b. quotes [5 \<mapsto> \<lparr>oi_side = Sell, oi_price = 1000000, oi_shares = 100\<rparr>] Sell
     (ask_price (snapshot_bbo b), ask_volume (snapshot_bbo b))"
proof -
  obtain gw u where run: "gw_run exact_ops list_pipeline (list_queue BROADCAST_QUEUE_CAP)
      (list_queue OPTION_QUEUE_CAP) list_views (\<lambda>_. 0) (\<lambda>_. True) gw [sample_order] [sample_order] [u] []"
    and ob: "wr_order_book (gw_writer gw) = fst (ob_apply [] order_book_new sample_order)"
    using sample_gateway_run by blast
  obtain b where b: "books (wr_order_book (gw_writer gw)) 7 = Some b"
    by (simp add: ob ob_add_def on_book_entry order_book_new_def)
  have "stock_orders (foldl market_step Map.empty [sample_order]) 7 =
      [5 \<mapsto> \<lparr>oi_side = Sell, oi_price = 1000000, oi_shares = 100\<rparr>]"
    by (auto simp: stock_orders_def)
  then show ?thesis
    using gateway_quotes_feed [OF lists.gateway_queues_axioms run _ b] by auto
qed

text \<open>
  C11: A turn of the writer always completes: it takes the first 1024 events of each queue
  and no more, applies the spot events to the order book, offers exactly the updates they
  publish to the server, in order, and advances the shared totals by what it took.  This is
  so when no contract is registered and there are finitely many books, which holds at the
  start and in every run (\<open>gateway_ok_run\<close>).
\<close>

theorem writer_turn_takes_batches:
  assumes "gateway_queues L Q P V" "honest es"
    and "no_contracts (wr_option_manager (gw_writer gw))"
    and "finite (dom (books (wr_order_book (gw_writer gw))))"
  defines "evs \<equiv> take 1024 (v_event V (event_tx (gw_pipeline gw)))"
    and "oevs \<equiv> take 1024 (v_option_event V (option_event_tx (gw_pipeline gw)))"
  shows "\<exists>gw' us. writer_turn F L Q P es es' ks gw = Some gw'
    \<and> v_event V (event_tx (gw_pipeline gw')) = drop 1024 (v_event V (event_tx (gw_pipeline gw)))
    \<and> v_option_event V (option_event_tx (gw_pipeline gw')) =
        drop 1024 (v_option_event V (option_event_tx (gw_pipeline gw)))
    \<and> feeds (wr_order_book (gw_writer gw)) evs (wr_order_book (gw_writer gw')) us
    \<and> wr_server (gw_writer gw') = fold (enqueue_bbo Q) us (wr_server (gw_writer gw))
    \<and> total_events gw' = total_events gw + of_nat (length evs + length oevs)
    \<and> total_bbo_updates gw' = total_bbo_updates gw + of_nat (length us)
    \<and> total_option_updates gw' = total_option_updates gw"
proof -
  from gateway_queues.writer_turn_idle [OF assms(1-4), where F = F and es' = es' and ks = ks
      and bits = "\<lambda>_. 0" and R = "\<lambda>_. True"]
  obtain q q' m ob us where turn: "writer_turn F L Q P es es' ks gw = Some (end_turn ks (gw\<lparr>
      gw_pipeline := (gw_pipeline gw)\<lparr>event_tx := q, option_event_tx := q'\<rparr>,
      gw_writer := (gw_writer gw)\<lparr>opt_count := 0, wr_order_book := ob,
        wr_server := fold (enqueue_bbo Q) us (wr_server (gw_writer gw)), bbo_count := of_nat (length us),
        wr_option_manager := m, events_count := of_nat (length evs + length oevs)\<rparr>\<rparr>))"
    and q: "v_event V q = drop 1024 (v_event V (event_tx (gw_pipeline gw)))"
      "v_option_event V q' = drop 1024 (v_option_event V (option_event_tx (gw_pipeline gw)))"
    and us: "feeds (wr_order_book (gw_writer gw)) evs ob us"
    unfolding evs_def oevs_def by blast
  have none: "length us = 0" if "of_nat (length evs + length oevs) = (0 :: u64)"
  proof -
    have "length evs + length oevs < 2 ^ 64" by (simp add: evs_def oevs_def)
    then have "evs = []" using that unat_u64_of_nat by fastforce
    with us show ?thesis by (auto elim: feeds_NilE)
  qed
  show ?thesis
    using turn q us none
    by (intro exI [of _ "the (writer_turn F L Q P es es' ks gw)"] exI [of _ us])
      (auto simp: end_turn_def Let_def word_gt_0)
qed

theorem writer_turn_takes_batches_witness:
  "\<exists>gw'. writer_turn exact_ops list_pipeline (list_queue BROADCAST_QUEUE_CAP)
     (list_queue OPTION_QUEUE_CAP) (\<lambda>n ob. sample_env\<lparr>env_books := sorted_list_of_set (dom (books ob))\<rparr>)
     (\<lambda>n. sample_env) []
     (fresh_gateway [sample_order]) = Some gw' \<and> total_events gw' = 1"
proof -
  let ?es = "\<lambda>n ob. sample_env\<lparr>env_books := sorted_list_of_set (dom (books ob))\<rparr>"
  let ?gw = "fresh_gateway [sample_order]"
  have "honest ?es" by (simp add: honest_def enumerates_def)
  moreover have "no_contracts (wr_option_manager (gw_writer ?gw))"
    "finite (dom (books (wr_order_book (gw_writer ?gw))))"
    by (simp_all add: gateway_new_def writer_new_def new_books)
  moreover have "total_events ?gw = 0" "event_tx (gw_pipeline ?gw) = [sample_order]"
    "option_event_tx (gw_pipeline ?gw) = []"
    by (simp_all add: gateway_new_def)
  ultimately show ?thesis
    using writer_turn_takes_batches [OF lists.gateway_queues_axioms, of ?es ?gw exact_ops "\<lambda>n. sample_env" "[]"]
    by (auto simp: list_views_def)
qed

text \<open>
  C14: In no interleaving of the threads does the gateway produce an option snapshot: nothing
  ever registers a contract, so the chains stay empty whatever option orders arrive, the
  option queue of the server stays empty and its total zero; and the two queues of the
  pipeline meant for results, from which consumers may pop, stay empty too.
\<close>

theorem gateway_sends_no_options:
  assumes "gateway_queues L Q P V" "gw_run F L Q P V bits R gw accepted handled sent streamed"
  shows "(\<forall>u ch. mgr_chains (wr_option_manager (gw_writer gw)) u = Some ch \<longrightarrow> ch_contracts ch = Map.empty)
    \<and> v_server_option V (option_queue (wr_server (gw_writer gw))) = []
    \<and> total_option_updates gw = 0
    \<and> pop_bbo L (gw_pipeline gw) = None \<and> pop_option_snapshot L (gw_pipeline gw) = None"
  using gateway_queues.gateway_ok_run [OF assms]
  by (simp add: gateway_ok_def Let_def no_contracts_def pop_bbo_def pop_option_snapshot_def
      array_queue.pop_empty [OF gateway_queues.bbo_queue [OF assms(1)]]
      array_queue.pop_empty [OF gateway_queues.option_snapshot_queue [OF assms(1)]])

theorem gateway_sends_no_options_witness:
  "\<exists>gw u. gw_run exact_ops list_pipeline (list_queue BROADCAST_QUEUE_CAP) (list_queue OPTION_QUEUE_CAP)
     list_views (\<lambda>_. 0) (\<lambda>_. True) gw [sample_order] [sample_order] [u] [] \<and> total_option_updates gw = 0"
proof -
  obtain gw u where run: "gw_run exact_ops list_pipeline (list_queue BROADCAST_QUEUE_CAP)
      (list_queue OPTION_QUEUE_CAP) list_views (\<lambda>_. 0) (\<lambda>_. True) gw [sample_order] [sample_order] [u] []"
    using sample_gateway_run by blast
  with gateway_sends_no_options [OF lists.gateway_queues_axioms run] show ?thesis by blast
qed

text \<open>
  From the packet to the queue: a packet of well-formed frames is taken without a panic,
  and the queue then holds what it held, followed by the events of the frames that parse, in
  order -- up to its capacity; what does not fit is dropped.
\<close>

theorem consumer_packet_enqueues:
  assumes "gateway_queues L Q P V" "big_endian_reader rd"
    and "\<forall>m \<in> set ms. 2 \<le> length m \<and> length m < 2 ^ 16" "packet_ends tail"
    and "length (v_event V (event_tx pl)) \<le> EVENT_QUEUE_CAP"
  shows "\<exists>pl'. consumer_packet rd L (concat (map length_prefixed ms) @ tail) pl = Some pl'
    \<and> v_event V (event_tx pl') = take EVENT_QUEUE_CAP (v_event V (event_tx pl)
        @ [ev. Inr ev \<leftarrow> map (decode_message \<circ> length_prefixed) ms])"
  using big_endian_reader.parse_packet_frames [OF assms(2-4), of "[]"]
    gateway_queues.consume_items_contents [OF assms(1,5)]
  by (simp add: consumer_packet_def parse_multicast_packet_def)

theorem consumer_packet_enqueues_witness:
  "\<exists>pl'. consumer_packet byteorder_be list_pipeline
       (length_prefixed [0x53, 0, 0, 0, 0, 0, 9, 0x4F, 0, 0, 0, 0])
       (fresh_pipeline []) = Some pl'
     \<and> v_event list_views (event_tx pl') = [SystemEvent 9 0x4F]"
proof -
  let ?m = "[0x53, 0, 0, 0, 0, 0, 9, 0x4F, 0, 0, 0, 0] :: u8 list"
  have "decode_message (length_prefixed ?m) = Inr (SystemEvent 9 0x4F)"
    by (simp add: decode_message_def guard_length_def length_prefixed_def be_digits_def
        le_digits_numeral decode_fields_def be_at_def bytes_at_def be_value_def)
  moreover have "packet_ends []" by (simp add: packet_ends_def)
  ultimately show ?thesis
    using consumer_packet_enqueues [OF lists.gateway_queues_axioms feed.big_endian_reader_axioms,
        of "[?m]" "[]" "fresh_pipeline []"]
    by (simp add: EVENT_QUEUE_CAP_def list_views_def)
qed

end
