(* ===== verification/Client_View.thy ===== *)
theory Client_View
  imports Gateway_Correct
begin

text \<open>
  The gateway as its clients see it: what a client decodes from the bytes its socket has
  taken, and how that relates to the updates the order book has published and to the live
  orders of the market.
\<close>

section \<open>What a client decodes\<close>

type_synonym quote = "(u64 \<times> u64) \<times> (u64 \<times> u64)"

definition quote_of :: "bbo_update \<Rightarrow> quote" where
  "quote_of u = ((upd_bid_price u, upd_bid_volume u), (upd_ask_price u, upd_ask_volume u))"

text \<open>
  The client splits its stream into messages, takes the spot messages apart into words, and
  keeps the best bid and offer of those that carry the stock.
\<close>

definition spot_words :: "u8 list \<Rightarrow> u64 list list" where
  "spot_words bs =
     [read_words 27 (drop 3 f). f \<leftarrow> fst (split_stream bs), f ! 0 = MSG_TYPE_SPOT_BBO]"

definition client_quotes :: "u8 list \<Rightarrow> u64 \<Rightarrow> quote list" where
  "client_quotes bs s = [((ws ! 3, ws ! 4), (ws ! 5, ws ! 6)). ws \<leftarrow> spot_words bs, ws ! 0 = s]"

abbreviation of_stock :: "u64 \<Rightarrow> bbo_update list \<Rightarrow> bbo_update list" where
  "of_stock s us \<equiv> filter (\<lambda>u. upd_stock u = s) us"

lemma bbo_frame_decoded: "bbo_frame u ! 0 = MSG_TYPE_SPOT_BBO" "read_words 27 (drop 3 (bbo_frame u)) = bbo_words u"
proof -
  show "bbo_frame u ! 0 = MSG_TYPE_SPOT_BBO" by (simp add: bbo_frame_def)
  have "drop 3 (bbo_frame u) = bbo_payload u" by (simp add: bbo_frame_def)
  then show "read_words 27 (drop 3 (bbo_frame u)) = bbo_words u"
    using read_words_concat [of "bbo_words u" "[]"] by (simp add: bbo_payload_def length_bbo_words)
qed

lemma client_quotes_frames:
  assumes "split_stream bs = (map bbo_frame us, rest)"
  shows "client_quotes bs s = map quote_of (of_stock s us)"
proof -
  have "spot_words bs = map bbo_words us"
    unfolding spot_words_def assms fst_conv by (induction us) (simp_all add: bbo_frame_decoded)
  moreover have "[((ws ! 3, ws ! 4), (ws ! 5, ws ! 6)). ws \<leftarrow> map bbo_words us, ws ! 0 = s] =
      map quote_of (of_stock s us)"
    by (induction us) (simp_all add: bbo_words_def quote_of_def)
  ultimately show ?thesis by (simp only: client_quotes_def)
qed

section \<open>The updates of a feed quote the market\<close>

inductive_cases feeds_singleE: "feeds ob [ev] ob' us"

definition quotes_market :: "market \<Rightarrow> u64 \<Rightarrow> quote \<Rightarrow> bool" where
  "quotes_market m s q \<longleftrightarrow> quotes (stock_orders m s) Buy (fst q) \<and> quotes (stock_orders m s) Sell (snd q)"

definition quote_of_bbo :: "bbo_snapshot \<Rightarrow> quote" where
  "quote_of_bbo b = ((bid_price b, bid_volume b), (ask_price b, ask_volume b))"

lemma quote_of_upd_bbo: "quote_of u = quote_of_bbo (upd_bbo u)"
  by (simp add: quote_of_def quote_of_bbo_def upd_bbo_def)

lemma entry_quotes_market:
  assumes "market_run ob m"
  shows "quotes_market m s (quote_of_bbo (snapshot_bbo (entry ob s)))"
proof -
  have ok: "routing_ok ob" "all_positive ob" "market_of ob = m"
    using market_run_ok [OF assms] by simp_all
  have "quotes (sb_orders (entry ob s)) sd (best_snapshot (side_of sd (entry ob s)))" for sd
    using best_snapshot_quotes [of "entry ob s" sd] entry_ok [OF ok(1)] entry_positive [OF ok(2)]
    by blast
  from this [of Buy] this [of Sell] show ?thesis
    using stock_orders_market_of [OF ok(1), of s] ok(3)
    by (simp add: quotes_market_def quote_of_bbo_def snapshot_bbo_sides)
qed

text \<open>Every book is synchronised, and its quote is that of the last update of its stock.\<close>

definition published_ok :: "order_book \<Rightarrow> bbo_update list \<Rightarrow> bool" where
  "published_ok ob us \<longleftrightarrow>
     (\<forall>s. synced (entry ob s) \<and>
        last (bbo_snapshot_zero # map upd_bbo (of_stock s us)) = snapshot_bbo (entry ob s))"

lemma published_ok_routed:
  assumes "routing_ok ob" "published_ok ob us" "routed ob ev = (ob', r)"
  shows "published_ok ob' (us @ published r)
    \<and> (\<forall>u. r = Some u \<longrightarrow> upd_bbo u = snapshot_bbo (entry ob' (upd_stock u)))"
proof (cases "event_target (market_of ob) ev")
  case None
  then show ?thesis using assms(2,3) by (auto simp: routed_def)
next
  case (Some t)
  define b where "b = fst (book_apply (entry ob t) ev)"
  have r: "book_apply (entry ob t) ev = (b, r)" and ob': "books ob' = (books ob)(t \<mapsto> b)"
    using Some assms(3) by (auto simp: routed_def on_book_entry b_def)
  have entry: "entry ob' s = (if s = t then b else entry ob s)" for s
    by (simp add: entry_def ob')
  have synced: "synced (entry ob t)" using assms(2) by (simp add: published_ok_def)
  note res = book_apply_result [OF synced r]
  have stock: "upd_stock u = t" if "r = Some u" for u
    using that res entry_ok [OF assms(1), of t] by (auto split: if_splits)
  have old: "last (bbo_snapshot_zero # map upd_bbo (of_stock s us)) = snapshot_bbo (entry ob s)"
    "synced (entry ob s)" for s
    using assms(2) by (simp_all only: published_ok_def)
  have sync: "synced (entry ob' s)" for s using old(2) res by (simp add: entry)
  show ?thesis
  proof (cases r)
    case None
    then have "snapshot_bbo b = snapshot_bbo (entry ob t)" using res by (auto split: if_splits)
    then have "snapshot_bbo (entry ob' s) = snapshot_bbo (entry ob s)" for s by (simp add: entry)
    then show ?thesis using old(1) sync None by (simp add: published_ok_def)
  next
    case (Some u)
    then have u: "upd_bbo u = snapshot_bbo b" "upd_stock u = t" using res stock by (auto split: if_splits)
    have "last (bbo_snapshot_zero # map upd_bbo (of_stock s (us @ [u]))) = snapshot_bbo (entry ob' s)" for s
      using old(1) [of s] u by (cases "s = t") (simp_all add: entry)
    then show ?thesis using sync Some u by (simp add: published_ok_def entry)
  qed
qed

lemma published_ok_new: "published_ok order_book_new []"
  by (simp add: published_ok_def entry_def order_book_new_def synced_new)

text \<open>
  In a feed of fresh and sized events every update quotes the market as it is after some
  prefix of the feed, and the last update of a stock as it is at the end.
\<close>

lemma feeds_published:
  "feeds order_book_new evs ob us \<Longrightarrow> market_feed_ok Map.empty evs \<Longrightarrow> published_ok ob us
    \<and> (\<forall>u \<in> set us. \<exists>n \<le> length evs.
         quotes_market (foldl market_step Map.empty (take n evs)) (upd_stock u) (quote_of u))"
proof (induction rule: feeds.induct)
  case start
  show ?case by (simp add: published_ok_new)
next
  case (event evs ob' us ks ev ob'' r)
  have ok: "market_feed_ok Map.empty evs" using event.prems by (simp add: market_feed_ok_append)
  note IH = event.IH [OF ok]
  have "routing_ok ob'" using market_run_ok [OF feeds_market [OF event.hyps(1) ok]] by simp
  then have step: "published_ok ob'' (us @ published r)"
    "r = Some u \<Longrightarrow> upd_bbo u = snapshot_bbo (entry ob'' (upd_stock u))" for u
    using published_ok_routed [of ob' us ev ob'' r] IH event.hyps(2,3) by (auto simp: ob_apply_routed)
  have run: "market_run ob'' (foldl market_step Map.empty (evs @ [ev]))"
    using feeds_market [OF feeds.event [OF event.hyps] event.prems] .
  have "\<exists>n \<le> length (evs @ [ev]).
      quotes_market (foldl market_step Map.empty (take n (evs @ [ev]))) (upd_stock u) (quote_of u)"
    if "u \<in> set (us @ published r)" for u
  proof (cases "u \<in> set us")
    case True
    then obtain n where "n \<le> length evs"
      "quotes_market (foldl market_step Map.empty (take n evs)) (upd_stock u) (quote_of u)"
      using IH by blast
    then show ?thesis by (intro exI [of _ n]) simp
  next
    case False
    then have "r = Some u" using that by (auto split: option.splits)
    from step(2) [OF this] entry_quotes_market [OF run, of "upd_stock u"]
    show ?thesis by (intro exI [of _ "length (evs @ [ev])"]) (simp add: quote_of_upd_bbo)
  qed
  with step(1) show ?case by blast
qed

lemma last_update_quotes_market:
  assumes "feeds order_book_new evs ob us" "market_feed_ok Map.empty evs" "of_stock s us \<noteq> []"
  shows "quotes_market (foldl market_step Map.empty evs) s (quote_of (last (of_stock s us)))"
proof -
  have "last (bbo_snapshot_zero # map upd_bbo (of_stock s us)) = snapshot_bbo (entry ob s)"
    using feeds_published [OF assms(1,2)] by (simp only: published_ok_def)
  moreover have "last (x # map upd_bbo vs) = upd_bbo (last vs)" if "vs \<noteq> []" for x vs
    using that by (simp add: last_map)
  ultimately have "upd_bbo (last (of_stock s us)) = snapshot_bbo (entry ob s)"
    using assms(3) by metis
  then show ?thesis
    using entry_quotes_market [OF feeds_market [OF assms(1,2)], of s] by (simp add: quote_of_upd_bbo)
qed

section \<open>The streams of the clients\<close>

text \<open>A write that takes everything or fails; no client's socket is ever full.\<close>

definition no_block :: "write_outcome \<Rightarrow> bool" where
  "no_block r = (case r of Would_Block _ \<Rightarrow> False | _ \<Rightarrow> True)"

definition in_step :: "bbo_update list \<Rightarrow> client \<Rightarrow> bool" where
  "in_step streamed c \<longleftrightarrow>
     (\<exists>us. suffix us streamed \<and> split_stream (cl_stream c) = (map bbo_frame us, []))"

lemma srv_clients_enqueue [simp]: "srv_clients (fold (enqueue_bbo Q) us srv) = srv_clients srv"
  by (induction us arbitrary: srv) (simp_all add: enqueue_bbo_def split: option.split)

lemma in_step_write:
  assumes "in_step streamed c" "no_block r" "\<not> marks r"
  shows "in_step (streamed @ us) (cl_write (turn_bytes bits us []) r c)"
proof -
  obtain vs where vs: "suffix vs streamed" "split_stream (cl_stream c) = (map bbo_frame vs, [])"
    using assms(1) by (auto simp: in_step_def)
  have "r = Written" using assms(2,3) by (cases r) (auto simp: no_block_def marks_def)
  then have "split_stream (cl_stream (cl_write (turn_bytes bits us []) r c)) = (map bbo_frame (vs @ us), [])"
    using split_turn_bytes [OF vs(2), of "[]" bits us] by (simp add: cl_write_def)
  then show ?thesis using vs(1) unfolding in_step_def by (metis same_suffix_suffix suffix_appendI)
qed

context gateway_queues
begin

lemma in_step_broadcast:
  assumes "\<forall>c \<in> set (srv_clients srv). in_step streamed c" "v_server_option V (option_queue srv) = []"
    and "\<And>i. no_block (res i)" "broadcast_turn Q P bits res srv = Some srv'"
  shows "\<forall>c \<in> set (srv_clients srv').
    in_step (streamed @ take BATCH_SIZE (v_server_bbo V (broadcast_queue srv))) c"
proof -
  let ?us = "take BATCH_SIZE (v_server_bbo V (broadcast_queue srv))"
  note turn = broadcast_turn_result [OF server_bbo_queue server_option_queue assms(4)]
  show ?thesis
  proof (cases "?us = []")
    case True
    have "srv_clients srv' = srv_clients srv" using turn assms(2) True by simp
    with assms(1) show ?thesis by (simp only: True append_Nil2)
  next
    case False
    then have sent: "broadcast_bytes res (turn_bytes bits ?us []) (srv_clients srv) = Some (srv_clients srv')"
      using turn assms(2) by simp
    show ?thesis
    proof
      fix c assume "c \<in> set (srv_clients srv')"
      from client_of_turn [OF sent this] obtain i where i: "i < length (srv_clients srv)"
        "\<not> marks (res i)" "c = cl_write (turn_bytes bits ?us []) (res i) (srv_clients srv ! i)"
        by blast
      have "in_step streamed (srv_clients srv ! i)" using assms(1) i(1) by simp
      from in_step_write [OF this assms(3) i(2)] show "in_step (streamed @ ?us) c" unfolding i(3) .
    qed
  qed
qed

lemma in_step_step:
  "gw_step F L Q P V bits no_block gw evs hs us ss gw' \<Longrightarrow>
     gateway_ok Q P V bits gw accepted handled sent streamed \<Longrightarrow>
     \<forall>c \<in> set (srv_clients (wr_server (gw_writer gw))). in_step streamed c \<Longrightarrow>
     \<forall>c \<in> set (srv_clients (wr_server (gw_writer gw'))). in_step (streamed @ ss) c"
proof (induction rule: gw_step.induct)
  case (spot ev pl e ob r w)
  then have "no_contracts (wr_option_manager (gw_writer gw))" by (simp add: gateway_ok_def Let_def)
  from writer_spot_event_idle [OF this spot.hyps(3), of F Q P] spot.hyps(4) spot.prems(2)
  show ?case by auto
next
  case (option oev pl e w)
  then have "no_contracts (wr_option_manager (gw_writer gw))" by (simp add: gateway_ok_def Let_def)
  from writer_option_event_idle [OF this, of F P e oev] option.hyps(2) option.prems(2)
  show ?case by auto
next
  case (accept c)
  then show ?case by (auto simp: accept_turn_def accept_client_def in_step_def)
next
  case (broadcast res srv)
  then have "v_server_option V (option_queue (wr_server (gw_writer gw))) = []"
    by (simp add: gateway_ok_def Let_def)
  from in_step_broadcast [OF broadcast.prems(2) this broadcast.hyps] show ?case by simp
qed (simp_all add: begin_turn_def end_turn_def stats_turn_def Let_def)

lemma in_step_run:
  "gw_run F L Q P V bits no_block gw accepted handled sent streamed \<Longrightarrow>
     \<forall>c \<in> set (srv_clients (wr_server (gw_writer gw))). in_step streamed c"
proof (induction rule: gw_run.induct)
  case (step gw accepted handled sent streamed evs hs us ss gw')
  from in_step_step [OF step.hyps(2) gateway_ok_run [OF step.hyps(1)] step.IH] show ?case .
qed (simp add: gateway_new_def writer_new_def)

text \<open>What is streamed has been published.\<close>

lemma streamed_sent:
  assumes "gw_run F L Q P V bits R gw accepted handled sent streamed"
  shows "set streamed \<subseteq> set sent \<and> feeds order_book_new handled (wr_order_book (gw_writer gw)) sent"
proof -
  obtain reported where "server_run Q (v_server_bbo V) P (v_server_option V) bits
      (wr_server (gw_writer gw)) sent streamed reported"
    and feed: "feeds order_book_new handled (wr_order_book (gw_writer gw)) sent"
    using gateway_ok_run [OF assms] by (auto simp: gateway_ok_def Let_def)
  from server_run_accounts [OF server_bbo_queue server_option_queue this(1)]
  have "subseq (streamed @ v_server_bbo V (broadcast_queue (wr_server (gw_writer gw)))) sent" by simp
  then have "set (streamed @ v_server_bbo V (broadcast_queue (wr_server (gw_writer gw)))) \<subseteq> set sent"
    by (auto elim: list_emb_set)
  with feed show ?thesis by simp
qed

text \<open>What a client reads, and what it reads last.\<close>

lemma client_view:
  assumes "gw_run F L Q P V bits no_block gw accepted handled sent streamed"
    and "market_feed_ok Map.empty handled" "c \<in> set (srv_clients (wr_server (gw_writer gw)))"
  defines "quote \<equiv> client_quotes (cl_stream c)"
    and "market \<equiv> foldl market_step Map.empty"
  shows "(\<exists>us. suffix us streamed \<and> split_stream (cl_stream c) = (map bbo_frame us, []))
    \<and> (\<forall>s. \<forall>q \<in> set (quote s). \<exists>n \<le> length handled. quotes_market (market (take n handled)) s q)
    \<and> (streamed = sent \<longrightarrow> (\<forall>s. quote s \<noteq> [] \<longrightarrow> quotes_market (market handled) s (last (quote s))))"
proof -
  obtain us where us: "suffix us streamed" "split_stream (cl_stream c) = (map bbo_frame us, [])"
    using in_step_run [OF assms(1)] assms(3) by (auto simp: in_step_def)
  note quote = client_quotes_frames [OF us(2), folded quote_def]
  have sub: "set us \<subseteq> set sent" and feed: "feeds order_book_new handled (wr_order_book (gw_writer gw)) sent"
    using streamed_sent [OF assms(1)] set_mono_suffix [OF us(1)] by auto
  have "\<exists>n \<le> length handled. quotes_market (market (take n handled)) s q" if "q \<in> set (quote s)" for s q
    using that sub feeds_published [OF feed assms(2)] by (auto simp: quote market_def)
  moreover have "quotes_market (market handled) s (last (quote s))" if all: "streamed = sent" and some: "quote s \<noteq> []" for s
  proof -
    have "of_stock s us \<noteq> []" using some by (simp only: quote list.map_disc_iff not_False_eq_True)
    moreover obtain vs where "sent = vs @ us" using us(1) unfolding all by (auto simp: suffix_def)
    ultimately have eq: "last (of_stock s sent) = last (of_stock s us)" "of_stock s sent \<noteq> []"
      by simp_all
    have "quotes_market (market handled) s (quote_of (last (of_stock s us)))"
      using last_update_quotes_market [OF feed assms(2) eq(2)] by (simp only: eq(1) market_def)
    then show ?thesis by (simp only: quote last_map [OF \<open>of_stock s us \<noteq> []\<close>])
  qed
  ultimately show ?thesis using us by blast
qed

end

section \<open>A client of a small gateway\<close>

lemma sample_published:
  assumes "feeds order_book_new [sample_order] ob us"
  shows "\<exists>u. us = [u] \<and> upd_stock u = 7"
proof -
  obtain ks r where "ob_apply ks order_book_new sample_order = (ob, r)" "published r = us"
    using assms by (elim feeds_singleE) (auto elim: feeds_NilE)
  then show ?thesis
    by (auto simp: book_eval order_book_new_def ob_add_def on_book_def get_or_create_def)
qed

lemma sample_broadcast_served:
  fixes srv :: "(xreal, bbo_update list, xreal aggregated_option_snapshot list) broadcast_server"
  assumes "broadcast_queue srv = [u]" "option_queue srv = []" "srv_clients srv = [c]"
  shows "\<exists>srv'. broadcast_turn (list_queue BROADCAST_QUEUE_CAP) (list_queue OPTION_QUEUE_CAP) (\<lambda>_. 0) (\<lambda>i. Written) srv
      = Some srv' \<and> srv_clients srv' = [c\<lparr>cl_stream := cl_stream c @ bbo_frame u\<rparr>]"
proof -
  have "drain (list_queue BROADCAST_QUEUE_CAP) BATCH_SIZE [u] = ([u], [])"
    "drain (list_queue OPTION_QUEUE_CAP) MAX_OPTION_BATCH ([] :: xreal aggregated_option_snapshot list) = ([], [])"
    by (simp_all add: list_queue_def BATCH_SIZE_def MAX_OPTION_BATCH_def eval_nat_numeral)
  with assms show ?thesis
    by (simp add: broadcast_turn_def frame_bbos_bytes broadcast_bytes_def marks_def cl_write_def bbo_frame_def)
qed

text \<open>One order is handled, a client connects, and the broadcaster takes a turn.\<close>

lemma sample_client_steps:
  fixes gw :: "(xreal, itch_event list, bbo_update list, option_order_event list,
    xreal aggregated_option_snapshot list, bbo_update list, xreal aggregated_option_snapshot list) gateway"
  assumes "wr_server (gw_writer gw) = enqueue_bbo (list_queue BROADCAST_QUEUE_CAP) u fresh_server"
  defines "gw_to \<equiv> gw_step exact_ops list_pipeline (list_queue BROADCAST_QUEUE_CAP)
    (list_queue OPTION_QUEUE_CAP) list_views (\<lambda>_. 0) no_block"
  shows "\<exists>gw' gw'' c. gw_to gw [] [] [] [] gw' \<and> gw_to gw' [] [] [] [u] gw''
    \<and> c \<in> set (srv_clients (wr_server (gw_writer gw''))) \<and> cl_stream c = bbo_frame u
    \<and> gw_pipeline gw'' = gw_pipeline gw"
proof -
  let ?c = "\<lparr>cl_addr = 1, cl_stream = []\<rparr> :: client" and ?srv = "wr_server (gw_writer gw)"
  have server: "srv_clients (accept_turn ?c ?srv) = [?c]" "broadcast_queue (accept_turn ?c ?srv) = [u]"
    "option_queue (accept_turn ?c ?srv) = []"
    by (simp_all add: assms(1) accept_turn_def accept_client_def MAX_CLIENTS_def enqueue_bbo_def list_queue_def
        fresh_server_def broadcast_server_new_def BROADCAST_QUEUE_CAP_def)
  obtain srv' where turn: "broadcast_turn (list_queue BROADCAST_QUEUE_CAP) (list_queue OPTION_QUEUE_CAP)
      (\<lambda>_. 0) (\<lambda>i. Written) (accept_turn ?c ?srv) = Some srv'"
    and srv': "srv_clients srv' = [?c\<lparr>cl_stream := bbo_frame u\<rparr>]"
    using sample_broadcast_served [OF server(2,3,1)] by auto
  have "gw_to gw [] [] [] [] (on_server (accept_turn ?c) gw)"
    unfolding gw_to_def by (rule gw_step.accept) simp
  moreover have "take BATCH_SIZE [u] = [u]" by (simp add: BATCH_SIZE_def)
  with gw_step.broadcast [of no_block "\<lambda>i. Written" "list_queue BROADCAST_QUEUE_CAP"
      "list_queue OPTION_QUEUE_CAP" "\<lambda>_. 0" "on_server (accept_turn ?c) gw" srv' exact_ops list_pipeline list_views]
    turn server(2)
  have "gw_to (on_server (accept_turn ?c) gw) [] [] [] [u] (on_server (\<lambda>_. srv') (on_server (accept_turn ?c) gw))"
    by (simp add: gw_to_def no_block_def list_views_def)
  ultimately show ?thesis using srv'
    by (intro exI [of _ "on_server (accept_turn ?c) gw"]
        exI [of _ "on_server (\<lambda>_. srv') (on_server (accept_turn ?c) gw)"]
        exI [of _ "?c\<lparr>cl_stream := bbo_frame u\<rparr>"]) simp
qed

lemma sample_client_run:
  "\<exists>gw u c. gw_run exact_ops list_pipeline (list_queue BROADCAST_QUEUE_CAP) (list_queue OPTION_QUEUE_CAP)
     list_views (\<lambda>_. 0) no_block gw [sample_order] [sample_order] [u] [u]
   \<and> c \<in> set (srv_clients (wr_server (gw_writer gw))) \<and> cl_stream c = bbo_frame u \<and> upd_stock u = 7"
proof -
  obtain gw u where run: "gw_run exact_ops list_pipeline (list_queue BROADCAST_QUEUE_CAP)
      (list_queue OPTION_QUEUE_CAP) list_views (\<lambda>_. 0) no_block gw [sample_order] [sample_order] [u] []"
    and srv: "wr_server (gw_writer gw) = enqueue_bbo (list_queue BROADCAST_QUEUE_CAP) u fresh_server"
    using sample_gateway_run [of "\<lambda>_. 0" no_block] by blast
  have "feeds order_book_new [sample_order] (wr_order_book (gw_writer gw)) [u]"
    using lists.streamed_sent [OF run] by simp
  then have u: "upd_stock u = 7" using sample_published by blast
  from sample_client_steps [OF srv] obtain gw' gw'' and c :: client where
    "gw_step exact_ops list_pipeline (list_queue BROADCAST_QUEUE_CAP) (list_queue OPTION_QUEUE_CAP)
      list_views (\<lambda>_. 0) no_block gw [] [] [] [] gw'"
    "gw_step exact_ops list_pipeline (list_queue BROADCAST_QUEUE_CAP) (list_queue OPTION_QUEUE_CAP)
      list_views (\<lambda>_. 0) no_block gw' [] [] [] [u] gw''"
    and c: "c \<in> set (srv_clients (wr_server (gw_writer gw'')))" "cl_stream c = bbo_frame u"
    by blast
  note gw_run.step [OF gw_run.step [OF run this(1)] this(2)]
  with c u show ?thesis by auto
qed

lemma sample_client_sees:
  assumes "split_stream (cl_stream c) = (map bbo_frame [u], [])" "upd_stock u = 7"
  shows "client_quotes (cl_stream c) 7 \<noteq> []"
  using client_quotes_frames [OF assms(1), of 7] assms(2) by simp

lemma sample_market_quote:
  "quotes_market (foldl market_step Map.empty [sample_order]) 7 q \<Longrightarrow>
     quotes [5 \<mapsto> \<lparr>oi_side = Sell, oi_price = 1000000, oi_shares = 100\<rparr>] Sell (snd q)"
proof -
  have "stock_orders (foldl market_step Map.empty [sample_order]) 7 =
      [5 \<mapsto> \<lparr>oi_side = Sell, oi_price = 1000000, oi_shares = 100\<rparr>]"
    by (auto simp: stock_orders_def)
  then show "quotes_market (foldl market_step Map.empty [sample_order]) 7 q \<Longrightarrow> ?thesis"
    by (simp add: quotes_market_def)
qed

end
