(* ===== verification/Price_Bands.thy ===== *)
theory Price_Bands
  imports Client_View
begin

text \<open>
  When a book cannot cross.  The code never matches orders, so nothing prevents a buy above a
  sell but the feed.  A feed that keeps the buys of a stock below a price and its sells at or
  above it never crosses the book of that stock.
\<close>

section \<open>Orders on their side of a price\<close>

definition on_band_side :: "u64 \<Rightarrow> side \<Rightarrow> u64 \<Rightarrow> bool" where
  "on_band_side c sd p = (case sd of Buy \<Rightarrow> p < c | Sell \<Rightarrow> c \<le> p)"

definition banded :: "u64 \<Rightarrow> (u64 \<rightharpoonup> order_info) \<Rightarrow> bool" where
  "banded c live \<longleftrightarrow> (\<forall>r info. live r = Some info \<longrightarrow> on_band_side c (oi_side info) (oi_price info))"

text \<open>The check of the readers of a book: its best prices are strictly apart.\<close>

definition prices_apart :: "bbo_snapshot \<Rightarrow> bool" where
  "prices_apart s \<longleftrightarrow> (bid_price s \<noteq> 0 \<and> ask_price s \<noteq> 0 \<longrightarrow> bid_price s < ask_price s)"

lemma prices_apart_consistent: "prices_apart (snapshot_bbo b) \<Longrightarrow> is_consistent b"
  by (auto simp: prices_apart_def is_consistent_def is_crossed_def)

lemma live_volume_order:
  assumes "live_volume live sd p \<noteq> 0"
  obtains r info where "live r = Some info" "oi_side info = sd" "oi_price info = p"
proof -
  obtain r where "r \<in> dom live" "spot_amount sd (the (live r)) p \<noteq> 0"
    using assms unfolding live_volume_def map_total_def
    by (metis (no_types, lifting) sum.not_neutral_contains_not_neutral)
  then show thesis by (intro that) (auto simp: spot_amount_def split: if_splits)
qed

lemma banded_apart:
  assumes "banded c live" "quotes live Buy (bid_price s, bid_volume s)"
    and "quotes live Sell (ask_price s, ask_volume s)"
  shows "prices_apart s"
  unfolding prices_apart_def
proof
  assume nonzero: "bid_price s \<noteq> 0 \<and> ask_price s \<noteq> 0"
  have "live_volume live Buy (bid_price s) \<noteq> 0" "live_volume live Sell (ask_price s) \<noteq> 0"
    using assms(2,3) nonzero by (auto simp: quotes_def unat_gt_0 split: if_splits)
  then have "on_band_side c Buy (bid_price s)" "on_band_side c Sell (ask_price s)"
    using assms(1) unfolding banded_def by (metis live_volume_order)+
  then show "bid_price s < ask_price s" by (simp add: on_band_side_def)
qed

section \<open>Feeds that respect a price per stock\<close>

fun event_banded :: "(u64 \<Rightarrow> u64) \<Rightarrow> market \<Rightarrow> itch_event \<Rightarrow> bool" where
  "event_banded c m (AddOrder t r sd n s p) \<longleftrightarrow> on_band_side (c s) sd p"
| "event_banded c m (AddOrderMpid t r sd n s p mpid) \<longleftrightarrow> on_band_side (c s) sd p"
| "event_banded c m (OrderReplace t r r' n p) \<longleftrightarrow>
     (case m r of None \<Rightarrow> True | Some (s, info) \<Rightarrow> on_band_side (c s) (oi_side info) p)"
| "event_banded c m ev \<longleftrightarrow> True"

definition market_banded :: "(u64 \<Rightarrow> u64) \<Rightarrow> market \<Rightarrow> bool" where
  "market_banded c m \<longleftrightarrow>
     (\<forall>r s info. m r = Some (s, info) \<longrightarrow> on_band_side (c s) (oi_side info) (oi_price info))"

lemma market_banded_stock: "market_banded c m \<Longrightarrow> banded (c s) (stock_orders m s)"
  by (auto simp: market_banded_def banded_def stock_orders_Some_iff)

lemma market_banded_step:
  "market_banded c m \<Longrightarrow> event_banded c m ev \<Longrightarrow> market_banded c (market_step m ev)"
  by (cases ev)
    (auto simp: market_banded_def market_reduce_def market_replace_def split: option.splits if_splits)

fun feed_banded :: "(u64 \<Rightarrow> u64) \<Rightarrow> market \<Rightarrow> itch_event list \<Rightarrow> bool" where
  "feed_banded c m [] \<longleftrightarrow> True"
| "feed_banded c m (ev # evs) \<longleftrightarrow> event_banded c m ev \<and> feed_banded c (market_step m ev) evs"

lemma feed_banded_append:
  "feed_banded c m (evs @ evs') \<longleftrightarrow> feed_banded c m evs \<and> feed_banded c (foldl market_step m evs) evs'"
  by (induction evs arbitrary: m) auto

lemma feed_banded_market: "feed_banded c m evs \<Longrightarrow> market_banded c m \<Longrightarrow> market_banded c (foldl market_step m evs)"
  by (induction evs arbitrary: m) (auto simp: market_banded_step)

lemma market_run_apart:
  assumes "market_run ob m" "market_banded c m" "books ob s = Some b"
  shows "prices_apart (snapshot_bbo b)"
  using banded_apart [OF market_banded_stock [OF assms(2)]] market_run_quotes [OF assms(1,3)] by blast

lemma market_run_consistent:
  assumes "market_run ob m" "market_banded c m"
  shows "all_consistent ks ob"
proof -
  have "\<exists>s. books ob s = Some b" if "b \<in> set (map_values ks (books ob))" for b
    using that by (induction ks) (auto split: option.splits)
  then show ?thesis
    using market_run_apart [OF assms] prices_apart_consistent
    by (fastforce simp: all_consistent_def list_all_iff)
qed

section \<open>The gateway on such a feed\<close>

lemma feed_banded_take: "feed_banded c m evs \<Longrightarrow> feed_banded c m (take n evs)"
  using feed_banded_append [of c m "take n evs" "drop n evs"] by simp

lemma banded_updates_apart:
  assumes "feeds order_book_new evs ob us" "market_feed_ok Map.empty evs" "feed_banded c Map.empty evs"
    and "u \<in> set us"
  shows "prices_apart (upd_bbo u)"
proof -
  obtain n where n: "quotes_market (foldl market_step Map.empty (take n evs)) (upd_stock u) (quote_of u)"
    using feeds_published [OF assms(1,2)] assms(4) by blast
  have "market_banded c (foldl market_step Map.empty (take n evs))"
    using feed_banded_market [OF feed_banded_take [OF assms(3)]] by (simp add: market_banded_def)
  from market_banded_stock [OF this, of "upd_stock u"] n show ?thesis
    unfolding quotes_market_def quote_of_upd_bbo quote_of_bbo_def fst_conv snd_conv
    by (elim conjE) (rule banded_apart)
qed

context gateway_queues
begin

lemma banded_step_not_reported:
  "gw_step F L Q P V bits R gw evs hs us ss gw' \<Longrightarrow>
     gw_run F L Q P V bits R gw accepted handled sent streamed \<Longrightarrow> market_feed_ok Map.empty handled \<Longrightarrow>
     feed_banded c Map.empty handled \<Longrightarrow> \<not> crossed_reported gw \<Longrightarrow> \<not> crossed_reported gw'"
proof (induction rule: gw_step.induct)
  case (end_turn ks)
  have "feeds order_book_new handled (wr_order_book (gw_writer gw)) sent"
    using gateway_ok_run [OF end_turn.prems(1)] by (simp add: gateway_ok_def Let_def)
  from feeds_market [OF this end_turn.prems(2)]
  have "all_consistent ks (wr_order_book (gw_writer gw))"
    by (rule market_run_consistent)
      (use feed_banded_market [OF end_turn.prems(3)] in \<open>simp add: market_banded_def\<close>)
  then show ?case using end_turn.prems(4) by (simp add: end_turn_def Let_def)
qed (simp_all add: stats_turn_def)

lemma banded_run_not_reported:
  "gw_run F L Q P V bits R gw accepted handled sent streamed \<Longrightarrow> market_feed_ok Map.empty handled \<Longrightarrow>
     feed_banded c Map.empty handled \<Longrightarrow> \<not> crossed_reported gw"
proof (induction rule: gw_run.induct)
  case (step gw accepted handled sent streamed evs hs us ss gw')
  have prefix: "market_feed_ok Map.empty handled" "feed_banded c Map.empty handled"
    using step.prems by (simp_all add: market_feed_ok_append feed_banded_append)
  show ?case
    by (rule banded_step_not_reported [OF step.hyps(2,1) prefix step.IH [OF prefix]])
qed (simp add: gateway_new_def)

end

section \<open>Properties\<close>

text \<open>
  C13: What keeps the gateway uncrossed.  When the handled events keep, stock by stock, every
  buy below some price and every sell at or above it, then in every interleaving of the
  threads every book shows its best bid below its best ask, so does every update it has
  published, and the writer never reports a crossed book.
\<close>

theorem banded_feed_never_crosses:
  assumes "gateway_queues L Q P V" "gw_run F L Q P V bits R gw accepted handled sent streamed"
    and "market_feed_ok Map.empty handled" "feed_banded c Map.empty handled"
  shows "(\<forall>s b. books (wr_order_book (gw_writer gw)) s = Some b \<longrightarrow> prices_apart (snapshot_bbo b))
    \<and> (\<forall>u \<in> set sent. prices_apart (upd_bbo u)) \<and> \<not> crossed_reported gw"
proof -
  have feed: "feeds order_book_new handled (wr_order_book (gw_writer gw)) sent"
    using gateway_queues.streamed_sent [OF assms(1,2)] by simp
  have "market_banded c (foldl market_step Map.empty handled)"
    using feed_banded_market [OF assms(4)] by (simp add: market_banded_def)
  then show ?thesis
    using market_run_apart [OF feeds_market [OF feed assms(3)]] banded_updates_apart [OF feed assms(3,4)]
      gateway_queues.banded_run_not_reported [OF assms] by blast
qed

theorem banded_feed_never_crosses_witness:
  "\<exists>u. prices_apart (upd_bbo u) \<and> upd_stock u = 7"
proof -
  obtain gw u where run: "gw_run exact_ops list_pipeline (list_queue BROADCAST_QUEUE_CAP)
      (list_queue OPTION_QUEUE_CAP) list_views (\<lambda>_. 0) (\<lambda>_. True) gw [sample_order] [sample_order] [u] []"
    using sample_gateway_run by blast
  have "feeds order_book_new [sample_order] (wr_order_book (gw_writer gw)) [u]"
    using lists.streamed_sent [OF run] by simp
  then have "upd_stock u = 7" using sample_published by blast
  moreover have "feed_banded (\<lambda>_. 500000) Map.empty [sample_order]" by (simp add: on_band_side_def)
  ultimately show ?thesis
    using banded_feed_never_crosses [OF lists.gateway_queues_axioms run, of "\<lambda>_. 500000"] by auto
qed

end
