(* ===== verification/Address.thy ===== *)
theory Address
  imports Prelude "HOL-Library.Monad_Syntax"
begin

text \<open>
  The addresses of the command line, as \<open>main\<close> parses them: \<open>str::parse\<close> at the types
  \<open>Ipv4Addr\<close> and \<open>SocketAddr\<close> of the standard library.  A parser takes a prefix of the text
  and returns the rest.  A socket address of IPv6 starts with a bracket, which the text that
  \<open>main\<close> builds never does.
\<close>

section \<open>The parsers\<close>

type_synonym ipv4 = "u8 \<times> u8 \<times> u8 \<times> u8"
type_synonym socket_addr = "ipv4 \<times> u16"

definition unspecified :: ipv4 where
  "unspecified = (0, 0, 0, 0)"

definition to_digit :: "char \<Rightarrow> nat option" where
  "to_digit c = (let n = of_char c in if 48 \<le> n \<and> n \<le> 57 then Some (n - 48) else None)"

fun read_digits :: "string \<Rightarrow> nat list \<times> string" where
  "read_digits [] = ([], [])"
| "read_digits (c # cs) =
     (case to_digit c of
        None \<Rightarrow> ([], c # cs)
      | Some d \<Rightarrow> (let (ds, rest) = read_digits cs in (d # ds, rest)))"

definition decimal :: "nat list \<Rightarrow> nat" where
  "decimal ds = foldl (\<lambda>n d. 10 * n + d) 0 ds"

text \<open>An octet has one to three digits and no superfluous zero in front.\<close>

definition read_octet :: "string \<Rightarrow> (u8 \<times> string) option" where
  "read_octet cs =
     (let (ds, rest) = read_digits cs in
      if ds = [] \<or> 3 < length ds \<or> (hd ds = 0 \<and> 1 < length ds) then None
      else if decimal ds < 2 ^ 8 then Some (word_of_nat (decimal ds), rest) else None)"

text \<open>A port may have any number of digits; the arithmetic is checked.\<close>

fun checked_decimal :: "nat list \<Rightarrow> u16 \<Rightarrow> u16 option" where
  "checked_decimal [] n = Some n"
| "checked_decimal (d # ds) n =
     (if unat n * 10 < 2 ^ 16 \<and> unat (n * 10) + d < 2 ^ 16
      then checked_decimal ds (n * 10 + word_of_nat d) else None)"

definition read_port :: "string \<Rightarrow> (u16 \<times> string) option" where
  "read_port cs =
     (let (ds, rest) = read_digits cs in
      if ds = [] then None else do { n \<leftarrow> checked_decimal ds 0; Some (n, rest) })"

fun read_given :: "char \<Rightarrow> string \<Rightarrow> string option" where
  "read_given x [] = None"
| "read_given x (c # cs) = (if c = x then Some cs else None)"

definition read_ipv4 :: "string \<Rightarrow> (ipv4 \<times> string) option" where
  "read_ipv4 cs = do {
     (a, cs) \<leftarrow> read_octet cs;
     cs \<leftarrow> read_given CHR ''.'' cs;
     (b, cs) \<leftarrow> read_octet cs;
     cs \<leftarrow> read_given CHR ''.'' cs;
     (c, cs) \<leftarrow> read_octet cs;
     cs \<leftarrow> read_given CHR ''.'' cs;
     (d, cs) \<leftarrow> read_octet cs;
     Some ((a, b, c, d), cs)
   }"

definition parse_ipv4 :: "string \<Rightarrow> ipv4 option" where
  "parse_ipv4 cs =
     (if 15 < length cs then None
      else do { (a, rest) \<leftarrow> read_ipv4 cs; if rest = [] then Some a else None })"

definition parse_socket_addr :: "string \<Rightarrow> socket_addr option" where
  "parse_socket_addr cs = do {
     (a, cs) \<leftarrow> read_ipv4 cs;
     cs \<leftarrow> read_given CHR '':'' cs;
     (port, rest) \<leftarrow> read_port cs;
     if rest = [] then Some (a, port) else None
   }"

text \<open>\<open>format!("0.0.0.0:{}", args.tcp_port).parse()\<close>\<close>

definition parse_tcp_bind :: "string \<Rightarrow> socket_addr option" where
  "parse_tcp_bind tcp_port = parse_socket_addr (''0.0.0.0:'' @ tcp_port)"

section \<open>Digits\<close>

definition digits_of :: "string \<Rightarrow> nat list option" where
  "digits_of cs = those (map to_digit cs)"

lemma to_digit_bound: "to_digit c = Some d \<Longrightarrow> d < 10"
  by (auto simp: to_digit_def Let_def split: if_splits)

lemma read_digits_spec:
  "read_digits cs = (ds, rest) \<Longrightarrow>
     (\<forall>d \<in> set ds. d < 10) \<and> (rest = [] \<longleftrightarrow> digits_of cs \<noteq> None) \<and> (rest = [] \<longrightarrow> digits_of cs = Some ds)"
proof (induction cs arbitrary: ds)
  case (Cons c cs)
  then show ?case
    by (auto simp: digits_of_def split: option.splits prod.splits dest: to_digit_bound)
qed (simp add: digits_of_def)

lemma decimal_snoc: "decimal (ds @ [d]) = 10 * decimal ds + d"
  by (simp add: decimal_def)

lemma foldl_decimal_mono: "n \<le> foldl (\<lambda>n d. 10 * n + d) n ds" for n :: nat
proof (induction ds arbitrary: n)
  case (Cons d ds)
  from Cons.IH [of "10 * n + d"] show ?case by simp
qed simp

lemma checked_decimal_result:
  "checked_decimal ds n =
     (let m = foldl (\<lambda>n d. 10 * n + d) (unat n) ds in if m < 2 ^ 16 then Some (word_of_nat m) else None)"
proof (induction ds arbitrary: n)
  case Nil
  have "unat n < 2 ^ 16" using unsigned_less [where 'a = nat, of n] by simp
  then show ?case by (simp add: Let_def)
next
  case (Cons d ds)
  show ?case
  proof (cases "10 * unat n + d < 2 ^ 16")
    case True
    have "n * 10 + word_of_nat d = (word_of_nat (10 * unat n + d) :: u16)" by (simp add: mult.commute)
    then have m: "unat (n * 10 + word_of_nat d) = 10 * unat n + d"
      using unat_u16_of_nat [OF True] by (simp only:)
    have "n * 10 = (word_of_nat (10 * unat n) :: u16)" by (simp add: mult.commute)
    moreover have "10 * unat n < 2 ^ 16" using True by simp
    ultimately have "unat (n * 10) = 10 * unat n" by (simp only: unat_u16_of_nat)
    with True show ?thesis using Cons.IH [of "n * 10 + word_of_nat d"] m by simp
  next
    case False
    have "\<not> (unat n * 10 < 2 ^ 16 \<and> unat (n * 10) + d < 2 ^ 16)"
    proof
      assume small: "unat n * 10 < 2 ^ 16 \<and> unat (n * 10) + d < 2 ^ 16"
      have "n * 10 = (word_of_nat (10 * unat n) :: u16)" by (simp add: mult.commute)
      moreover have "10 * unat n < 2 ^ 16" using small by simp
      ultimately have "unat (n * 10) = 10 * unat n" by (simp only: unat_u16_of_nat)
      then show False using small False by simp
    qed
    moreover have "\<not> foldl (\<lambda>n d. 10 * n + d) (10 * unat n + d) ds < 2 ^ 16"
      using False foldl_decimal_mono [of "10 * unat n + d" ds] by simp
    ultimately show ?thesis by (simp only: checked_decimal.simps foldl.simps if_False Let_def mult.commute)
  qed
qed

lemma read_port_result:
  "(case read_port cs of Some (n, []) \<Rightarrow> Some n | _ \<Rightarrow> None) =
     (case digits_of cs of
        None \<Rightarrow> None
      | Some ds \<Rightarrow> if ds \<noteq> [] \<and> decimal ds < 2 ^ 16 then Some (word_of_nat (decimal ds)) else None)"
proof -
  obtain ds rest where r: "read_digits cs = (ds, rest)" by fastforce
  show ?thesis
    using read_digits_spec [OF r]
    by (auto simp: read_port_def r checked_decimal_result decimal_def Let_def
        split: option.splits list.splits)
qed

section \<open>The address of the server\<close>

lemma read_unspecified: "read_ipv4 (''0.0.0.0:'' @ cs) = Some (unspecified, CHR '':'' # cs)"
  by (simp add: read_ipv4_def read_octet_def to_digit_def decimal_def unspecified_def)

lemma parse_tcp_bind_result:
  "parse_tcp_bind p =
     (case digits_of p of
        None \<Rightarrow> None
      | Some ds \<Rightarrow>
          if ds \<noteq> [] \<and> decimal ds < 2 ^ 16 then Some (unspecified, word_of_nat (decimal ds)) else None)"
proof -
  have "parse_tcp_bind p = map_option (Pair unspecified) (case read_port p of Some (n, []) \<Rightarrow> Some n | _ \<Rightarrow> None)"
    unfolding parse_tcp_bind_def parse_socket_addr_def
    by (subst read_unspecified) (auto split: option.split list.split)
  then show ?thesis unfolding read_port_result by (auto split: option.split)
qed

end
