(* ===== verification/Receiver.thy ===== *)
theory Receiver
  imports Address Gateway
begin

text \<open>
  The multicast receiver (src/network/mod.rs) and the loop around it in src/main.rs.  The
  socket crate is a parameter: a record of its operations, and the locale \<open>udp_socket\<close> for
  what is documented of receiving.  The buffer may be uninitialised, so a byte of it is an
  option; reading a part of it that is out of range or was never written is undefined
  behaviour, which is \<open>None\<close>.
\<close>

section \<open>Sockets\<close>

record ('e, 's) socket_ops =
  so_new :: "'e + 's"
  so_set_reuse_address :: "bool \<Rightarrow> 's \<Rightarrow> 'e + 's"
  so_set_reuse_port :: "bool \<Rightarrow> 's \<Rightarrow> 'e + 's"
  so_bind :: "socket_addr \<Rightarrow> 's \<Rightarrow> 'e + 's"
  so_join_multicast :: "ipv4 \<Rightarrow> ipv4 \<Rightarrow> 's \<Rightarrow> 'e + 's"
  so_set_recv_buffer_size :: "u64 \<Rightarrow> 's \<Rightarrow> 'e + 's"
  so_set_nonblocking :: "bool \<Rightarrow> 's \<Rightarrow> 'e + 's"
  so_set_read_timeout :: "nat option \<Rightarrow> 's \<Rightarrow> 'e + 's"
  so_try_clone :: "'s \<Rightarrow> 'e + 's"
  so_recv :: "u8 option list \<Rightarrow> 's \<Rightarrow> ('e + nat) \<times> u8 option list \<times> 's"

text \<open>
  Receiving takes the next datagram, writes as much of it as fits to the front of the buffer
  and reports how much that was; on an error nothing is taken.
\<close>

locale udp_socket =
  fixes S :: "('e, 's) socket_ops"
    and pending :: "'s \<Rightarrow> u8 list list"
  assumes recv_ok: "so_recv S buf s = (Inr n, buf', s') \<Longrightarrow>
      \<exists>d. pending s = d # pending s' \<and> n = min (length d) (length buf)
        \<and> buf' = map Some (take n d) @ drop n buf"
    and recv_error: "so_recv S buf s = (Inl e, buf', s') \<Longrightarrow>
      pending s' = pending s \<and> length buf' = length buf"

section \<open>The receiver\<close>

datatype 'e network_error = Io 'e | Socket string

definition RECEIVE_BUFFER :: nat where
  "RECEIVE_BUFFER = 65536"

record 's multicast_receiver =
  mr_socket :: 's
  mr_buffer :: "u8 option list"

text \<open>The operator \<open>?\<close>, which converts an I/O error.\<close>

definition try_io :: "'e + 'a \<Rightarrow> ('a \<Rightarrow> 'e network_error + 'b) \<Rightarrow> 'e network_error + 'b" where
  "try_io r f = (case r of Inl e \<Rightarrow> Inl (Io e) | Inr x \<Rightarrow> f x)"

definition receiver_of :: "'s \<Rightarrow> 's multicast_receiver" where
  "receiver_of s = \<lparr>mr_socket = s, mr_buffer = replicate RECEIVE_BUFFER None\<rparr>"

definition multicast_receiver_new ::
  "('e, 's) socket_ops \<Rightarrow> ipv4 \<Rightarrow> u16 \<Rightarrow> ipv4 \<Rightarrow> u64 \<Rightarrow> 'e network_error + 's multicast_receiver" where
  "multicast_receiver_new S multicast_addr port iface buffer_size =
     try_io (so_new S) (\<lambda>s.
     try_io (so_set_reuse_address S True s) (\<lambda>s.
     try_io (so_set_reuse_port S True s) (\<lambda>s.
     try_io (so_bind S (unspecified, port) s) (\<lambda>s.
     try_io (so_join_multicast S multicast_addr iface s) (\<lambda>s.
     try_io (so_set_recv_buffer_size S buffer_size s) (\<lambda>s.
     try_io (so_set_nonblocking S False s) (\<lambda>s.
     Inr (receiver_of s))))))))"

text \<open>\<open>from_raw_parts\<close>: the first \<open>n\<close> bytes, which have to exist and be initialised.\<close>

definition init_prefix :: "nat \<Rightarrow> u8 option list \<Rightarrow> u8 list option" where
  "init_prefix n buf = (if n \<le> length buf then those (take n buf) else None)"

definition receive ::
  "('e, 's) socket_ops \<Rightarrow> 's multicast_receiver
     \<Rightarrow> (('e network_error + u8 list) \<times> 's multicast_receiver) option" where
  "receive S r =
     (let (result, buf, s) = so_recv S (mr_buffer r) (mr_socket r);
          r = r\<lparr>mr_socket := s, mr_buffer := buf\<rparr>
      in case result of
           Inl e \<Rightarrow> Some (Inl (Io e), r)
         | Inr n \<Rightarrow> (case init_prefix n buf of
                      None \<Rightarrow> None
                    | Some packet \<Rightarrow> Some (Inr packet, r)))"

definition receiver_try_clone ::
  "('e, 's) socket_ops \<Rightarrow> 's multicast_receiver \<Rightarrow> 'e network_error + 's multicast_receiver" where
  "receiver_try_clone S r = try_io (so_try_clone S (mr_socket r)) (\<lambda>s. Inr (receiver_of s))"

definition receiver_set_read_timeout ::
  "('e, 's) socket_ops \<Rightarrow> nat option \<Rightarrow> 's multicast_receiver \<Rightarrow> 'e network_error + 's multicast_receiver" where
  "receiver_set_read_timeout S timeout r =
     try_io (so_set_read_timeout S timeout (mr_socket r)) (\<lambda>s. Inr (r\<lparr>mr_socket := s\<rparr>))"

section \<open>The consumer\<close>

text \<open>A turn of \<open>run_multicast_consumer\<close>: an error of the socket is logged and slept on.\<close>

definition consumer_turn ::
  "('e, 's) socket_ops \<Rightarrow> byte_reader \<Rightarrow> ('f, 'a, 'b, 'o, 'p) pipeline_ops
     \<Rightarrow> 's multicast_receiver \<Rightarrow> ('a, 'b, 'o, 'p) pipeline
     \<Rightarrow> ('s multicast_receiver \<times> ('a, 'b, 'o, 'p) pipeline) option" where
  "consumer_turn S rd L r pl =
     (case receive S r of
        None \<Rightarrow> None
      | Some (Inr packet, r) \<Rightarrow> map_option (Pair r) (consumer_packet rd L packet pl)
      | Some (Inl e, r) \<Rightarrow> Some (r, pl))"

section \<open>What the receiver hands over\<close>

definition receiver_ok :: "'s multicast_receiver \<Rightarrow> bool" where
  "receiver_ok r \<longleftrightarrow> length (mr_buffer r) = RECEIVE_BUFFER"

lemma receiver_of_ok [simp]: "receiver_ok (receiver_of s)"
  by (simp add: receiver_ok_def receiver_of_def)

lemma those_Some: "those (map Some xs) = Some xs"
  by (induction xs) simp_all

context udp_socket
begin

text \<open>
  Never undefined: a datagram that fits is handed over whole, without anything of the ones
  before it.
\<close>

lemma receive_result:
  assumes "receiver_ok r"
  shows "\<exists>r' result. receive S r = Some (result, r') \<and> receiver_ok r' \<and>
    (case result of
       Inr packet \<Rightarrow> (\<exists>d. pending (mr_socket r) = d # pending (mr_socket r')
                          \<and> packet = take RECEIVE_BUFFER d)
     | Inl e \<Rightarrow> pending (mr_socket r') = pending (mr_socket r))"
proof -
  obtain result buf s where r: "so_recv S (mr_buffer r) (mr_socket r) = (result, buf, s)"
    by (metis prod_cases3)
  show ?thesis
  proof (cases result)
    case (Inl e)
    then show ?thesis
      using recv_error [of "mr_buffer r" "mr_socket r" e buf s] r assms
      by (simp add: receive_def receiver_ok_def)
  next
    case (Inr n)
    then obtain d where d: "pending (mr_socket r) = d # pending s"
      "n = min (length d) (length (mr_buffer r))" "buf = map Some (take n d) @ drop n (mr_buffer r)"
      using recv_ok r by blast
    have "init_prefix n buf = Some (take n d)"
      using d(2) by (simp add: init_prefix_def d(3) those_Some take_map)
    moreover have "take n d = take RECEIVE_BUFFER d"
      using d(2) assms by (simp add: receiver_ok_def min_def)
    moreover have "length buf = RECEIVE_BUFFER"
      using d(2,3) assms by (simp add: receiver_ok_def)
    ultimately show ?thesis using Inr r d(1) by (simp add: receive_def receiver_ok_def)
  qed
qed

end

section \<open>A socket of the documented behaviour\<close>

definition list_socket :: "(unit, u8 list list) socket_ops" where
  "list_socket =
     \<lparr>so_new = Inr [], so_set_reuse_address = (\<lambda>_. Inr), so_set_reuse_port = (\<lambda>_. Inr),
      so_bind = (\<lambda>_. Inr), so_join_multicast = (\<lambda>_ _. Inr), so_set_recv_buffer_size = (\<lambda>_. Inr),
      so_set_nonblocking = (\<lambda>_. Inr), so_set_read_timeout = (\<lambda>_. Inr), so_try_clone = Inr,
      so_recv = (\<lambda>buf s. case s of
         [] \<Rightarrow> (Inl (), buf, [])
       | d # s \<Rightarrow> (let n = min (length d) (length buf) in
                   (Inr n, map Some (take n d) @ drop n buf, s)))\<rparr>"

interpretation ls: udp_socket list_socket "\<lambda>s. s"
  by unfold_locales (auto simp: list_socket_def Let_def split: list.splits)

end
