(* ===== verification/Receiver_Correct.thy ===== *)
theory Receiver_Correct
  imports Receiver Gateway_Correct
begin

text \<open>
  From the wire to the event queue: what a turn of the multicast consumer does with the next
  datagram, whatever its bytes, and that the turns are steps of the gateway.
\<close>

section \<open>A turn of the consumer\<close>

lemma consumer_packet_total:
  assumes "big_endian_reader rd"
  shows "\<exists>items. consumer_packet rd L packet pl = Some (consume_items L items pl)"
  using big_endian_reader.parse_packet_bound [OF assms, of 0 packet]
  by (auto simp: consumer_packet_def parse_multicast_packet_def)

lemma consumer_turn_cases:
  assumes "udp_socket S pending" "big_endian_reader rd" "receiver_ok r"
  obtains (quiet) r' where "consumer_turn S rd L r pl = Some (r', pl)" "receiver_ok r'"
      "pending (mr_socket r') = pending (mr_socket r)"
  | (datagram) r' d pl' where "consumer_turn S rd L r pl = Some (r', pl')" "receiver_ok r'"
      "pending (mr_socket r) = d # pending (mr_socket r')"
      "consumer_packet rd L (take RECEIVE_BUFFER d) pl = Some pl'"
proof -
  obtain r' result where rcv: "receive S r = Some (result, r')" "receiver_ok r'"
    and res: "case result of
       Inr packet \<Rightarrow> (\<exists>d. pending (mr_socket r) = d # pending (mr_socket r')
                          \<and> packet = take RECEIVE_BUFFER d)
     | Inl e \<Rightarrow> pending (mr_socket r') = pending (mr_socket r)"
    using udp_socket.receive_result [OF assms(1,3)] by blast
  show thesis
  proof (cases result)
    case (Inl e)
    with rcv res show ?thesis by (intro quiet [of r']) (simp_all add: consumer_turn_def)
  next
    case (Inr packet)
    then obtain d where d: "pending (mr_socket r) = d # pending (mr_socket r')" "packet = take RECEIVE_BUFFER d"
      using res by auto
    obtain items where "consumer_packet rd L packet pl = Some (consume_items L items pl)"
      using consumer_packet_total [OF assms(2)] by blast
    with rcv Inr d show ?thesis
      by (intro datagram [of r' "consume_items L items pl" d]) (simp_all add: consumer_turn_def)
  qed
qed

text \<open>Each turn is a part of a run of the gateway.\<close>

lemma consumer_turn_run:
  assumes "gateway_queues L Q P V" "udp_socket S pending" "big_endian_reader rd" "receiver_ok r"
    and run: "gw_run F L Q P V bits R gw accepted handled sent streamed"
    and "consumer_turn S rd L r (gw_pipeline gw) = Some (r', pl)"
  shows "\<exists>evs. gw_run F L Q P V bits R (gw\<lparr>gw_pipeline := pl\<rparr>) (accepted @ evs) handled sent streamed"
proof (rule consumer_turn_cases [OF assms(2-4), of L "gw_pipeline gw"])
  fix r1 assume "consumer_turn S rd L r (gw_pipeline gw) = Some (r1, gw_pipeline gw)"
  then have "gw\<lparr>gw_pipeline := pl\<rparr> = gw" using assms(6) by simp
  with run show ?thesis by (intro exI [of _ "[]"]) simp
next
  fix r1 d pl1
  assume "consumer_turn S rd L r (gw_pipeline gw) = Some (r1, pl1)"
    and packet: "consumer_packet rd L (take RECEIVE_BUFFER d) (gw_pipeline gw) = Some pl1"
  then have "pl = pl1" using assms(6) by simp
  moreover obtain items where "pl1 = consume_items L items (gw_pipeline gw)"
    using consumer_packet_total [OF assms(3), of L "take RECEIVE_BUFFER d" "gw_pipeline gw"] packet by auto
  ultimately show ?thesis using gateway_queues.consume_items_run [OF assms(1) run, of items] by blast
qed

text \<open>A datagram that is a sequence of frames, and the events of those that parse.\<close>

definition framed :: "u8 list \<Rightarrow> u8 list list \<Rightarrow> bool" where
  "framed d ms \<longleftrightarrow> (\<exists>tail. d = concat (map length_prefixed ms) @ tail \<and> packet_ends tail)
     \<and> length d \<le> RECEIVE_BUFFER \<and> (\<forall>m \<in> set ms. 2 \<le> length m \<and> length m < 2 ^ 16)"

definition frame_events :: "u8 list list \<Rightarrow> itch_event list" where
  "frame_events ms = [ev. Inr ev \<leftarrow> map (decode_message \<circ> length_prefixed) ms]"

section \<open>Properties\<close>

text \<open>
  C12: From the wire to the queue.  A turn of the consumer never fails and never reads a byte
  the socket has not written: it either leaves everything as it was (the socket reported an
  error), or it takes exactly the next datagram; when that one is a sequence of well-formed
  frames that fits the receive buffer, the queue then holds what it held, followed by the
  events of the frames that parse, in order, up to its capacity.
\<close>

theorem consumer_turn_enqueues:
  assumes "gateway_queues L Q P V" "udp_socket S pending" "big_endian_reader rd" "receiver_ok r"
    and "length (v_event V (event_tx pl)) \<le> EVENT_QUEUE_CAP"
  shows "\<exists>r' pl'. consumer_turn S rd L r pl = Some (r', pl') \<and> receiver_ok r'
    \<and> (pending (mr_socket r') = pending (mr_socket r) \<and> pl' = pl
       \<or> (\<exists>d. pending (mr_socket r) = d # pending (mr_socket r')
           \<and> (\<forall>ms. framed d ms \<longrightarrow>
                v_event V (event_tx pl') = take EVENT_QUEUE_CAP (v_event V (event_tx pl) @ frame_events ms))))"
proof (rule consumer_turn_cases [OF assms(2-4), of L pl])
  fix r' d pl'
  assume turn: "consumer_turn S rd L r pl = Some (r', pl')" "receiver_ok r'"
      "pending (mr_socket r) = d # pending (mr_socket r')"
    and packet: "consumer_packet rd L (take RECEIVE_BUFFER d) pl = Some pl'"
  have "v_event V (event_tx pl') = take EVENT_QUEUE_CAP (v_event V (event_tx pl) @ frame_events ms)"
    if frames: "framed d ms" for ms
  proof -
    have "parse_multicast_packet rd (take RECEIVE_BUFFER d) = Some (map (decode_message \<circ> length_prefixed) ms)"
      using big_endian_reader.parse_packet_frames [OF assms(3), of ms _ "[]"] frames
      by (auto simp: parse_multicast_packet_def framed_def)
    with packet have "pl' = consume_items L (map (decode_message \<circ> length_prefixed) ms) pl"
      by (simp add: consumer_packet_def)
    then show ?thesis
      using gateway_queues.consume_items_contents [OF assms(1,5)] unfolding frame_events_def by blast
  qed
  with turn show ?thesis by blast
qed blast

theorem consumer_turn_enqueues_witness:
  "\<exists>r' pl'. consumer_turn list_socket byteorder_be list_pipeline
       (receiver_of [length_prefixed [0x53, 0, 0, 0, 0, 0, 9, 0x4F, 0, 0, 0, 0]]) (fresh_pipeline []) = Some (r', pl')
     \<and> event_tx pl' = [SystemEvent 9 0x4F]"
proof -
  let ?m = "[0x53, 0, 0, 0, 0, 0, 9, 0x4F, 0, 0, 0, 0] :: u8 list"
  define d where "d = length_prefixed ?m"
  have decode: "decode_message d = Inr (SystemEvent 9 0x4F)"
    by (simp add: d_def decode_message_def guard_length_def length_prefixed_def be_digits_def
        le_digits_numeral decode_fields_def be_at_def bytes_at_def be_value_def)
  have "d = concat (map length_prefixed [?m]) @ []" "packet_ends []"
    by (simp_all add: d_def packet_ends_def)
  moreover have "length d \<le> RECEIVE_BUFFER"
    by (simp add: d_def length_prefixed_def RECEIVE_BUFFER_def be_digits_def le_digits_numeral)
  ultimately have frames: "framed d [?m]" unfolding framed_def by (intro conjI exI) simp_all
  have "length (v_event list_views (event_tx (fresh_pipeline []))) \<le> EVENT_QUEUE_CAP"
    by (simp add: list_views_def)
  note step = consumer_turn_enqueues [OF lists.gateway_queues_axioms ls.udp_socket_axioms
      feed.big_endian_reader_axioms receiver_of_ok this, of "[d]"]
  have view: "v_event list_views q = q" for q by (simp add: list_views_def)
  from step [unfolded view fresh_pipeline_simps]
  obtain r' pl' where turn: "consumer_turn list_socket byteorder_be list_pipeline (receiver_of [d])
      (fresh_pipeline []) = Some (r', pl')"
    and res: "mr_socket r' = mr_socket (receiver_of [d]) \<or>
      (\<exists>d'. mr_socket (receiver_of [d]) = d' # mr_socket r' \<and>
        (\<forall>ms. framed d' ms \<longrightarrow> event_tx pl' =
         take EVENT_QUEUE_CAP ([] @ frame_events ms)))"
    by blast
  have "mr_socket r' = []"
    using turn by (auto simp: consumer_turn_def receive_def list_socket_def receiver_of_def Let_def
        split: option.splits)
  then have "event_tx pl' =
      take EVENT_QUEUE_CAP ([] @ frame_events [?m])"
    using res frames by (simp add: receiver_of_def)
  then have "event_tx pl' = [SystemEvent 9 0x4F]"
    using decode by (simp add: EVENT_QUEUE_CAP_def frame_events_def flip: d_def)
  with turn show ?thesis unfolding d_def by blast
qed

end
