(* ===== verification/System_Run.thy ===== *)
theory System_Run
  imports Receiver_Correct Client_View
begin

text \<open>
  The whole gateway, from the datagrams on the wire to the bytes its clients are sent: the
  threads of \<open>gw_step\<close> together with the consumer, which takes datagrams from the socket.
\<close>

section \<open>Arrivals\<close>

text \<open>The events of the messages that parse in a datagram, as far as it fits the buffer.\<close>

definition arrivals :: "byte_reader \<Rightarrow> u8 list list \<Rightarrow> itch_event list" where
  "arrivals rd ds =
     concat (map (\<lambda>d. [ev. Inr ev \<leftarrow> the (parse_multicast_packet rd (take RECEIVE_BUFFER d))]) ds)"

lemma arrivals_simps [simp]:
  "arrivals rd [] = []" "arrivals rd (ds @ ds') = arrivals rd ds @ arrivals rd ds'"
  by (simp_all add: arrivals_def)

lemma arrivals_framed:
  assumes "big_endian_reader rd" "list_all2 framed ds mss"
  shows "arrivals rd ds = frame_events (concat mss)"
  using assms(2)
proof (induction rule: list_all2_induct)
  case (Cons d ds ms mss)
  have "parse_multicast_packet rd (take RECEIVE_BUFFER d) = Some (map (decode_message \<circ> length_prefixed) ms)"
    using big_endian_reader.parse_packet_frames [OF assms(1), of ms _ "[]"] Cons.hyps(1)
    by (auto simp: parse_multicast_packet_def framed_def)
  with Cons.IH show ?case by (simp add: arrivals_def frame_events_def)
qed (simp add: frame_events_def)

section \<open>Runs of the system\<close>

text \<open>
  A run starts as a gateway that has accepted nothing, with a receiver.  It records the
  datagrams the consumer has taken, how many of their events the full queue has refused, the
  events the writer has handled, the updates it has published and those streamed.  The step
  of a turn of the consumer is that of the code; those of the other threads accept nothing.
\<close>

inductive sys_run ::
  "'f float_ops \<Rightarrow> ('f, 'e, 'b, 'o, 's) pipeline_ops \<Rightarrow> (bbo_update, 'q) queue_ops
     \<Rightarrow> ('f aggregated_option_snapshot, 'p) queue_ops
     \<Rightarrow> ('f, 'e, 'b, 'o, 's, 'q, 'p) queue_views \<Rightarrow> ('f \<Rightarrow> u64) \<Rightarrow> (write_outcome \<Rightarrow> bool)
     \<Rightarrow> ('x, 't) socket_ops \<Rightarrow> ('t \<Rightarrow> u8 list list) \<Rightarrow> byte_reader
     \<Rightarrow> 't multicast_receiver \<Rightarrow> 't multicast_receiver \<Rightarrow> ('f, 'e, 'b, 'o, 's, 'q, 'p) gateway \<Rightarrow> u8 list list \<Rightarrow> nat
     \<Rightarrow> itch_event list \<Rightarrow> bbo_update list \<Rightarrow> bbo_update list \<Rightarrow> bool"
  for F L Q P V bits R S pending rd r0 where
  start: "gw_run F L Q P V bits R gw [] [] [] [] \<Longrightarrow> receiver_ok r0 \<Longrightarrow>
    sys_run F L Q P V bits R S pending rd r0 r0 gw [] 0 [] [] []"
| consume: "sys_run F L Q P V bits R S pending rd r0 r gw arrived refused handled sent streamed \<Longrightarrow>
    consumer_turn S rd L r (gw_pipeline gw) = Some (r', pl) \<Longrightarrow>
    pending (mr_socket r) = ds @ pending (mr_socket r') \<Longrightarrow>
    sys_run F L Q P V bits R S pending rd r0 r' (gw\<lparr>gw_pipeline := pl\<rparr>) (arrived @ ds)
      (refused + (length (arrivals rd ds)
         - (length (v_event V (event_tx pl)) - length (v_event V (event_tx (gw_pipeline gw))))))
      handled sent streamed"
| work: "sys_run F L Q P V bits R S pending rd r0 r gw arrived refused handled sent streamed \<Longrightarrow>
    gw_step F L Q P V bits R gw [] hs us ss gw' \<Longrightarrow>
    sys_run F L Q P V bits R S pending rd r0 r gw' arrived refused (handled @ hs) (sent @ us) (streamed @ ss)"

lemma consume_gw_run:
  assumes "gateway_queues L Q P V" "udp_socket S pending" "big_endian_reader rd" "receiver_ok r"
    and run: "gw_run F L Q P V bits R gw accepted handled sent streamed"
    and turn: "consumer_turn S rd L r (gw_pipeline gw) = Some (r', pl)"
    and ds: "pending (mr_socket r) = ds @ pending (mr_socket r')"
  obtains evs where "gw_run F L Q P V bits R (gw\<lparr>gw_pipeline := pl\<rparr>) (accepted @ evs) handled sent streamed"
    "subseq evs (arrivals rd ds)" "receiver_ok r'"
    "length (v_event V (event_tx pl)) = length (v_event V (event_tx (gw_pipeline gw))) + length evs"
proof (rule consumer_turn_cases [OF assms(2-4), of L "gw_pipeline gw"])
  fix r1 assume "consumer_turn S rd L r (gw_pipeline gw) = Some (r1, gw_pipeline gw)" "receiver_ok r1"
    "pending (mr_socket r1) = pending (mr_socket r)"
  then have "r' = r1" "pl = gw_pipeline gw" "ds = []" "receiver_ok r1" using turn ds by simp_all
  with run show thesis by (intro that [of "[]"]) simp_all
next
  fix r1 d pl1
  assume "consumer_turn S rd L r (gw_pipeline gw) = Some (r1, pl1)" "receiver_ok r1"
    and "pending (mr_socket r) = d # pending (mr_socket r1)"
    and packet: "consumer_packet rd L (take RECEIVE_BUFFER d) (gw_pipeline gw) = Some pl1"
  then have eq: "r' = r1" "pl = pl1" "ds = [d]" "receiver_ok r1" using turn ds by simp_all
  obtain items where items: "parse_multicast_packet rd (take RECEIVE_BUFFER d) = Some items"
    and pl: "pl = consume_items L items (gw_pipeline gw)"
    using packet eq(2) by (auto simp: consumer_packet_def split: option.splits)
  obtain evs where evs: "subseq evs [ev. Inr ev \<leftarrow> items]"
      "gw_run F L Q P V bits R (gw\<lparr>gw_pipeline := pl\<rparr>) (accepted @ evs) handled sent streamed"
    using gateway_queues.consume_items_run [OF assms(1) run, of items] unfolding pl by blast
  have "handled @ v_event V (event_tx pl) = accepted @ evs"
    "handled @ v_event V (event_tx (gw_pipeline gw)) = accepted"
    using gateway_queues.gateway_ok_run [OF assms(1) evs(2)] gateway_queues.gateway_ok_run [OF assms(1) run]
    by (simp_all add: gateway_ok_def Let_def)
  then have "length (v_event V (event_tx pl)) = length (v_event V (event_tx (gw_pipeline gw))) + length evs"
    by (metis append.assoc same_append_eq length_append)
  moreover have "arrivals rd ds = [ev. Inr ev \<leftarrow> items]" by (simp add: eq(3) arrivals_def items)
  ultimately show thesis using evs eq that by simp
qed

text \<open>What the gateway has accepted of the arrivals.\<close>

lemma sys_run_gw_run:
  assumes "gateway_queues L Q P V" "udp_socket S pending" "big_endian_reader rd"
  shows "sys_run F L Q P V bits R S pending rd r0 r gw arrived refused handled sent streamed \<Longrightarrow>
    receiver_ok r \<and> pending (mr_socket r0) = arrived @ pending (mr_socket r) \<and> (\<exists>accepted. gw_run F L Q P V bits R gw accepted handled sent streamed
      \<and> subseq accepted (arrivals rd arrived) \<and> length (arrivals rd arrived) = length accepted + refused)"
proof (induction rule: sys_run.induct)
  case (start gw)
  then show ?case by auto
next
  case (consume r gw arrived refused handled sent streamed r' pl ds)
  then obtain accepted where accepted: "gw_run F L Q P V bits R gw accepted handled sent streamed"
    "subseq accepted (arrivals rd arrived)" "length (arrivals rd arrived) = length accepted + refused"
    and r: "receiver_ok r" "pending (mr_socket r0) = arrived @ pending (mr_socket r)" by blast
  obtain evs where evs: "gw_run F L Q P V bits R (gw\<lparr>gw_pipeline := pl\<rparr>) (accepted @ evs) handled sent streamed"
    "subseq evs (arrivals rd ds)" "receiver_ok r'"
    "length (v_event V (event_tx pl)) = length (v_event V (event_tx (gw_pipeline gw))) + length evs"
    by (rule consume_gw_run [OF assms r(1) accepted(1) consume.hyps(2,3)])
  have "length evs \<le> length (arrivals rd ds)" using evs(2) by (rule list_emb_length)
  with accepted(2,3) evs r(2) consume.hyps(3) show ?case by (auto intro!: exI [of _ "accepted @ evs"] list_emb_append_mono)
next
  case (work r gw arrived refused handled sent streamed hs us ss gw')
  then obtain accepted where accepted: "gw_run F L Q P V bits R gw accepted handled sent streamed"
    "subseq accepted (arrivals rd arrived)" "length (arrivals rd arrived) = length accepted + refused" "receiver_ok r"
    "pending (mr_socket r0) = arrived @ pending (mr_socket r)"
    by blast
  from gw_run.step [OF accepted(1) work.hyps(2)] accepted(2-5) show ?case by auto
qed

lemma sys_run_unrefused:
  assumes "gateway_queues L Q P V" "udp_socket S pending" "big_endian_reader rd"
    and "sys_run F L Q P V bits R S pending rd r0 r gw arrived 0 handled sent streamed"
    and "list_all2 framed arrived mss"
  shows "pending (mr_socket r0) = arrived @ pending (mr_socket r)"
    and "gw_run F L Q P V bits R gw (frame_events (concat mss)) handled sent streamed"
    and "frame_events (concat mss) = handled @ v_event V (event_tx (gw_pipeline gw))"
proof -
  from sys_run_gw_run [OF assms(1-4)] obtain accepted where
    run: "gw_run F L Q P V bits R gw accepted handled sent streamed"
    and all: "subseq accepted (arrivals rd arrived)" "length (arrivals rd arrived) = length accepted + 0"
    and pending: "pending (mr_socket r0) = arrived @ pending (mr_socket r)"
    by blast
  have "accepted = frame_events (concat mss)"
    using all subseq_same_length [OF all(1)] arrivals_framed [OF assms(3,5)] by simp
  with run show run: "gw_run F L Q P V bits R gw (frame_events (concat mss)) handled sent streamed" by simp
  from gateway_queues.gateway_ok_run [OF assms(1) run]
  show "frame_events (concat mss) = handled @ v_event V (event_tx (gw_pipeline gw))"
    by (simp add: gateway_ok_def Let_def)
  show "pending (mr_socket r0) = arrived @ pending (mr_socket r)" by (rule pending)
qed

section \<open>A datagram that reaches a client\<close>

definition sample_datagram :: "u8 list" where
  "sample_datagram = encode_message sample_order [0]"

lemma sample_framed:
  "list_all2 framed [sample_datagram] [[encode_type sample_order # encode_fields sample_order @ [0]]]"
  "frame_events [encode_type sample_order # encode_fields sample_order @ [0]] = [sample_order]"
proof -
  let ?m = "encode_type sample_order # encode_fields sample_order @ [0]"
  have d: "sample_datagram = length_prefixed ?m" unfolding sample_datagram_def encode_message_def ..
  have len: "length ?m = 33" by (simp add: be64_def be32_def be48_def be_price_def)
  have "sample_datagram = concat (map length_prefixed [?m]) @ []" "packet_ends []"
    by (simp_all add: d packet_ends_def)
  moreover have "length sample_datagram \<le> RECEIVE_BUFFER"
    unfolding d length_length_prefixed len by (simp add: RECEIVE_BUFFER_def)
  ultimately show "list_all2 framed [sample_datagram] [[?m]]"
    using len unfolding framed_def by (simp only: list_all2_Cons list_all2_Nil) (intro conjI exI; simp)
  have "decode_fields (encode_type sample_order) (encode_fields sample_order @ [0]) = Inr sample_order"
    by (rule decode_encode_fields) (simp add: timestamp_ok_def price_ok_def)
  then have "decode_message (length_prefixed ?m) = Inr sample_order"
    using len by (simp add: decode_message_def length_prefixed_def nth_append guard_length_def)
  then show "frame_events [?m] = [sample_order]" by (simp add: frame_events_def)
qed

abbreviation "sample_sys_run \<equiv>
  sys_run exact_ops list_pipeline (list_queue BROADCAST_QUEUE_CAP) (list_queue OPTION_QUEUE_CAP)
    list_views (\<lambda>_. 0) no_block list_socket (\<lambda>s. s) byteorder_be (receiver_of [sample_datagram])"

lemma sample_consume:
  "\<exists>r. consumer_turn list_socket byteorder_be list_pipeline (receiver_of [sample_datagram]) (fresh_pipeline [])
     = Some (r, fresh_pipeline [sample_order]) \<and> mr_socket r = []"
proof (rule consumer_turn_cases [OF ls.udp_socket_axioms feed.big_endian_reader_axioms receiver_of_ok,
      of list_pipeline "[sample_datagram]" "fresh_pipeline []"])
  fix r' assume "consumer_turn list_socket byteorder_be list_pipeline (receiver_of [sample_datagram]) (fresh_pipeline []) =
      Some (r', fresh_pipeline [])" "mr_socket r' = mr_socket (receiver_of [sample_datagram])"
  then show ?thesis by (auto simp: consumer_turn_def receive_def list_socket_def receiver_of_def Let_def
      split: option.splits)
next
  fix r' d pl'
  assume turn: "consumer_turn list_socket byteorder_be list_pipeline (receiver_of [sample_datagram]) (fresh_pipeline []) =
      Some (r', pl')" "mr_socket (receiver_of [sample_datagram]) = d # mr_socket r'"
    and packet: "consumer_packet byteorder_be list_pipeline (take RECEIVE_BUFFER d) (fresh_pipeline []) = Some pl'"
  have d: "d = sample_datagram" "mr_socket r' = []" using turn(2) by (simp_all add: receiver_of_def)
  obtain items where items: "parse_multicast_packet byteorder_be (take RECEIVE_BUFFER d) = Some items"
    and pl': "pl' = consume_items list_pipeline items (fresh_pipeline [])"
    using packet by (auto simp: consumer_packet_def split: option.splits)
  have "arrivals byteorder_be [d] = [sample_order]"
    using arrivals_framed [OF feed.big_endian_reader_axioms sample_framed(1)] sample_framed(2) d(1) by simp
  then have events: "[ev. Inr ev \<leftarrow> items] = [sample_order]" by (simp add: arrivals_def items)
  have "length (v_event list_views (event_tx (fresh_pipeline []))) \<le> EVENT_QUEUE_CAP"
    by (simp add: list_views_def)
  note queued = lists.consume_items_contents [OF this, of items, folded pl', unfolded events]
  have "event_tx pl' = [sample_order]"
    using queued [THEN conjunct1] by (simp add: list_views_def EVENT_QUEUE_CAP_def)
  with queued [THEN conjunct2] have "pl' = (fresh_pipeline [])\<lparr>event_tx := [sample_order]\<rparr>" by (simp only:)
  then have "pl' = fresh_pipeline [sample_order]" by simp
  with turn(1) d(2) show ?thesis by blast
qed

text \<open>The state before the first turn, and that after the consumer has taken the datagram.\<close>

lemma sample_start:
  "sample_sys_run (receiver_of [sample_datagram]) (fresh_gateway []) [] 0 [] [] []"
  by (rule sys_run.start, rule gw_run.start)
    (simp_all add: fresh_server_def broadcast_server_new_def list_views_def)

lemma sample_consumed:
  "\<exists>r. sample_sys_run r (fresh_gateway [sample_order]) [sample_datagram] 0 [] [] []"
proof -
  obtain r where turn: "consumer_turn list_socket byteorder_be list_pipeline (receiver_of [sample_datagram])
      (gw_pipeline (fresh_gateway [])) = Some (r, fresh_pipeline [sample_order])" and r: "mr_socket r = []"
    using sample_consume by (auto simp: gateway_new_def)
  have "arrivals byteorder_be [sample_datagram] = [sample_order]"
    using arrivals_framed [OF feed.big_endian_reader_axioms sample_framed(1)] sample_framed(2) by simp
  with sys_run.consume [OF sample_start turn, of "[sample_datagram]"] r
  have "sample_sys_run r (fresh_gateway [sample_order]) [sample_datagram] 0 [] [] []"
    by (simp add: receiver_of_def gateway_new_def list_views_def)
  then show ?thesis ..
qed

lemma sample_system_run:
  "\<exists>r gw u c. sample_sys_run r gw [sample_datagram] 0 [sample_order] [u] [u]
     \<and> c \<in> set (srv_clients (wr_server (gw_writer gw))) \<and> cl_stream c = bbo_frame u \<and> upd_stock u = 7
     \<and> gw_pipeline gw = fresh_pipeline []"
proof -
  obtain r where consumed: "sample_sys_run r (fresh_gateway [sample_order]) [sample_datagram] 0 [] [] []"
    using sample_consumed by blast
  obtain gw u where step: "gw_step exact_ops list_pipeline (list_queue BROADCAST_QUEUE_CAP)
      (list_queue OPTION_QUEUE_CAP) list_views (\<lambda>_. 0) no_block (fresh_gateway [sample_order]) [] [sample_order] [u] [] gw"
    and gw: "wr_server (gw_writer gw) = enqueue_bbo (list_queue BROADCAST_QUEUE_CAP) u fresh_server"
      "wr_order_book (gw_writer gw) = fst (ob_apply [] order_book_new sample_order)" "gw_pipeline gw = fresh_pipeline []"
    using sample_step [of "\<lambda>_. 0" no_block] by blast
  obtain gw' gw'' and c :: client where
    steps: "gw_step exact_ops list_pipeline (list_queue BROADCAST_QUEUE_CAP) (list_queue OPTION_QUEUE_CAP)
      list_views (\<lambda>_. 0) no_block gw [] [] [] [] gw'"
    "gw_step exact_ops list_pipeline (list_queue BROADCAST_QUEUE_CAP) (list_queue OPTION_QUEUE_CAP)
      list_views (\<lambda>_. 0) no_block gw' [] [] [] [u] gw''"
    and c: "c \<in> set (srv_clients (wr_server (gw_writer gw'')))" "cl_stream c = bbo_frame u"
      "gw_pipeline gw'' = gw_pipeline gw"
    using sample_client_steps [OF gw(1)] by blast
  note run = sys_run.work [OF sys_run.work [OF sys_run.work [OF consumed step] steps(1)] steps(2)]
  have "feeds order_book_new [sample_order] (wr_order_book (gw_writer gw'')) [u]"
    using sys_run_unrefused(2) [OF lists.gateway_queues_axioms ls.udp_socket_axioms feed.big_endian_reader_axioms
        run sample_framed(1)] lists.streamed_sent by fastforce
  then have "upd_stock u = 7" using sample_published by blast
  with run c gw(3) show ?thesis by auto
qed

end
