(* ===== verification/Schedules.thy ===== *)
theory Schedules
  imports System_Run
begin

text \<open>
  Schedules: the threads of the gateway taking whole turns in a given order, and how much of
  its queues a schedule fills.  A check on the schedule alone decides that nothing is lost.
\<close>

section \<open>Turns\<close>

text \<open>A turn of a thread, with what the thread reads from its environment in it.\<close>

datatype turn =
    is_Consume: Consume
  | is_Write: Write "nat \<Rightarrow> order_book \<Rightarrow> env" "nat \<Rightarrow> env" "u64 list"
  | is_Broadcast: Broadcast "nat \<Rightarrow> write_outcome"
  | Report
  | Accept accept_outcome

text \<open>The threads' state, and what the monitor has logged.\<close>

record ('f, 'e, 'b, 'o, 's, 'q, 'p, 't) system =
  sy_receiver :: "'t multicast_receiver"
  sy_gateway :: "('f, 'e, 'b, 'o, 's, 'q, 'p) gateway"
  sy_reports :: "(u64 \<times> u64 \<times> u64) list"

definition system_new ::
  "'t multicast_receiver \<Rightarrow> ('f, 'e, 'b, 'o, 's, 'q, 'p) gateway \<Rightarrow> ('f, 'e, 'b, 'o, 's, 'q, 'p, 't) system" where
  "system_new r gw = \<lparr>sy_receiver = r, sy_gateway = gw, sy_reports = []\<rparr>"

fun take_turn ::
  "'f float_ops \<Rightarrow> ('f, 'e, 'b, 'o, 's) pipeline_ops \<Rightarrow> (bbo_update, 'q) queue_ops
     \<Rightarrow> ('f aggregated_option_snapshot, 'p) queue_ops \<Rightarrow> ('f \<Rightarrow> u64) \<Rightarrow> ('x, 't) socket_ops \<Rightarrow> byte_reader
     \<Rightarrow> turn \<Rightarrow> ('f, 'e, 'b, 'o, 's, 'q, 'p, 't) system \<Rightarrow> ('f, 'e, 'b, 'o, 's, 'q, 'p, 't) system option" where
  "take_turn F L Q P bits S rd Consume sys =
     map_option (\<lambda>(r, pl). sys\<lparr>sy_receiver := r, sy_gateway := (sy_gateway sys)\<lparr>gw_pipeline := pl\<rparr>\<rparr>)
       (consumer_turn S rd L (sy_receiver sys) (gw_pipeline (sy_gateway sys)))"
| "take_turn F L Q P bits S rd (Write es es' ks) sys =
     map_option (\<lambda>gw. sys\<lparr>sy_gateway := gw\<rparr>) (writer_turn F L Q P es es' ks (sy_gateway sys))"
| "take_turn F L Q P bits S rd (Broadcast res) sys =
     map_option (\<lambda>srv. sys\<lparr>sy_gateway := on_server (\<lambda>_. srv) (sy_gateway sys)\<rparr>)
       (broadcast_turn Q P bits res (wr_server (gw_writer (sy_gateway sys))))"
| "take_turn F L Q P bits S rd Report sys =
     (let (counts, gw) = stats_turn (sy_gateway sys)
      in Some (sys\<lparr>sy_gateway := gw, sy_reports := sy_reports sys @ [counts]\<rparr>))"
| "take_turn F L Q P bits S rd (Accept result) sys =
     Some (sys\<lparr>sy_gateway := on_server (accept_loop_turn result) (sy_gateway sys)\<rparr>)"

fun run_turns ::
  "'f float_ops \<Rightarrow> ('f, 'e, 'b, 'o, 's) pipeline_ops \<Rightarrow> (bbo_update, 'q) queue_ops
     \<Rightarrow> ('f aggregated_option_snapshot, 'p) queue_ops \<Rightarrow> ('f \<Rightarrow> u64) \<Rightarrow> ('x, 't) socket_ops \<Rightarrow> byte_reader
     \<Rightarrow> turn list \<Rightarrow> ('f, 'e, 'b, 'o, 's, 'q, 'p, 't) system \<Rightarrow> ('f, 'e, 'b, 'o, 's, 'q, 'p, 't) system option" where
  "run_turns F L Q P bits S rd [] sys = Some sys"
| "run_turns F L Q P bits S rd (t # ts) sys =
     Option.bind (take_turn F L Q P bits S rd t sys) (run_turns F L Q P bits S rd ts)"

text \<open>
  What is asked of an environment: it visits the books in an order of their map, its writes
  end as \<open>R\<close> allows and fail for at most 64 positions at once, and a new connection has been
  sent nothing.
\<close>

fun turn_ok :: "(write_outcome \<Rightarrow> bool) \<Rightarrow> turn \<Rightarrow> bool" where
  "turn_ok R (Write es es' ks) \<longleftrightarrow> honest es"
| "turn_ok R (Broadcast res) \<longleftrightarrow> (\<forall>i. R (res i)) \<and> card {i. i < MAX_CLIENTS \<and> marks (res i)} \<le> REMOVE_CAP"
| "turn_ok R (Accept (Accepted c)) \<longleftrightarrow> cl_stream c = []"
| "turn_ok R _ \<longleftrightarrow> True"

section \<open>The backlog of a schedule\<close>

text \<open>
  How many events and updates a schedule can leave in the queues, from how many there are:
  a datagram holds at most 4681 events, and an event makes at most one update.  There is no
  answer when a queue might be full.
\<close>

definition PACKET_EVENTS :: nat where "PACKET_EVENTS = RECEIVE_BUFFER div 14"

fun backlog :: "turn list \<Rightarrow> nat \<times> nat \<Rightarrow> (nat \<times> nat) option" where
  "backlog [] q = Some q"
| "backlog (Consume # ts) (e, b) =
     (if e + PACKET_EVENTS \<le> EVENT_QUEUE_CAP then backlog ts (e + PACKET_EVENTS, b) else None)"
| "backlog (Write es es' ks # ts) (e, b) =
     (let n = min e WRITER_BATCH_SIZE
      in if b + n \<le> BROADCAST_QUEUE_CAP then backlog ts (e - n, b + n) else None)"
| "backlog (Broadcast res # ts) (e, b) = backlog ts (e, b - BATCH_SIZE)"
| "backlog (Report # ts) q = backlog ts q"
| "backlog (Accept result # ts) q = backlog ts q"

lemma backlog_append: "backlog (ts @ ts') q = Option.bind (backlog ts q) (backlog ts')"
  by (induction ts q rule: backlog.induct) (simp_all add: Let_def)

lemma run_turns_append:
  "run_turns F L Q P bits S rd (ts @ ts') sys =
     Option.bind (run_turns F L Q P bits S rd ts sys) (run_turns F L Q P bits S rd ts')"
  by (induction ts arbitrary: sys) (simp_all split: Option.bind_split)

section \<open>A schedule with a backlog loses nothing\<close>

lemma feeds_length: "feeds ob evs ob' us \<Longrightarrow> length us \<le> length evs"
  by (induction rule: feeds.induct) (auto split: option.split)

lemma arrivals_length:
  assumes "big_endian_reader rd"
  shows "length (arrivals rd [d]) \<le> PACKET_EVENTS"
proof -
  obtain items where items: "parse_multicast_packet rd (take RECEIVE_BUFFER d) = Some items"
    and "14 * length [ev. Inr ev \<leftarrow> items] \<le> length (take RECEIVE_BUFFER d)"
    using big_endian_reader.parse_packet_bound [OF assms, of 0 "take RECEIVE_BUFFER d"]
    by (auto simp: parse_multicast_packet_def)
  then have "14 * length [ev. Inr ev \<leftarrow> items] \<le> RECEIVE_BUFFER" by simp
  then show ?thesis using items by (simp add: arrivals_def PACKET_EVENTS_def)
qed

text \<open>A socket that does not fail while a datagram is there.\<close>

definition socket_ready :: "('x, 't) socket_ops \<Rightarrow> ('t \<Rightarrow> u8 list list) \<Rightarrow> bool" where
  "socket_ready S pending \<longleftrightarrow>
     (\<forall>buf s. pending s \<noteq> [] \<longrightarrow> (\<exists>n buf' s'. so_recv S buf s = (Inr n, buf', s')))"

lemma consumer_turn_ready:
  assumes "udp_socket S pending" "receiver_ok r" "socket_ready S pending" "pending (mr_socket r) \<noteq> []"
    and "consumer_turn S rd L r pl = Some (r', pl')"
  shows "pending (mr_socket r) = hd (pending (mr_socket r)) # pending (mr_socket r')"
proof -
  obtain n buf s where "so_recv S (mr_buffer r) (mr_socket r) = (Inr n, buf, s)"
    using assms(3,4) unfolding socket_ready_def by blast
  moreover obtain r1 result where rcv: "receive S r = Some (result, r1)"
    and "case result of
       Inr packet \<Rightarrow> (\<exists>d. pending (mr_socket r) = d # pending (mr_socket r1) \<and> packet = take RECEIVE_BUFFER d)
     | Inl e \<Rightarrow> pending (mr_socket r1) = pending (mr_socket r)"
    using udp_socket.receive_result [OF assms(1,2)] by blast
  ultimately obtain d packet where "result = Inr packet" "pending (mr_socket r) = d # pending (mr_socket r1)"
    by (auto simp: receive_def Let_def split: option.splits)
  moreover from this rcv assms(5) have "r' = r1" by (auto simp: consumer_turn_def)
  ultimately show ?thesis by simp
qed

locale system_parts = gateway_queues L Q P V + udp_socket S pending + big_endian_reader rd
  for L :: "('f, 'e, 'b, 'o, 's) pipeline_ops"
    and Q :: "(bbo_update, 'q) queue_ops"
    and P :: "('f aggregated_option_snapshot, 'p) queue_ops"
    and V :: "('f, 'e, 'b, 'o, 's, 'q, 'p) queue_views"
    and S :: "('x, 't) socket_ops" and pending :: "'t \<Rightarrow> u8 list list" and rd :: byte_reader

interpretation whole: system_parts list_pipeline "list_queue BROADCAST_QUEUE_CAP"
  "list_queue OPTION_QUEUE_CAP" list_views list_socket "\<lambda>s. s" byteorder_be
  by unfold_locales


text \<open>The steps of the other threads carry a run of the system on.\<close>

lemma sys_run_steps:
  "gw_steps F L Q P V bits R gw evs hs us ss gw' \<Longrightarrow> evs = [] \<Longrightarrow>
     sys_run F L Q P V bits R S pending rd r0 r gw arrived refused handled sent streamed \<Longrightarrow>
     sys_run F L Q P V bits R S pending rd r0 r gw' arrived refused (handled @ hs) (sent @ us) (streamed @ ss)"
proof (induction arbitrary: handled sent streamed rule: gw_steps.induct)
  case (step gw evs hs us ss gw1 evs' hs' us' ss' gw')
  then have "gw_step F L Q P V bits R gw [] hs us ss gw1" "evs' = []" by simp_all
  from step.IH [OF this(2) sys_run.work [OF step.prems(2) this(1)]] show ?case by simp
qed simp

lemmas sys_run_step = sys_run_steps [OF gw_steps_step refl, unfolded append_Nil2]

abbreviation "queued_events V sys \<equiv> v_event V (event_tx (gw_pipeline (sy_gateway sys)))"
abbreviation "queued_updates V sys \<equiv> v_server_bbo V (broadcast_queue (wr_server (gw_writer (sy_gateway sys))))"

text \<open>What the monitor has logged of the updates and still will.\<close>

definition logged_updates :: "('f, 'e, 'b, 'o, 's, 'q, 'p, 't) system \<Rightarrow> u64" where
  "logged_updates sys =
     sum_list (map (\<lambda>(events, bbos, options). bbos) (sy_reports sys)) + total_bbo_updates (sy_gateway sys)"

lemma enqueue_bbo_room:
  assumes "array_queue Q cq cap" "length (cq (broadcast_queue srv)) + length us \<le> cap"
  shows "cq (broadcast_queue (fold (enqueue_bbo Q) us srv)) = cq (broadcast_queue srv) @ us"
  using assms(2)
proof (induction us arbitrary: srv)
  case (Cons u us)
  then obtain q where q: "q_push Q u (broadcast_queue srv) = Some q"
    using array_queue.push_full [OF assms(1), of u "broadcast_queue srv"] by fastforce
  with Cons array_queue.push_Some [OF assms(1) q] show ?case by (simp add: enqueue_bbo_def)
qed simp

context system_parts
begin

lemma consume_turn:
  assumes run: "sys_run F L Q P V bits R S pending rd r0 (sy_receiver sys) (sy_gateway sys) arrived refused handled sent streamed"
    and room: "length (queued_events V sys) + PACKET_EVENTS \<le> EVENT_QUEUE_CAP"
  obtains sys' ds where "take_turn F L Q P bits S rd Consume sys = Some sys'"
    "sys_run F L Q P V bits R S pending rd r0 (sy_receiver sys') (sy_gateway sys') (arrived @ ds) refused handled sent streamed"
    "queued_events V sys' = queued_events V sys @ arrivals rd ds" "length (arrivals rd ds) \<le> PACKET_EVENTS"
    "gw_writer (sy_gateway sys') = gw_writer (sy_gateway sys)" "logged_updates sys' = logged_updates sys"
    "pending (mr_socket (sy_receiver sys)) = ds @ pending (mr_socket (sy_receiver sys'))"
    "socket_ready S pending \<Longrightarrow> length ds = min 1 (length (pending (mr_socket (sy_receiver sys))))"
proof -
  note system = gateway_queues_axioms udp_socket_axioms big_endian_reader_axioms
  let ?r = "sy_receiver sys" and ?gw = "sy_gateway sys"
  have ok: "receiver_ok ?r" using sys_run_gw_run [OF system run] by blast
  show thesis
  proof (rule consumer_turn_cases [OF system(2,3) ok, of L "gw_pipeline ?gw"])
    fix r' assume turn: "consumer_turn S rd L ?r (gw_pipeline ?gw) = Some (r', gw_pipeline ?gw)"
      and "pending (mr_socket r') = pending (mr_socket ?r)"
    then have same: "pending (mr_socket ?r) = [] @ pending (mr_socket r')" by simp
    moreover have "pending (mr_socket ?r) = []" if "socket_ready S pending"
      using consumer_turn_ready [OF system(2) ok that _ turn] same by (metis append_Nil not_Cons_self2)
    ultimately show thesis using sys_run.consume [OF run turn same] turn
      by (intro that [of "sys\<lparr>sy_receiver := r'\<rparr>" "[]"]) (simp_all add: logged_updates_def)
  next
    fix r' d pl'
    assume turn: "consumer_turn S rd L ?r (gw_pipeline ?gw) = Some (r', pl')"
      and taken: "pending (mr_socket ?r) = d # pending (mr_socket r')"
      and packet: "consumer_packet rd L (take RECEIVE_BUFFER d) (gw_pipeline ?gw) = Some pl'"
    then obtain items where items: "parse_multicast_packet rd (take RECEIVE_BUFFER d) = Some items"
      and pl': "pl' = consume_items L items (gw_pipeline ?gw)"
      by (auto simp: consumer_packet_def split: option.splits)
    have arr: "arrivals rd [d] = [ev. Inr ev \<leftarrow> items]" by (simp add: arrivals_def items)
    note few = arrivals_length [OF system(3), of d]
    have "length (queued_events V sys) \<le> EVENT_QUEUE_CAP" using room by simp
    note queue = consume_items_contents [OF this, of items, folded pl' arr, THEN conjunct1]
    then have queue: "v_event V (event_tx pl') = queued_events V sys @ arrivals rd [d]" using room few by simp
    have same: "pending (mr_socket ?r) = [d] @ pending (mr_socket r')" using taken by simp
    from sys_run.consume [OF run turn same] queue turn few same show thesis
      by (intro that [of "sys\<lparr>sy_receiver := r', sy_gateway := ?gw\<lparr>gw_pipeline := pl'\<rparr>\<rparr>" "[d]"])
        (simp_all add: logged_updates_def)
  qed
qed

lemma write_turn:
  assumes run: "sys_run F L Q P V bits R S pending rd r0 (sy_receiver sys) (sy_gateway sys) arrived refused handled sent streamed"
    and "honest es"
  obtains sys' us where "take_turn F L Q P bits S rd (Write es es' ks) sys = Some sys'"
    "sys_run F L Q P V bits R S pending rd r0 (sy_receiver sys') (sy_gateway sys') arrived refused
       (handled @ take WRITER_BATCH_SIZE (queued_events V sys)) (sent @ us) streamed"
    "queued_events V sys' = drop WRITER_BATCH_SIZE (queued_events V sys)"
    "wr_server (gw_writer (sy_gateway sys')) = fold (enqueue_bbo Q) us (wr_server (gw_writer (sy_gateway sys)))"
    "length us \<le> length (take WRITER_BATCH_SIZE (queued_events V sys))"
    "logged_updates sys' = logged_updates sys + of_nat (length us)" "sy_receiver sys' = sy_receiver sys"
proof -
  let ?gw = "sy_gateway sys" and ?evs = "take 1024 (queued_events V sys)"
  let ?n = "length ?evs + length (take 1024 (v_option_event V (option_event_tx (gw_pipeline ?gw))))"
  obtain accepted where "gw_run F L Q P V bits R ?gw accepted handled sent streamed"
    using sys_run_gw_run [OF gateway_queues_axioms udp_socket_axioms big_endian_reader_axioms run] by blast
  from gateway_ok_run [OF this] have "no_contracts (wr_option_manager (gw_writer ?gw))"
    and feed: "feeds order_book_new handled (wr_order_book (gw_writer ?gw)) sent"
    by (simp_all add: gateway_ok_def Let_def)
  moreover have "finite (dom (books (wr_order_book (gw_writer ?gw))))"
    using feeds_finite [OF feed] by (simp add: new_books)
  ultimately obtain q q' m ob us gw' where turn: "writer_turn F L Q P es es' ks ?gw = Some gw'"
    and gw': "gw' = end_turn ks (?gw\<lparr>
      gw_pipeline := (gw_pipeline ?gw)\<lparr>event_tx := q, option_event_tx := q'\<rparr>,
      gw_writer := (gw_writer ?gw)\<lparr>opt_count := 0, wr_order_book := ob,
        wr_server := fold (enqueue_bbo Q) us (wr_server (gw_writer ?gw)), bbo_count := of_nat (length us),
        wr_option_manager := m, events_count := of_nat ?n\<rparr>\<rparr>)"
    and q: "v_event V q = drop 1024 (queued_events V sys)"
    and us: "feeds (wr_order_book (gw_writer ?gw)) ?evs ob us"
    and steps: "gw_steps F L Q P V bits R ?gw [] ?evs us [] gw'"
    using writer_turn_idle [OF assms(2), where F = F and gw = ?gw and es' = es' and ks = ks and bits = bits and R = R]
    by blast
  have "?n < 2 ^ 64" by simp
  then have "length us = 0" if "of_nat ?n = (0 :: u64)"
    using that unat_u64_of_nat [of ?n] feeds_length [OF us] by simp
  then have "total_bbo_updates gw' = total_bbo_updates ?gw + of_nat (length us)"
    by (auto simp: gw' end_turn_def Let_def word_gt_0)
  moreover have "v_event V (event_tx (gw_pipeline gw')) = drop 1024 (queued_events V sys)"
    "wr_server (gw_writer gw') = fold (enqueue_bbo Q) us (wr_server (gw_writer ?gw))"
    using q by (simp_all add: gw' end_turn_def Let_def)
  ultimately show thesis
    using turn feeds_length [OF us] sys_run_steps [OF steps refl run]
    by (intro that [of "sys\<lparr>sy_gateway := gw'\<rparr>" us]) (simp_all add: logged_updates_def WRITER_BATCH_SIZE_def)
qed

lemma broadcast_turn_total:
  assumes "length (srv_clients srv) \<le> MAX_CLIENTS" "card {i. i < MAX_CLIENTS \<and> marks (res i)} \<le> REMOVE_CAP"
  shows "\<exists>srv'. broadcast_turn Q P bits res srv = Some srv'"
proof -
  have "card {i. i < length (srv_clients srv) \<and> marks (res i)} \<le> card {i. i < MAX_CLIENTS \<and> marks (res i)}"
    using assms(1) by (intro card_mono) auto
  then have "length (failed res 0 (length (srv_clients srv))) \<le> 64"
    using assms(2) by (simp add: length_failed REMOVE_CAP_def)
  then have "\<forall>data. \<exists>cs. broadcast_bytes res data (srv_clients srv) = Some cs"
    using broadcast_bytes_result [of res "srv_clients srv"] by auto
  then obtain f where "\<And>data. broadcast_bytes res data (srv_clients srv) = Some (f data)" by metis
  then show ?thesis
    by (simp add: broadcast_turn_def frame_bbos_bytes frame_options_bytes Let_def split: prod.split)
qed

lemma broadcaster_turn:
  assumes run: "sys_run F L Q P V bits R S pending rd r0 (sy_receiver sys) (sy_gateway sys) arrived refused handled sent streamed"
    and "turn_ok R (Broadcast res)"
  obtains sys' where "take_turn F L Q P bits S rd (Broadcast res) sys = Some sys'"
    "sys_run F L Q P V bits R S pending rd r0 (sy_receiver sys') (sy_gateway sys') arrived refused handled sent
       (streamed @ take BATCH_SIZE (queued_updates V sys))"
    "queued_events V sys' = queued_events V sys" "queued_updates V sys' = drop BATCH_SIZE (queued_updates V sys)"
    "logged_updates sys' = logged_updates sys" "sy_receiver sys' = sy_receiver sys"
proof -
  let ?gw = "sy_gateway sys"
  obtain accepted where "gw_run F L Q P V bits R ?gw accepted handled sent streamed"
    using sys_run_gw_run [OF gateway_queues_axioms udp_socket_axioms big_endian_reader_axioms run] by blast
  then obtain reported where "server_run Q (v_server_bbo V) P (v_server_option V) bits
      (wr_server (gw_writer ?gw)) sent streamed reported"
    using gateway_ok_run by (fastforce simp: gateway_ok_def Let_def)
  then have "length (srv_clients (wr_server (gw_writer ?gw))) \<le> MAX_CLIENTS"
    using server_run_accounts [OF server_bbo_queue server_option_queue] by blast
  with assms(2) obtain srv where turn: "broadcast_turn Q P bits res (wr_server (gw_writer ?gw)) = Some srv"
    using broadcast_turn_total [of "wr_server (gw_writer ?gw)" res bits] by auto
  have "R (res i)" for i using assms(2) by simp
  note step = gw_step.broadcast [of R res, OF this turn]
  from sys_run_step [OF step run] turn
    broadcast_turn_result [OF server_bbo_queue server_option_queue turn]
  show thesis
    by (intro that [of "sys\<lparr>sy_gateway := on_server (\<lambda>_. srv) ?gw\<rparr>"]) (simp_all add: logged_updates_def)
qed

lemma other_turn:
  assumes run: "sys_run F L Q P V bits R S pending rd r0 (sy_receiver sys) (sy_gateway sys) arrived refused handled sent streamed"
    and "turn_ok R t" "t = Report \<or> t = Accept result"
  obtains sys' where "take_turn F L Q P bits S rd t sys = Some sys'"
    "sys_run F L Q P V bits R S pending rd r0 (sy_receiver sys') (sy_gateway sys') arrived refused handled sent streamed"
    "queued_events V sys' = queued_events V sys" "queued_updates V sys' = queued_updates V sys"
    "logged_updates sys' = logged_updates sys" "sy_receiver sys' = sy_receiver sys"
proof (cases "t = Report")
  case True
  with sys_run_step [OF gw_step.stats run] show thesis
    by (intro that [of "sys\<lparr>sy_gateway := snd (stats_turn (sy_gateway sys)),
          sy_reports := sy_reports sys @ [fst (stats_turn (sy_gateway sys))]\<rparr>"])
      (simp_all add: stats_turn_def logged_updates_def)
next
  case False
  then have t: "t = Accept result" using assms(3) by simp
  show thesis
  proof (cases result)
    case (Accepted c)
    with t assms(2) have "cl_stream c = []" by simp
    from sys_run_step [OF gw_step.accept [OF this] run] t Accepted show thesis
      by (intro that [of "sys\<lparr>sy_gateway := on_server (accept_turn c) (sy_gateway sys)\<rparr>"])
        (simp_all add: accept_loop_turn_def accept_turn_def logged_updates_def)
  qed (use run t in \<open>intro that [of sys]; simp add: accept_loop_turn_def\<close>)+
qed

text \<open>
  What a turn does when the backlog allows it: from queues of at most \<open>e\<close> events and \<open>b\<close>
  updates to such of at most \<open>e'\<close> and \<open>b'\<close>, and nothing is lost on the way.
\<close>

lemma turn_keeps_backlog:
  assumes run: "sys_run F L Q P V bits R S pending rd r0 (sy_receiver sys) (sy_gateway sys) arrived refused handled sent streamed"
    and "turn_ok R t" "backlog [t] (e, b) = Some (e', b')"
    and "length (queued_events V sys) \<le> e" "length (queued_updates V sys) \<le> b"
  shows "\<exists>sys' ds hs us ss. take_turn F L Q P bits S rd t sys = Some sys'
    \<and> sys_run F L Q P V bits R S pending rd r0 (sy_receiver sys') (sy_gateway sys') (arrived @ ds) refused
        (handled @ hs) (sent @ us) (streamed @ ss)
    \<and> hs @ queued_events V sys' = queued_events V sys @ arrivals rd ds
    \<and> ss @ queued_updates V sys' = queued_updates V sys @ us
    \<and> length (queued_events V sys') \<le> e' \<and> length (queued_updates V sys') \<le> b'
    \<and> logged_updates sys' = logged_updates sys + of_nat (length us)
    \<and> (t \<noteq> Consume \<longrightarrow> ds = [])
    \<and> pending (mr_socket (sy_receiver sys)) = ds @ pending (mr_socket (sy_receiver sys'))
    \<and> (socket_ready S pending \<longrightarrow>
         length ds = min (length (filter is_Consume [t])) (length (pending (mr_socket (sy_receiver sys)))))"
proof (cases t)
  case Consume
  then have q: "e + PACKET_EVENTS \<le> EVENT_QUEUE_CAP" "e' = e + PACKET_EVENTS" "b' = b"
    using assms(3) by (auto split: if_splits)
  then have "length (queued_events V sys) + PACKET_EVENTS \<le> EVENT_QUEUE_CAP" using assms(4) by simp
  from consume_turn [OF run this] obtain sys' ds where "take_turn F L Q P bits S rd Consume sys = Some sys'"
    "sys_run F L Q P V bits R S pending rd r0 (sy_receiver sys') (sy_gateway sys') (arrived @ ds) refused handled sent streamed"
    "queued_events V sys' = queued_events V sys @ arrivals rd ds" "length (arrivals rd ds) \<le> PACKET_EVENTS"
    "gw_writer (sy_gateway sys') = gw_writer (sy_gateway sys)" "logged_updates sys' = logged_updates sys"
    "pending (mr_socket (sy_receiver sys)) = ds @ pending (mr_socket (sy_receiver sys'))"
    "socket_ready S pending \<Longrightarrow> length ds = min 1 (length (pending (mr_socket (sy_receiver sys))))"
    by blast
  then show ?thesis using Consume q assms(4,5)
    by (intro exI [of _ sys'] exI [of _ ds] exI [of _ "[]"]) simp
next
  case (Write es es' ks)
  let ?n = "min e WRITER_BATCH_SIZE"
  have q: "b + ?n \<le> BROADCAST_QUEUE_CAP" "e' = e - ?n" "b' = b + ?n"
    using assms(3) Write by (auto simp: Let_def split: if_splits)
  have "honest es" using assms(2) Write by simp
  from write_turn [OF run this, of es' ks] obtain sys' us where
    turn: "take_turn F L Q P bits S rd (Write es es' ks) sys = Some sys'"
    "sys_run F L Q P V bits R S pending rd r0 (sy_receiver sys') (sy_gateway sys') arrived refused
       (handled @ take WRITER_BATCH_SIZE (queued_events V sys)) (sent @ us) streamed"
    "queued_events V sys' = drop WRITER_BATCH_SIZE (queued_events V sys)"
    "logged_updates sys' = logged_updates sys + of_nat (length us)" "sy_receiver sys' = sy_receiver sys"
    and server: "wr_server (gw_writer (sy_gateway sys')) = fold (enqueue_bbo Q) us (wr_server (gw_writer (sy_gateway sys)))"
    and few: "length us \<le> length (take WRITER_BATCH_SIZE (queued_events V sys))"
    by blast
  have "length us \<le> ?n" using few assms(4) by simp
  then have fit: "length (queued_updates V sys) + length us \<le> b'" using q(3) assms(5) by linarith
  then have "queued_updates V sys' = queued_updates V sys @ us"
    using enqueue_bbo_room [OF server_bbo_queue, of "wr_server (gw_writer (sy_gateway sys))" us] q by (simp add: server)
  moreover from fit have "length (queued_updates V sys @ us) \<le> b'" by simp
  moreover have "length (drop WRITER_BATCH_SIZE (queued_events V sys)) \<le> e'" using q(2) assms(4) by simp
  ultimately show ?thesis using turn Write
    by (intro exI [of _ sys'] exI [of _ "[]"] exI [of _ "take WRITER_BATCH_SIZE (queued_events V sys)"]
        exI [of _ us] exI [of _ "[]"]) simp
next
  case (Broadcast res)
  then have q: "e' = e" "b' = b - BATCH_SIZE" and ok: "turn_ok R (Broadcast res)"
    using assms(2,3) by simp_all
  from broadcaster_turn [OF run ok] obtain sys' where "take_turn F L Q P bits S rd (Broadcast res) sys = Some sys'"
    "sys_run F L Q P V bits R S pending rd r0 (sy_receiver sys') (sy_gateway sys') arrived refused handled sent
       (streamed @ take BATCH_SIZE (queued_updates V sys))"
    "queued_events V sys' = queued_events V sys" "queued_updates V sys' = drop BATCH_SIZE (queued_updates V sys)"
    "logged_updates sys' = logged_updates sys" "sy_receiver sys' = sy_receiver sys"
    by blast
  then show ?thesis using Broadcast q assms(4,5)
    by (intro exI [of _ sys'] exI [of _ "[]"] exI [of _ "[]"] exI [of _ "[]"]
        exI [of _ "take BATCH_SIZE (queued_updates V sys)"]) simp
next
  case Report
  from other_turn [OF run assms(2), of undefined] Report obtain sys' where
    "take_turn F L Q P bits S rd t sys = Some sys'"
    "sys_run F L Q P V bits R S pending rd r0 (sy_receiver sys') (sy_gateway sys') arrived refused handled sent streamed"
    "queued_events V sys' = queued_events V sys" "queued_updates V sys' = queued_updates V sys"
    "logged_updates sys' = logged_updates sys" "sy_receiver sys' = sy_receiver sys" by blast
  with assms(3-5) Report show ?thesis
    by (intro exI [of _ sys'] exI [of _ "[]"]) simp
next
  case (Accept result)
  from other_turn [OF run assms(2), of result] Accept obtain sys' where
    "take_turn F L Q P bits S rd t sys = Some sys'"
    "sys_run F L Q P V bits R S pending rd r0 (sy_receiver sys') (sy_gateway sys') arrived refused handled sent streamed"
    "queued_events V sys' = queued_events V sys" "queued_updates V sys' = queued_updates V sys"
    "logged_updates sys' = logged_updates sys" "sy_receiver sys' = sy_receiver sys" by blast
  with assms(3-5) Accept show ?thesis
    by (intro exI [of _ sys'] exI [of _ "[]"]) simp
qed

lemma schedule_keeps_backlog:
  assumes "sys_run F L Q P V bits R S pending rd r0 (sy_receiver sys) (sy_gateway sys) arrived refused handled sent streamed"
    and "\<forall>t \<in> set ts. turn_ok R t" "backlog ts (e, b) = Some (e', b')"
    and "length (queued_events V sys) \<le> e" "length (queued_updates V sys) \<le> b"
  shows "\<exists>sys' ds hs us ss. run_turns F L Q P bits S rd ts sys = Some sys'
    \<and> sys_run F L Q P V bits R S pending rd r0 (sy_receiver sys') (sy_gateway sys') (arrived @ ds) refused
        (handled @ hs) (sent @ us) (streamed @ ss)
    \<and> hs @ queued_events V sys' = queued_events V sys @ arrivals rd ds
    \<and> ss @ queued_updates V sys' = queued_updates V sys @ us
    \<and> length (queued_events V sys') \<le> e' \<and> length (queued_updates V sys') \<le> b'
    \<and> logged_updates sys' = logged_updates sys + of_nat (length us)
    \<and> (Consume \<notin> set ts \<longrightarrow> ds = [])
    \<and> pending (mr_socket (sy_receiver sys)) = ds @ pending (mr_socket (sy_receiver sys'))
    \<and> (socket_ready S pending \<longrightarrow>
         length ds = min (length (filter is_Consume ts)) (length (pending (mr_socket (sy_receiver sys)))))"
  using assms
proof (induction ts arbitrary: sys e b arrived handled sent streamed)
  case Nil
  then show ?case by (intro exI [of _ sys] exI [of _ "[]"]) simp
next
  case (Cons t ts)
  obtain e1 b1 where q: "backlog [t] (e, b) = Some (e1, b1)" "backlog ts (e1, b1) = Some (e', b')"
    using Cons.prems(3) backlog_append [of "[t]" ts "(e, b)"] by (cases "backlog [t] (e, b)") auto
  have "turn_ok R t" using Cons.prems(2) by simp
  from turn_keeps_backlog [OF Cons.prems(1) this q(1) Cons.prems(4,5)] obtain sys1 ds hs us ss where
    turn: "take_turn F L Q P bits S rd t sys = Some sys1"
    and run: "sys_run F L Q P V bits R S pending rd r0 (sy_receiver sys1) (sy_gateway sys1) (arrived @ ds) refused
        (handled @ hs) (sent @ us) (streamed @ ss)"
    and queues: "hs @ queued_events V sys1 = queued_events V sys @ arrivals rd ds"
      "ss @ queued_updates V sys1 = queued_updates V sys @ us"
    and bounds: "length (queued_events V sys1) \<le> e1" "length (queued_updates V sys1) \<le> b1"
    and log: "logged_updates sys1 = logged_updates sys + of_nat (length us)" "t \<noteq> Consume \<longrightarrow> ds = []"
    and socket: "pending (mr_socket (sy_receiver sys)) = ds @ pending (mr_socket (sy_receiver sys1))"
      "socket_ready S pending \<longrightarrow>
         length ds = min (length (filter is_Consume [t])) (length (pending (mr_socket (sy_receiver sys))))"
    by blast
  have "\<forall>t \<in> set ts. turn_ok R t" using Cons.prems(2) by simp
  from Cons.IH [OF run this q(2) bounds] obtain sys' ds' hs' us' ss' where
    rest: "run_turns F L Q P bits S rd ts sys1 = Some sys'"
    "sys_run F L Q P V bits R S pending rd r0 (sy_receiver sys') (sy_gateway sys') ((arrived @ ds) @ ds') refused
        ((handled @ hs) @ hs') ((sent @ us) @ us') ((streamed @ ss) @ ss')"
    and queues': "hs' @ queued_events V sys' = queued_events V sys1 @ arrivals rd ds'"
      "ss' @ queued_updates V sys' = queued_updates V sys1 @ us'"
    and bounds': "length (queued_events V sys') \<le> e'" "length (queued_updates V sys') \<le> b'"
    and log': "logged_updates sys' = logged_updates sys1 + of_nat (length us')" "Consume \<notin> set ts \<longrightarrow> ds' = []"
    and socket': "pending (mr_socket (sy_receiver sys1)) = ds' @ pending (mr_socket (sy_receiver sys'))"
      "socket_ready S pending \<longrightarrow>
         length ds' = min (length (filter is_Consume ts)) (length (pending (mr_socket (sy_receiver sys1))))"
    by blast
  have "(hs @ hs') @ queued_events V sys' = queued_events V sys @ arrivals rd (ds @ ds')"
    using queues(1) queues'(1) by (metis append.assoc arrivals_simps(2))
  moreover have "(ss @ ss') @ queued_updates V sys' = queued_updates V sys @ us @ us'"
    using queues(2) queues'(2) by (metis append.assoc)
  moreover have "logged_updates sys' = logged_updates sys + of_nat (length (us @ us'))"
    using log(1) log'(1) by simp
  moreover have "pending (mr_socket (sy_receiver sys)) = (ds @ ds') @ pending (mr_socket (sy_receiver sys'))"
    using socket(1) socket'(1) by (simp only: append.assoc)
  moreover have "socket_ready S pending \<longrightarrow> length (ds @ ds') = min (length (filter is_Consume (t # ts)))
      (length (pending (mr_socket (sy_receiver sys))))"
  proof
    assume "socket_ready S pending"
    then have "length ds = min (length (filter is_Consume [t])) (length (pending (mr_socket (sy_receiver sys))))"
      "length ds' = min (length (filter is_Consume ts)) (length (pending (mr_socket (sy_receiver sys1))))"
      "length (pending (mr_socket (sy_receiver sys))) = length ds + length (pending (mr_socket (sy_receiver sys1)))"
      "length (filter is_Consume (t # ts)) = length (filter is_Consume [t]) + length (filter is_Consume ts)"
      using socket(2) socket'(2) arg_cong [OF socket(1), of length] by simp_all
    then show "length (ds @ ds') = min (length (filter is_Consume (t # ts)))
      (length (pending (mr_socket (sy_receiver sys))))" unfolding length_append by linarith
  qed
  moreover have "run_turns F L Q P bits S rd (t # ts) sys = Some sys'" using turn rest(1) by simp
  moreover have "Consume \<notin> set (t # ts) \<longrightarrow> ds @ ds' = []" using log(2) log'(2) by auto
  moreover note rest(2) [unfolded append.assoc] bounds'
  ultimately show ?case
    by - (rule exI [of _ sys'], rule exI [of _ "ds @ ds'"], rule exI [of _ "hs @ hs'"], rule exI [of _ "us @ us'"],
        rule exI [of _ "ss @ ss'"], intro conjI)
qed

end

section \<open>Schedules that keep up\<close>

text \<open>A schedule without a turn of the consumer, by what it contains.\<close>

abbreviation "writes ts \<equiv> length (filter is_Write ts)"
abbreviation "broadcasts ts \<equiv> length (filter is_Broadcast ts)"

lemma backlog_quiet:
  "Consume \<notin> set ts \<Longrightarrow> e + b \<le> BROADCAST_QUEUE_CAP \<Longrightarrow>
     \<exists>b'. backlog ts (e, b) = Some (e - writes ts * WRITER_BATCH_SIZE, b')
       \<and> e - writes ts * WRITER_BATCH_SIZE + b' \<le> e + b"
proof (induction ts arbitrary: e b)
  case (Cons t ts)
  show ?case
  proof (cases t)
    case (Write es es' ks)
    let ?n = "min e WRITER_BATCH_SIZE"
    have "(e - ?n) + (b + ?n) \<le> BROADCAST_QUEUE_CAP" using Cons.prems(2) by simp
    with Cons.IH [of "e - ?n" "b + ?n"] Cons.prems Write show ?thesis
      by (auto simp: Let_def diff_diff_eq min_def split: if_splits)
  next
    case (Broadcast res)
    have "e + (b - BATCH_SIZE) \<le> BROADCAST_QUEUE_CAP" using Cons.prems(2) by simp
    with Cons.IH [of e "b - BATCH_SIZE"] Cons.prems(1) Broadcast show ?thesis by fastforce
  qed (use Cons in simp_all)
qed simp

lemma backlog_flush:
  "Consume \<notin> set ts \<Longrightarrow> b \<le> BROADCAST_QUEUE_CAP \<Longrightarrow>
     backlog ts (0, b) = Some (0, b - broadcasts ts * BATCH_SIZE)"
proof (induction ts arbitrary: b)
  case (Cons t ts)
  then show ?case by (cases t) (simp_all add: Let_def)
qed simp

text \<open>Enough turns of the writer, then of the broadcaster, empty both queues.\<close>

lemma backlog_drains:
  assumes "Consume \<notin> set (ts @ ts')" "e + b \<le> BROADCAST_QUEUE_CAP"
    and "e \<le> writes ts * WRITER_BATCH_SIZE" "e + b \<le> broadcasts ts' * BATCH_SIZE"
  shows "backlog (ts @ ts') (e, b) = Some (0, 0)"
proof -
  obtain b' where b': "backlog ts (e, b) = Some (0, b')" "b' \<le> e + b"
    using backlog_quiet [of ts e b] assms(1-3) by auto
  then show ?thesis
    using backlog_flush [of ts' b'] assms by (simp add: backlog_append)
qed

text \<open>
  Rounds: a turn of the consumer, then at least five of the writer and at least 74 of the
  broadcaster, with connections and reports anywhere among these.
\<close>

definition round_ok :: "turn list \<Rightarrow> bool" where
  "round_ok ts \<longleftrightarrow> (\<exists>ws bs. ts = Consume # ws @ bs \<and> Consume \<notin> set (ws @ bs) \<and> 5 \<le> writes ws \<and> 74 \<le> broadcasts bs)"

lemma backlog_rounds: "\<forall>ts \<in> set rounds. round_ok ts \<Longrightarrow> backlog (concat rounds) (0, 0) = Some (0, 0)"
proof (induction rounds)
  case (Cons ts rounds)
  then obtain ws bs where ts: "ts = Consume # ws @ bs" "Consume \<notin> set (ws @ bs)" "5 \<le> writes ws" "74 \<le> broadcasts bs"
    by (auto simp: round_ok_def)
  have "PACKET_EVENTS = 4681" by (simp add: PACKET_EVENTS_def RECEIVE_BUFFER_def)
  with ts(3,4) have "backlog (ws @ bs) (PACKET_EVENTS, 0) = Some (0, 0)"
    by (intro backlog_drains [OF ts(2)]) (simp_all add: BROADCAST_QUEUE_CAP_def WRITER_BATCH_SIZE_def BATCH_SIZE_def)
  then have "backlog ts (0, 0) = Some (0, 0)"
    by (simp add: ts(1) PACKET_EVENTS_def RECEIVE_BUFFER_def EVENT_QUEUE_CAP_def)
  with Cons show ?case by (simp add: backlog_append)
qed simp

lemma consumes_rounds: "\<forall>ts \<in> set rounds. round_ok ts \<Longrightarrow> length (filter is_Consume (concat rounds)) = length rounds"
proof (induction rounds)
  case (Cons ts rounds)
  then obtain ws bs where ts: "ts = Consume # ws @ bs" "Consume \<notin> set (ws @ bs)" by (auto simp: round_ok_def)
  have "filter is_Consume (ws @ bs) = []" using ts(2) by (auto simp: filter_empty_conv is_Consume_def)
  with Cons show ?case by (simp add: ts(1))
qed simp

section \<open>What the clients then have\<close>

context system_parts
begin

text \<open>Once all is streamed, the last quotes are those of the market of all datagrams.\<close>

lemma last_quotes:
  assumes "sys_run F L Q P V bits no_block S pending rd r0 r gw arrived 0 handled sent streamed"
    and "v_event V (event_tx (gw_pipeline gw)) = []" "streamed = sent" "list_all2 framed arrived mss"
    and "market_feed_ok Map.empty (frame_events (concat mss))"
    and "c \<in> set (srv_clients (wr_server (gw_writer gw)))" "client_quotes (cl_stream c) s \<noteq> []"
  shows "quotes_market (foldl market_step Map.empty (frame_events (concat mss))) s (last (client_quotes (cl_stream c) s))"
proof -
  note run = sys_run_unrefused [OF gateway_queues_axioms udp_socket_axioms big_endian_reader_axioms assms(1,4)]
  have all: "handled = frame_events (concat mss)" using run(3) assms(2) by simp
  then show ?thesis
    using client_view [OF run(2) _ assms(6)] assms(3,5,7) by simp
qed

end

section \<open>A small schedule\<close>

abbreviation "sample_write \<equiv> Write (\<lambda>n ob. sample_env\<lparr>env_books := sorted_list_of_set (dom (books ob))\<rparr>) (\<lambda>n. sample_env) []"
abbreviation "sample_broadcast \<equiv> Broadcast (\<lambda>i. Written)"

lemma sample_turns_ok: "turn_ok no_block sample_write" "turn_ok no_block sample_broadcast"
  by (simp_all add: honest_def enumerates_def no_block_def marks_def)

lemma list_views_simps: "v_event list_views = (\<lambda>q. q)" "v_server_bbo list_views = (\<lambda>q. q)"
  by (simp_all add: list_views_def)

lemma fresh_empty:
  "event_tx (fresh_pipeline evs) = evs" "v_bbo list_views (bbo_rx (fresh_pipeline evs)) = []"
  "v_option_snapshot list_views (option_snapshot_rx (fresh_pipeline evs)) = []" "broadcast_queue fresh_server = []"
  "v_server_option list_views (option_queue fresh_server) = []" "srv_clients fresh_server = []" "dropped_count fresh_server = 0"
  by (simp_all add: list_views_def fresh_server_def broadcast_server_new_def)

abbreviation "sample_round \<equiv> Consume # replicate 5 sample_write @ Report # replicate 74 sample_broadcast"

lemma list_socket_ready: "socket_ready list_socket (\<lambda>s. s)"
  by (auto simp: socket_ready_def list_socket_def Let_def split: list.splits)

abbreviation "sample_client \<equiv> \<lparr>cl_addr = 1, cl_stream = []\<rparr> :: client"
abbreviation "sample_turns \<equiv> run_turns exact_ops list_pipeline (list_queue BROADCAST_QUEUE_CAP)
  (list_queue OPTION_QUEUE_CAP) (\<lambda>_. 0) list_socket byteorder_be"

text \<open>A client that connects before the order is handled is sent its update.\<close>

lemma sample_delivery:
  assumes "sample_turns [Accept (Accepted sample_client), sample_write, sample_broadcast]
     (system_new r (fresh_gateway [sample_order])) = Some sys"
  shows "\<exists>c u. c \<in> set (srv_clients (wr_server (gw_writer (sy_gateway sys)))) \<and> cl_stream c = bbo_frame u \<and> upd_stock u = 7"
proof -
  let ?gw = "on_server (accept_turn sample_client) (fresh_gateway [sample_order])"
  let ?es = "\<lambda>n ob. sample_env\<lparr>env_books := sorted_list_of_set (dom (books ob))\<rparr>"
  have "honest ?es" by (simp add: honest_def enumerates_def)
  moreover have "no_contracts (wr_option_manager (gw_writer ?gw))" "finite (dom (books (wr_order_book (gw_writer ?gw))))"
    by (simp_all add: gateway_new_def writer_new_def new_books)
  ultimately obtain ob us gw' where turn: "writer_turn exact_ops list_pipeline (list_queue BROADCAST_QUEUE_CAP)
      (list_queue OPTION_QUEUE_CAP) ?es (\<lambda>n. sample_env) [] ?gw = Some gw'"
    and server: "wr_server (gw_writer gw') = fold (enqueue_bbo (list_queue BROADCAST_QUEUE_CAP)) us (accept_turn sample_client fresh_server)"
    and us: "feeds order_book_new [sample_order] ob us"
    using lists.writer_turn_idle [where es = ?es and gw = ?gw and F = exact_ops and es' = "\<lambda>n. sample_env" and ks = "[]"
        and bits = "\<lambda>_. 0" and R = no_block]
    by (auto simp: gateway_new_def writer_new_def list_views_simps end_turn_def Let_def)
  obtain u where u: "us = [u]" "upd_stock u = 7" using sample_published [OF us] by blast
  have served: "srv_clients (wr_server (gw_writer gw')) = [sample_client]" "broadcast_queue (wr_server (gw_writer gw')) = [u]"
    "option_queue (wr_server (gw_writer gw')) = []"
    by (simp_all add: server u(1) accept_turn_def accept_client_def MAX_CLIENTS_def enqueue_bbo_def list_queue_def
        fresh_server_def broadcast_server_new_def BROADCAST_QUEUE_CAP_def)
  obtain srv where "broadcast_turn (list_queue BROADCAST_QUEUE_CAP) (list_queue OPTION_QUEUE_CAP) (\<lambda>_. 0)
      (\<lambda>i. Written) (wr_server (gw_writer gw')) = Some srv" "srv_clients srv = [sample_client\<lparr>cl_stream := bbo_frame u\<rparr>]"
    using sample_broadcast_served [OF served(2,3,1)] by auto
  with assms turn u(2) show ?thesis by (auto simp: system_new_def accept_loop_turn_def)
qed

section \<open>Properties\<close>



end
