(* ===== verification/Startup.thy ===== *)
theory Startup
  imports Receiver "HOL-Library.Sublist"
begin

text \<open>
  The command line and \<open>main\<close> of src/main.rs: what is parsed, which sockets are opened and
  which threads are started, in which order, and where the start stops with an error.  The
  operating system -- whether a listener, a socket, a thread or the signal handler can be had
  -- is an argument.  The argument parser of clap only fills the record \<open>args\<close>.
\<close>

section \<open>Arguments\<close>

record 'f args =
  multicast_group :: string
  multicast_port :: u16
  multicast_interface :: string
  tcp_port :: string
  socket_buffer_size :: u64
  enable_test_generator :: bool
  risk_free_rate :: 'f

definition default_args :: "'f float_ops \<Rightarrow> 'f args" where
  "default_args F =
     \<lparr>multicast_group = ''233.222.7.1'', multicast_port = 15001, multicast_interface = ''0.0.0.0'',
      tcp_port = ''838383'', socket_buffer_size = 8 * 1024 * 1024, enable_test_generator = False,
      risk_free_rate = f_lit F 0.03\<rparr>"

section \<open>Starting and failing\<close>

datatype thread =
  Stats_Monitor | Orderbook_Writer | Test_Generator | Multicast_Consumer | Tcp_Acceptor | Tcp_Broadcaster

datatype 'e broadcast_error = Broadcast_Io 'e | Max_Clients_Reached

datatype 'e start_error =
  Addr_Parse_Error | Broadcast_Error "'e broadcast_error" | Network_Error "'e network_error"
| Spawn_Error 'e | Ctrlc_Error 'e

record ('e, 's, 'l) os_ops =
  os_listen :: "socket_addr \<Rightarrow> 'e + 'l"
  os_set_nonblocking :: "bool \<Rightarrow> 'l \<Rightarrow> 'e + 'l"
  os_local_addr :: "'l \<Rightarrow> 'e + socket_addr"
  os_spawn :: "thread \<Rightarrow> 'e option"
  os_set_handler :: "'e option"
  os_sockets :: "('e, 's) socket_ops"

text \<open>
  A part of the start takes the threads started so far; it is \<open>None\<close> when it panics, else an
  error or a result, with the threads then started.
\<close>

type_synonym ('e, 'a) startup = "thread list \<Rightarrow> (('e start_error + 'a) \<times> thread list) option"

definition st_return :: "'a \<Rightarrow> ('e, 'a) startup" where
  "st_return x ts = Some (Inr x, ts)"

definition st_bind :: "('e, 'a) startup \<Rightarrow> ('a \<Rightarrow> ('e, 'b) startup) \<Rightarrow> ('e, 'b) startup" where
  "st_bind m f ts =
     (case m ts of
        None \<Rightarrow> None
      | Some (Inl e, ts) \<Rightarrow> Some (Inl e, ts)
      | Some (Inr x, ts) \<Rightarrow> f x ts)"

text \<open>The operator \<open>?\<close> on a result and on a parsed address.\<close>

definition st_try :: "('x \<Rightarrow> 'e start_error) \<Rightarrow> 'x + 'a \<Rightarrow> ('e, 'a) startup" where
  "st_try g r ts = (case r of Inl e \<Rightarrow> Some (Inl (g e), ts) | Inr x \<Rightarrow> Some (Inr x, ts))"

definition st_parsed :: "'a option \<Rightarrow> ('e, 'a) startup" where
  "st_parsed r ts = (case r of None \<Rightarrow> Some (Inl Addr_Parse_Error, ts) | Some x \<Rightarrow> Some (Inr x, ts))"

text \<open>Starting a thread, with \<open>?\<close> and with \<open>expect\<close>.\<close>

definition st_spawn :: "('e, 's, 'l) os_ops \<Rightarrow> thread \<Rightarrow> ('e, unit) startup" where
  "st_spawn os t ts =
     (case os_spawn os t of None \<Rightarrow> Some (Inr (), ts @ [t]) | Some e \<Rightarrow> Some (Inl (Spawn_Error e), ts))"

definition st_spawn_expect :: "('e, 's, 'l) os_ops \<Rightarrow> thread \<Rightarrow> ('e, unit) startup" where
  "st_spawn_expect os t ts = (case os_spawn os t of None \<Rightarrow> Some (Inr (), ts @ [t]) | Some e \<Rightarrow> None)"

section \<open>The server\<close>

definition tcp_broadcast_server_new ::
  "('e, 's, 'l) os_ops \<Rightarrow> (nat \<Rightarrow> 'q) \<Rightarrow> (nat \<Rightarrow> 'p) \<Rightarrow> socket_addr
     \<Rightarrow> ('e, ('f, 'q, 'p) broadcast_server \<times> socket_addr) startup" where
  "tcp_broadcast_server_new os new_q new_p bind_addr =
     st_bind (st_try (Broadcast_Error \<circ> Broadcast_Io) (os_listen os bind_addr)) (\<lambda>listener.
     st_bind (st_try (Broadcast_Error \<circ> Broadcast_Io) (os_set_nonblocking os True listener)) (\<lambda>listener.
     st_bind (st_try (Broadcast_Error \<circ> Broadcast_Io) (os_local_addr os listener)) (\<lambda>listener_addr.
     st_bind (st_spawn_expect os Tcp_Acceptor) (\<lambda>_.
     st_bind (st_spawn_expect os Tcp_Broadcaster) (\<lambda>_.
     st_return (broadcast_server_new new_q new_p, listener_addr))))))"

section \<open>Main\<close>

record ('f, 'a, 'b, 'o, 'p, 'q, 'r, 's) started_gateway =
  sg_gateway :: "('f, 'a, 'b, 'o, 'p, 'q, 'r) gateway"
  sg_addr :: socket_addr
  sg_receiver :: "'s multicast_receiver option"

text \<open>The source of the events: the generator, or a receiver with its consumer.\<close>

definition start_source ::
  "('e, 's, 'l) os_ops \<Rightarrow> 'f args \<Rightarrow> ipv4 \<Rightarrow> ipv4 \<Rightarrow> ('e, 's multicast_receiver option) startup" where
  "start_source os args mc_group mc_iface =
     (if enable_test_generator args then
        st_bind (st_spawn os Test_Generator) (\<lambda>_. st_return None)
      else
        st_bind (st_try Network_Error (multicast_receiver_new (os_sockets os) mc_group
                   (multicast_port args) mc_iface (socket_buffer_size args))) (\<lambda>receiver.
        st_bind (st_spawn os Multicast_Consumer) (\<lambda>_. st_return (Some receiver))))"

definition start_threads ::
  "('e, 's, 'l) os_ops \<Rightarrow> 'f args \<Rightarrow> ipv4 \<Rightarrow> ipv4 \<Rightarrow> ('a, 'b, 'o, 'p) pipeline
     \<Rightarrow> ('f, 'q, 'r) broadcast_server \<Rightarrow> socket_addr
     \<Rightarrow> ('e, ('f, 'a, 'b, 'o, 'p, 'q, 'r, 's) started_gateway) startup" where
  "start_threads os args mc_group mc_iface pl srv addr =
     st_bind (st_spawn os Stats_Monitor) (\<lambda>_.
     st_bind (st_spawn os Orderbook_Writer) (\<lambda>_.
     st_bind (start_source os args mc_group mc_iface) (\<lambda>receiver.
     st_bind (st_try Ctrlc_Error (case os_set_handler os of None \<Rightarrow> Inr () | Some e \<Rightarrow> Inl e)) (\<lambda>_.
     st_return \<lparr>sg_gateway = gateway_new pl srv (risk_free_rate args), sg_addr = addr,
                sg_receiver = receiver\<rparr>))))"

definition start_gateway ::
  "('e, 's, 'l) os_ops \<Rightarrow> 'f args \<Rightarrow> ('a, 'b, 'o, 'p) pipeline \<Rightarrow> (nat \<Rightarrow> 'q) \<Rightarrow> (nat \<Rightarrow> 'r)
     \<Rightarrow> ('e, ('f, 'a, 'b, 'o, 'p, 'q, 'r, 's) started_gateway) startup" where
  "start_gateway os args pl new_q new_p =
     st_bind (st_parsed (parse_ipv4 (multicast_group args))) (\<lambda>mc_group.
     st_bind (st_parsed (parse_ipv4 (multicast_interface args))) (\<lambda>mc_iface.
     st_bind (st_parsed (parse_tcp_bind (tcp_port args))) (\<lambda>tcp_bind.
     st_bind (tcp_broadcast_server_new os new_q new_p tcp_bind) (\<lambda>(srv, addr).
     start_threads os args mc_group mc_iface pl srv addr))))"

text \<open>What \<open>main\<close> does once the signal handler has cleared \<open>running\<close>.\<close>

definition stop_gateway ::
  "('f, 'a, 'b, 'o, 'p, 'q, 'r) gateway \<Rightarrow> ('f, 'a, 'b, 'o, 'p, 'q, 'r) gateway" where
  "stop_gateway gw =
     gw\<lparr>gw_writer := (gw_writer gw)\<lparr>wr_server := shutdown (wr_server (gw_writer gw))\<rparr>\<rparr>"

section \<open>The order of the start\<close>

text \<open>The threads of a gateway that runs.\<close>

definition gateway_threads :: "'f args \<Rightarrow> thread list" where
  "gateway_threads args =
     [Tcp_Acceptor, Tcp_Broadcaster, Stats_Monitor, Orderbook_Writer,
      if enable_test_generator args then Test_Generator else Multicast_Consumer]"

text \<open>A part that starts the threads \<open>us\<close>, or a prefix of them when it fails.\<close>

definition starts :: "('e, 'a) startup \<Rightarrow> thread list \<Rightarrow> ('a \<Rightarrow> bool) \<Rightarrow> bool" where
  "starts m us P \<longleftrightarrow> (\<forall>ts r ts'. m ts = Some (r, ts') \<longrightarrow>
     (\<exists>vs. ts' = ts @ vs \<and> prefix vs us) \<and> (\<forall>x. r = Inr x \<longrightarrow> ts' = ts @ us \<and> P x))"

lemma startsD:
  "starts m us P \<Longrightarrow> m ts = Some (r, ts') \<Longrightarrow>
     (\<exists>vs. ts' = ts @ vs \<and> prefix vs us) \<and> (\<forall>x. r = Inr x \<longrightarrow> ts' = ts @ us \<and> P x)"
  by (simp add: starts_def)

lemma startsI:
  "(\<And>ts r ts'. m ts = Some (r, ts') \<Longrightarrow>
     (\<exists>vs. ts' = ts @ vs \<and> prefix vs us) \<and> (\<forall>x. r = Inr x \<longrightarrow> ts' = ts @ us \<and> P x)) \<Longrightarrow> starts m us P"
  by (simp add: starts_def)

lemma starts_weaken:
  assumes "starts m us P" "\<And>x. P x \<Longrightarrow> Q x"
  shows "starts m us Q"
proof (rule startsI)
  fix ts r ts' assume "m ts = Some (r, ts')"
  from startsD [OF assms(1) this] assms(2)
  show "(\<exists>vs. ts' = ts @ vs \<and> prefix vs us) \<and> (\<forall>x. r = Inr x \<longrightarrow> ts' = ts @ us \<and> Q x)" by simp
qed

lemma starts_return: "P x \<Longrightarrow> starts (st_return x) [] P"
  by (rule startsI) (auto simp: st_return_def)

lemma starts_bind:
  assumes "starts m us P" "\<And>x. P x \<Longrightarrow> starts (f x) vs Q"
  shows "starts (st_bind m f) (us @ vs) Q"
proof (rule startsI)
  fix ts r ts' assume run: "st_bind m f ts = Some (r, ts')"
  then obtain r1 ts1 where m: "m ts = Some (r1, ts1)" by (auto simp: st_bind_def split: option.splits)
  note first = startsD [OF assms(1) m]
  show "(\<exists>ws. ts' = ts @ ws \<and> prefix ws (us @ vs)) \<and> (\<forall>x. r = Inr x \<longrightarrow> ts' = ts @ us @ vs \<and> Q x)"
  proof (cases r1)
    case (Inl e)
    then have "ts' = ts1" "r = Inl e" using run m by (auto simp: st_bind_def)
    with first show ?thesis by (auto intro: prefix_prefix)
  next
    case (Inr x)
    then have f: "f x ts1 = Some (r, ts')" using run m by (simp add: st_bind_def)
    have x: "ts1 = ts @ us" "P x" using first Inr by auto
    from startsD [OF assms(2) [OF x(2)] f] show ?thesis unfolding x(1) by auto
  qed
qed

text \<open>The rules that step through a start.\<close>

lemma starts_try:
  assumes "\<And>x. r = Inr x \<Longrightarrow> starts (f x) vs Q"
  shows "starts (st_bind (st_try g r) f) vs Q"
proof -
  have "starts (st_try g r) [] (\<lambda>x. r = Inr x)"
    by (rule startsI) (auto simp: st_try_def split: sum.splits)
  from starts_bind [OF this assms] show ?thesis by simp
qed

lemma starts_parsed:
  assumes "\<And>x. r = Some x \<Longrightarrow> starts (f x) vs Q"
  shows "starts (st_bind (st_parsed r) f) vs Q"
proof -
  have "starts (st_parsed r) [] (\<lambda>x. r = Some x)"
    by (rule startsI) (auto simp: st_parsed_def split: option.splits)
  from starts_bind [OF this assms] show ?thesis by simp
qed

lemma starts_spawn:
  assumes "starts (f ()) vs Q"
  shows "starts (st_bind (st_spawn os t) f) (t # vs) Q" "starts (st_bind (st_spawn_expect os t) f) (t # vs) Q"
proof -
  have spawn: "starts (st_spawn os t) [t] (\<lambda>_. True)" "starts (st_spawn_expect os t) [t] (\<lambda>_. True)"
    by (rule startsI; auto simp: st_spawn_def st_spawn_expect_def split: option.splits)+
  have rest: "starts (f x) vs Q" for x using assms by simp
  from starts_bind [OF spawn(1) rest] starts_bind [OF spawn(2) rest]
  show "starts (st_bind (st_spawn os t) f) (t # vs) Q" "starts (st_bind (st_spawn_expect os t) f) (t # vs) Q"
    by simp_all
qed

lemmas starts_rules = starts_try starts_parsed starts_spawn starts_return

lemma starts_server:
  "starts (tcp_broadcast_server_new os new_q new_p addr) [Tcp_Acceptor, Tcp_Broadcaster]
     (\<lambda>(srv, _). srv = broadcast_server_new new_q new_p \<and> (\<exists>l. os_listen os addr = Inr l))"
  unfolding tcp_broadcast_server_new_def by (intro starts_rules) simp

lemma receiver_new_ok: "multicast_receiver_new S a port i z = Inr r \<Longrightarrow> receiver_ok r"
  by (auto simp: multicast_receiver_new_def try_io_def split: sum.splits)

lemma starts_source:
  "starts (start_source os args grp iface)
     [if enable_test_generator args then Test_Generator else Multicast_Consumer]
     (\<lambda>r. case r of None \<Rightarrow> enable_test_generator args | Some r \<Rightarrow> \<not> enable_test_generator args \<and> receiver_ok r)"
  unfolding start_source_def
  by (cases "enable_test_generator args") (auto intro!: starts_rules dest: receiver_new_ok)

abbreviation "source_thread args \<equiv> (if enable_test_generator args then Test_Generator else Multicast_Consumer)"

abbreviation "source_ok args r \<equiv>
  (case r of None \<Rightarrow> enable_test_generator args | Some r \<Rightarrow> \<not> enable_test_generator args \<and> receiver_ok r)"

lemma starts_threads:
  "starts (start_threads os args grp iface pl srv addr) [Stats_Monitor, Orderbook_Writer, source_thread args]
     (\<lambda>g. sg_gateway g = gateway_new pl srv (risk_free_rate args) \<and> source_ok args (sg_receiver g))"
proof -
  have "starts (start_threads os args grp iface pl srv addr)
      (Stats_Monitor # Orderbook_Writer # [source_thread args] @ [])
      (\<lambda>g. sg_gateway g = gateway_new pl srv (risk_free_rate args) \<and> source_ok args (sg_receiver g))"
    unfolding start_threads_def
    by (intro starts_spawn starts_bind [OF starts_source] starts_try starts_return) simp
  then show ?thesis by simp
qed

lemma starts_gateway:
  "starts (start_gateway os args pl new_q new_p) (gateway_threads args)
     (\<lambda>g. sg_gateway g = gateway_new pl (broadcast_server_new new_q new_p) (risk_free_rate args)
        \<and> (\<exists>addr l. parse_tcp_bind (tcp_port args) = Some addr \<and> os_listen os addr = Inr l)
        \<and> source_ok args (sg_receiver g))" (is "starts _ _ ?P")
proof -
  have threads: "gateway_threads args =
      [Tcp_Acceptor, Tcp_Broadcaster] @ [Stats_Monitor, Orderbook_Writer, source_thread args]"
    by (simp add: gateway_threads_def)
  have rest: "starts (case x of (srv, addr) \<Rightarrow> start_threads os args grp iface pl srv addr)
      [Stats_Monitor, Orderbook_Writer, source_thread args] ?P"
    if "parse_tcp_bind (tcp_port args) = Some b"
      "case x of (srv, _) \<Rightarrow> srv = broadcast_server_new new_q new_p \<and> (\<exists>l. os_listen os b = Inr l)"
    for b x grp iface
  proof -
    obtain srv addr where x: "x = (srv, addr)" by (cases x)
    have "srv = broadcast_server_new new_q new_p" "\<exists>l. os_listen os b = Inr l" using that(2) x by simp_all
    with that(1) show ?thesis
      unfolding x prod.case by (intro starts_weaken [OF starts_threads]) simp
  qed
  show ?thesis
    unfolding start_gateway_def threads
    by (intro starts_parsed starts_bind [OF starts_server] rest)
qed

end
