(* ===== verification/Startup_Correct.thy ===== *)
theory Startup_Correct
  imports Startup Gateway_Correct
begin

text \<open>
  What the start of the gateway comes to: which ports it accepts, in which order its threads
  are started, and that what it starts is the initial state of the gateway's runs.
\<close>

section \<open>Properties\<close>

text \<open>
  The text of the TCP port is accepted exactly when it is a non-empty string of digits
  whose value, with any leading zeros, is below \<open>2 ^ 16\<close>; the server is then bound to that port
  of the unspecified address.
\<close>

theorem tcp_port_accepted:
  "parse_tcp_bind p =
     (case digits_of p of
        None \<Rightarrow> None
      | Some ds \<Rightarrow>
          if ds \<noteq> [] \<and> decimal ds < 2 ^ 16 then Some (unspecified, word_of_nat (decimal ds)) else None)"
  by (rule parse_tcp_bind_result)

text \<open>
  With its default arguments the gateway does not start: on every operating system
  \<open>main\<close> returns the address error before it has opened a socket or started a thread, because
  the default of the TCP port is not a port number.
\<close>

theorem default_port_refused:
  "start_gateway os (default_args F) pl new_q new_p ts = Some (Inl Addr_Parse_Error, ts)"
proof -
  have "parse_tcp_bind ''838383'' = None"
    by (simp add: parse_tcp_bind_result digits_of_def to_digit_def decimal_def)
  then show ?thesis
    by (simp add: start_gateway_def st_bind_def st_parsed_def default_args_def split: option.split)
qed

text \<open>
  C15: The start of the gateway.  Its threads are started in one order, and a start that stops
  with an error has started the first of them (\<open>main\<close> then returns, which ends them; a start
  that panics is outside this property); a start that succeeds has started all of
  them -- with the generator or with the consumer and a receiver, as the arguments ask -- and
  listens on the parsed port, and the state it has built is an initial state of the
  interleavings of the threads.
\<close>

theorem gateway_starts:
  assumes "start_gateway os args (pipeline_new new_e new_b new_o new_s) new_q new_p [] = Some (result, ts)"
    and "v_event V (new_e EVENT_QUEUE_CAP) = []" "v_bbo V (new_b BBO_QUEUE_CAP) = []"
    and "v_option_snapshot V (new_s OPTION_SNAPSHOT_QUEUE_CAP) = []"
    and "v_server_bbo V (new_q BROADCAST_QUEUE_CAP) = []" "v_server_option V (new_p OPTION_QUEUE_CAP) = []"
  shows "prefix ts (gateway_threads args)
    \<and> (\<forall>g. result = Inr g \<longrightarrow> ts = gateway_threads args
         \<and> (\<exists>addr l. parse_tcp_bind (tcp_port args) = Some addr \<and> os_listen os addr = Inr l)
         \<and> (case sg_receiver g of None \<Rightarrow> enable_test_generator args
                                | Some r \<Rightarrow> \<not> enable_test_generator args \<and> receiver_ok r)
         \<and> gw_run F L Q P V bits R (sg_gateway g) [] [] [] [])"
proof -
  let ?pl = "pipeline_new new_e new_b new_o new_s" and ?srv = "broadcast_server_new new_q new_p"
  note start = startsD [OF starts_gateway assms(1)]
  have "gw_run F L Q P V bits R (gateway_new ?pl ?srv (risk_free_rate args)) [] [] [] []"
    by (rule gw_run.start) (use assms(2-6) in \<open>simp_all add: pipeline_new_def broadcast_server_new_def\<close>)
  note fresh = this
  show ?thesis
  proof (intro conjI allI impI)
    show "prefix ts (gateway_threads args)" using start [THEN conjunct1] by (elim exE) simp
    fix g assume "result = Inr g"
    note g = start [THEN conjunct2, rule_format, OF this]
    show "ts = gateway_threads args" using g by (elim conjE) simp
    show "\<exists>addr l. parse_tcp_bind (tcp_port args) = Some addr \<and> os_listen os addr = Inr l"
      using g by (elim conjE) assumption
    show "source_ok args (sg_receiver g)" using g by (elim conjE) assumption
    have "sg_gateway g = gateway_new ?pl ?srv (risk_free_rate args)" using g by (elim conjE) assumption
    with fresh show "gw_run F L Q P V bits R (sg_gateway g) [] [] [] []" by (simp only:)
  qed
qed

text \<open>An operating system on which everything succeeds.\<close>

definition sample_os :: "(unit, u8 list list, unit) os_ops" where
  "sample_os =
     \<lparr>os_listen = (\<lambda>_. Inr ()), os_set_nonblocking = (\<lambda>_. Inr), os_local_addr = (\<lambda>_. Inr (unspecified, 8383)),
      os_spawn = (\<lambda>_. None), os_set_handler = None, os_sockets = list_socket\<rparr>"

theorem gateway_starts_witness:
  "\<exists>g. start_gateway sample_os ((default_args exact_ops)\<lparr>tcp_port := ''8383''\<rparr>) (fresh_pipeline [])
       (\<lambda>_. [] :: bbo_update list) (\<lambda>_. [] :: xreal aggregated_option_snapshot list) [] =
     Some (Inr g, [Tcp_Acceptor, Tcp_Broadcaster, Stats_Monitor, Orderbook_Writer, Multicast_Consumer])
   \<and> gw_run exact_ops list_pipeline (list_queue BROADCAST_QUEUE_CAP) (list_queue OPTION_QUEUE_CAP)
       list_views (\<lambda>_. 0) (\<lambda>_. True) (sg_gateway g) [] [] [] []"
proof -
  let ?args = "(default_args exact_ops)\<lparr>tcp_port := ''8383''\<rparr>"
  have parsed: "parse_tcp_bind ''8383'' = Some (unspecified, 8383)"
    "parse_ipv4 ''233.222.7.1'' = Some (233, 222, 7, 1)" "parse_ipv4 ''0.0.0.0'' = Some (0, 0, 0, 0)"
    by (simp_all add: parse_tcp_bind_result digits_of_def to_digit_def decimal_def parse_ipv4_def
        read_ipv4_def read_octet_def)
  obtain g ts where run: "start_gateway sample_os ?args (fresh_pipeline []) (\<lambda>_. [] :: bbo_update list) (\<lambda>_. [] :: xreal aggregated_option_snapshot list) [] = Some (Inr g, ts)"
    using parsed by (simp add: start_gateway_def tcp_broadcast_server_new_def start_threads_def
        start_source_def st_bind_def st_parsed_def st_try_def st_spawn_def st_spawn_expect_def st_return_def
        default_args_def sample_os_def multicast_receiver_new_def try_io_def list_socket_def)
  note start = gateway_starts [OF run [unfolded fresh_pipeline_def], of list_views exact_ops list_pipeline
      "list_queue BROADCAST_QUEUE_CAP" "list_queue OPTION_QUEUE_CAP" "\<lambda>_. 0" "\<lambda>_. True"]
  have "ts = gateway_threads ?args \<and> gw_run exact_ops list_pipeline (list_queue BROADCAST_QUEUE_CAP)
      (list_queue OPTION_QUEUE_CAP) list_views (\<lambda>_. 0) (\<lambda>_. True) (sg_gateway g) [] [] [] []"
    using start by (simp add: list_views_def)
  with run show ?thesis by (auto simp: gateway_threads_def default_args_def)
qed

end
