(* ===== verification/Generator.thy ===== *)
theory Generator
  imports Gateway
begin

text \<open>
  The test data generator of src/main.rs: an endless loop of ticks, each of which pushes six
  order events, and every twentieth an option order.  The arithmetic is that of the release
  profile: \<open>u64\<close> wraps, so the negative drifts work out as subtractions.
\<close>

definition STOCK_AAPL :: u64 where "STOCK_AAPL = 0x4141504C20202020"

definition gen_strikes :: "u64 list" where
  "gen_strikes = [1400000, 1450000, 1500000, 1550000, 1600000]"

record generator =
  gen_order_ref :: u64
  gen_base_price :: u64
  gen_tick_count :: u64
  gen_registered :: bool
  expiry_near :: u32
  expiry_far :: u32

text \<open>The expirations are computed once, from the clock at the start.\<close>

definition generator_new :: "u64 \<Rightarrow> generator" where
  "generator_new now_secs =
     (let near = ucast (now_secs div 86400 + 30)
      in \<lparr>gen_order_ref = 1, gen_base_price = 1500000, gen_tick_count = 0, gen_registered = False,
          expiry_near = near, expiry_far = near + 90\<rparr>)"

section \<open>Options\<close>

definition gen_contract_keys :: "generator \<Rightarrow> option_contract_key list" where
  "gen_contract_keys g =
     [oc_key (option_contract_new 0 STOCK_AAPL expiry strike ot 100).
        strike \<leftarrow> gen_strikes, expiry \<leftarrow> [expiry_near g, expiry_far g], ot \<leftarrow> [Call, Put]]"

definition gen_option_side :: "option_type \<Rightarrow> side" where
  "gen_option_side ot = (if ot = Call then Buy else Sell)"

text \<open>The loop over the contracts, each with the next order reference.\<close>

fun gen_register_loop ::
  "u64 \<Rightarrow> option_contract_key list \<Rightarrow> u64 \<Rightarrow> option_order_event list \<times> u64" where
  "gen_register_loop tick [] order_ref = ([], order_ref)"
| "gen_register_loop tick (key # keys) order_ref =
     (let event = option_event_add key order_ref (gen_option_side (ck_option_type key))
            (ck_strike_price key div 30) (10 + ucast (order_ref mod 50)) tick;
          (events, order_ref) = gen_register_loop tick keys (order_ref + 1)
      in (event # events, order_ref))"

definition gen_register :: "generator \<Rightarrow> option_order_event list \<times> generator" where
  "gen_register g =
     (if \<not> gen_registered g then
        (let (events, order_ref) =
               gen_register_loop (gen_tick_count g) (gen_contract_keys g) (gen_order_ref g)
         in (events, g\<lparr>gen_order_ref := order_ref, gen_registered := True\<rparr>))
      else ([], g))"

definition gen_option_order :: "generator \<Rightarrow> option_order_event list" where
  "gen_option_order g =
     (let tick = gen_tick_count g in
      if tick mod 20 = 0 \<and> gen_registered g then
        (let opt_ref = 100000 + tick;
             strike = gen_strikes ! unat (tick mod 5);
             expiry = (if tick div 5 mod 2 = 0 then expiry_near g else expiry_far g);
             opt_type = (if tick div 3 mod 2 = 0 then Call else Put);
             key = \<lparr>ck_underlying = STOCK_AAPL, ck_expiry_date = expiry, ck_strike_price = strike,
                    ck_option_type = opt_type\<rparr>;
             side = (if tick mod 3 = 0 then Buy else Sell);
             opt_price = strike div 30 + tick mod 100 * 10
         in [option_event_add key opt_ref side opt_price (5 + ucast (tick mod 20)) tick])
      else [])"

section \<open>Orders\<close>

text \<open>\<open>(tick_count as i64 % 100) - 50\<close>, cast back to \<open>u64\<close>: the remainder truncates.\<close>

definition gen_drift :: "u64 \<Rightarrow> u64" where
  "gen_drift tick = word_of_int (sint tick smod 100 - 50)"

definition gen_mid_price :: "generator \<Rightarrow> u64" where
  "gen_mid_price g = gen_base_price g + gen_drift (gen_tick_count g) * 1000"

definition gen_spot_events :: "generator \<Rightarrow> itch_event list \<times> generator" where
  "gen_spot_events g =
     (let tick = gen_tick_count g;
          mid_price = gen_mid_price g;
          r1 = gen_order_ref g + 1;
          r2 = r1 + 1;
          r3 = r2 + 1;
          r4 = r3 + 1
      in ([AddOrder tick r1 Buy (100 + ucast (tick mod 500)) STOCK_AAPL (mid_price - 1000),
           AddOrder tick r2 Buy (200 + ucast (tick mod 300)) STOCK_AAPL (mid_price - 2000),
           AddOrder tick r3 Sell (150 + ucast (tick mod 400)) STOCK_AAPL (mid_price + 1000),
           AddOrder tick r4 Sell (250 + ucast (tick mod 200)) STOCK_AAPL (mid_price + 2000),
           OrderDelete tick (saturating_sub r4 48),
           OrderDelete tick (saturating_sub r4 47)],
          g\<lparr>gen_order_ref := r4\<rparr>))"

text \<open>The base price moves once the generator has run for 300 seconds.\<close>

definition gen_rebase :: "u64 \<Rightarrow> generator \<Rightarrow> generator" where
  "gen_rebase elapsed_secs g =
     (if gen_tick_count g mod 1000 = 0 \<and> elapsed_secs \<ge> 300
      then g\<lparr>gen_base_price := 1500000 + gen_tick_count g div 100000 * 10000\<rparr> else g)"

definition gen_tick ::
  "u64 \<Rightarrow> generator \<Rightarrow> option_order_event list \<times> itch_event list \<times> generator" where
  "gen_tick elapsed_secs g =
     (let g = g\<lparr>gen_tick_count := gen_tick_count g + 1\<rparr>;
          (registrations, g) = gen_register g;
          (events, g) = gen_spot_events g;
          orders = gen_option_order g
      in (registrations @ orders, events, gen_rebase elapsed_secs g))"

text \<open>The pushes of a tick; an element its queue gives back is dropped.\<close>

definition gen_push ::
  "('f, 'e, 'b, 'o, 's) pipeline_ops \<Rightarrow> u64 \<Rightarrow> generator \<Rightarrow> ('e, 'b, 'o, 's) pipeline
     \<Rightarrow> generator \<times> ('e, 'b, 'o, 's) pipeline" where
  "gen_push L elapsed_secs g pl =
     (let (option_events, events, g) = gen_tick elapsed_secs g;
          pl = fold (\<lambda>event pl. snd (push_event L event pl)) events pl;
          pl = fold (\<lambda>event pl. snd (push_option_event L event pl)) option_events pl
      in (g, pl))"

text \<open>The loop: the order events of the first \<open>n\<close> ticks; \<open>es\<close> is the clock.\<close>

primrec gen_ticks :: "(nat \<Rightarrow> u64) \<Rightarrow> nat \<Rightarrow> generator \<Rightarrow> itch_event list \<times> generator" where
  "gen_ticks es 0 g = ([], g)"
| "gen_ticks es (Suc n) g =
     (let (evs, g) = gen_ticks es n g;
          (_, evs', g) = gen_tick (es n) g
      in (evs @ evs', g))"

end
