(* ===== verification/Generator_Correct.thy ===== *)
theory Generator_Correct
  imports Generator Gateway_Correct
begin

text \<open>
  What the test generator feeds the gateway: its references are fresh, its prices where they
  are meant to be, but half of its orders are never deleted, the books end up crossed, and
  its expirations are not dates.
\<close>

section \<open>The orders of a tick\<close>

definition tick_events :: "u64 \<Rightarrow> u64 \<Rightarrow> u64 \<Rightarrow> itch_event list" where
  "tick_events t mid r =
     [AddOrder t (r + 1) Buy (100 + ucast (t mod 500)) STOCK_AAPL (mid - 1000),
      AddOrder t (r + 2) Buy (200 + ucast (t mod 300)) STOCK_AAPL (mid - 2000),
      AddOrder t (r + 3) Sell (150 + ucast (t mod 400)) STOCK_AAPL (mid + 1000),
      AddOrder t (r + 4) Sell (250 + ucast (t mod 200)) STOCK_AAPL (mid + 2000),
      OrderDelete t (saturating_sub (r + 4) 48), OrderDelete t (saturating_sub (r + 4) 47)]"

lemma register_loop_ref: "snd (gen_register_loop t keys r) = r + of_nat (length keys)"
  by (induction keys arbitrary: r) (simp_all add: split_def Let_def)

lemma length_contract_keys: "length (gen_contract_keys g) = 20"
  by (simp add: gen_contract_keys_def gen_strikes_def)

definition first_ref :: "generator \<Rightarrow> u64" where
  "first_ref g = (if gen_registered g then gen_order_ref g else gen_order_ref g + 20)"

lemma gen_tick_result:
  assumes "gen_tick elapsed g = (orders, evs, g')"
  defines "t \<equiv> gen_tick_count g + 1"
  shows "evs = tick_events t (gen_base_price g + gen_drift t * 1000) (first_ref g)
    \<and> gen_order_ref g' = first_ref g + 4 \<and> gen_tick_count g' = t \<and> gen_registered g'
    \<and> (gen_base_price g' = gen_base_price g \<or> gen_base_price g' = 1500000 + t div 100000 * 10000)"
proof -
  let ?g = "g\<lparr>gen_tick_count := t\<rparr>"
  obtain regs g1 where reg: "gen_register ?g = (regs, g1)" by fastforce
  have g1: "g1 = ?g\<lparr>gen_order_ref := first_ref g, gen_registered := True\<rparr>"
    using reg register_loop_ref [of t "gen_contract_keys ?g" "gen_order_ref g"]
    by (cases g) (auto simp: gen_register_def first_ref_def length_contract_keys split_def Let_def
        split: if_splits)
  have "gen_tick elapsed g = (regs @ gen_option_order (g1\<lparr>gen_order_ref := first_ref g + 4\<rparr>),
      tick_events t (gen_base_price g + gen_drift t * 1000) (first_ref g),
      gen_rebase elapsed (g1\<lparr>gen_order_ref := first_ref g + 4\<rparr>))"
    using reg unfolding gen_tick_def t_def [symmetric]
    by (simp add: gen_spot_events_def gen_mid_price_def tick_events_def g1 Let_def add.commute [of 4])
  then show ?thesis using assms(1) by (auto simp: gen_rebase_def g1)
qed

section \<open>The prices of a tick\<close>

lemma sint_small:
  assumes "unat t < 2 ^ 63"
  shows "sint (t :: u64) = int (unat t)"
proof -
  have "int (unat t) < 2 ^ 63" using assms by (metis of_nat_less_iff of_nat_numeral of_nat_power)
  then have u: "0 \<le> uint t" "uint t < 2 ^ 63" by simp_all
  have "sint t = signed_take_bit 63 (uint t)" by (simp add: sint_uint)
  also have "\<dots> = uint t"
    by (rule signed_take_bit_int_eq_self) (use u in linarith)+
  finally show ?thesis by simp
qed

lemma smod_pos: "0 \<le> a \<Longrightarrow> 0 < b \<Longrightarrow> (a :: int) smod b = a mod b"
  by (cases "a = 0") (simp_all add: signed_modulo_int_def)

lemma gen_drift_value:
  assumes "unat t < 2 ^ 63"
  shows "gen_drift t = word_of_int (int (unat t mod 100) - 50)"
proof -
  have "sint t smod 100 = int (unat t mod 100)"
    by (simp only: sint_small [OF assms] smod_pos of_nat_0_le_iff zero_less_numeral of_nat_mod
        of_nat_numeral)
  then show ?thesis by (simp only: gen_drift_def)
qed

lemma mid_price_value:
  assumes "unat t < 2 ^ 63" "50000 \<le> unat base" "unat base < 2 ^ 63"
  shows "unat (base + gen_drift t * 1000) = unat base - 50000 + 1000 * (unat t mod 100)"
proof -
  let ?k = "int (unat t mod 100)" and ?v = "unat base - 50000 + 1000 * (unat t mod 100)"
  have "of_nat (unat base) = base" by simp
  then have "base + gen_drift t * 1000 = word_of_int (int (unat base) + (?k - 50) * 1000)"
    by (simp only: gen_drift_value [OF assms(1)] of_int_add of_int_mult of_int_numeral of_int_of_nat_eq)
  also have "int (unat base) + (?k - 50) * 1000 = int ?v"
    using assms(2) by (simp add: of_nat_diff algebra_simps)
  finally have eq: "base + gen_drift t * 1000 = of_nat ?v" by (simp only: of_int_of_nat_eq)
  have "unat t mod 100 < 100" by simp
  then have "?v < 2 ^ 64" using assms(3) by simp
  then show ?thesis unfolding eq by (rule unat_u64_of_nat)
qed

lemma rebase_value:
  assumes "unat t < 2 ^ 32"
  shows "unat (1500000 + t div 100000 * 10000 :: u64) = 1500000 + unat t div 100000 * 10000"
proof -
  let ?n = "1500000 + unat t div 100000 * 10000"
  have "t div 100000 = of_nat (unat t div 100000)" by (simp add: word_arith_nat_defs)
  then have eq: "1500000 + t div 100000 * 10000 = (of_nat ?n :: u64)" by simp
  have "?n < 2 ^ 64" using assms by simp
  then show ?thesis unfolding eq by (rule unat_u64_of_nat)
qed

section \<open>The state after some ticks\<close>

lemma gen_ticks_state:
  assumes "n < 2 ^ 29" "gen_ticks es n (generator_new now) = (evs, g)"
  shows "unat (gen_tick_count g) = n \<and> unat (first_ref g) = 21 + 4 * n
    \<and> (\<exists>j \<le> n. unat (gen_base_price g) = 1500000 + j div 100000 * 10000)"
  using assms
proof (induction n arbitrary: evs g)
  case 0
  then show ?case by (auto simp: generator_new_def first_ref_def Let_def)
next
  case (Suc n)
  obtain evs1 g1 where g1: "gen_ticks es n (generator_new now) = (evs1, g1)" by fastforce
  obtain orders evs2 where tick: "gen_tick (es n) g1 = (orders, evs2, g)"
    using Suc.prems(2) by (auto simp: g1 split: prod.splits)
  have IH: "unat (gen_tick_count g1) = n" "unat (first_ref g1) = 21 + 4 * n"
    "\<exists>j \<le> n. unat (gen_base_price g1) = 1500000 + j div 100000 * 10000"
    using Suc.IH [OF _ g1] Suc.prems(1) by simp_all
  note res = gen_tick_result [OF tick]
  have count: "unat (gen_tick_count g) = Suc n"
    using res IH(1) Suc.prems(1) by (simp add: unat_u64_add)
  moreover have "unat (first_ref g) = 21 + 4 * Suc n"
    using res IH(2) Suc.prems(1) by (simp add: first_ref_def unat_u64_add)
  moreover have "\<exists>j \<le> Suc n. unat (gen_base_price g) = 1500000 + j div 100000 * 10000"
  proof (cases "gen_base_price g = gen_base_price g1")
    case True
    then show ?thesis using IH(3) le_SucI by metis
  next
    case False
    then have "gen_base_price g = 1500000 + gen_tick_count g div 100000 * 10000"
      using res by auto
    then show ?thesis using rebase_value [of "gen_tick_count g"] count Suc.prems(1)
      by (intro exI [of _ "Suc n"]) simp
  qed
  ultimately show ?case by blast
qed

section \<open>The market of the ticks\<close>

lemma card_below:
  assumes "\<forall>x \<in> dom m. unat (x :: u64) \<le> k"
  shows "finite (dom m) \<and> card (dom m) \<le> k + 1"
proof -
  have sub: "dom m \<subseteq> of_nat ` {..k}"
  proof
    fix x assume "x \<in> dom m"
    then have "x = of_nat (unat x)" "unat x \<in> {..k}" using assms by simp_all
    then show "x \<in> of_nat ` {..k}" by (rule image_eqI)
  qed
  then have "card (dom m) \<le> card (of_nat ` {..k} :: u64 set)" by (intro card_mono) simp_all
  also have "\<dots> \<le> k + 1" using card_image_le [of "{..k}" "of_nat :: nat \<Rightarrow> u64"] by simp
  finally show ?thesis using finite_subset [OF sub] by simp
qed

lemma shares_nonzero:
  assumes "0 < c" "c < 1000" "unat x < 1000"
  shows "of_nat c + (ucast (x :: u64) :: u32) \<noteq> 0"
proof -
  have "ucast x = (of_nat (unat x) :: u32)" by simp
  then have "of_nat c + (ucast x :: u32) = of_nat (c + unat x)" by simp
  moreover have "unat (of_nat (c + unat x) :: u32) = c + unat x"
    by (rule of_nat_inverse [OF refl]) (use assms in simp)
  ultimately show ?thesis using assms(1) by auto
qed

text \<open>Adding the next reference is fresh and keeps the references below.\<close>

lemma add_next:
  assumes "\<forall>x \<in> dom m. unat x \<le> k" "k + 1 < 2 ^ 32" "unat y = k + 1" "n \<noteq> 0"
  shows "event_fresh m (AddOrder t y sd n s p) \<and> event_sized (AddOrder t y sd n s p)
    \<and> (\<forall>x \<in> dom (market_step m (AddOrder t y sd n s p)). unat x \<le> k + 1)"
proof -
  have "y \<notin> dom m"
  proof
    assume "y \<in> dom m"
    then have "unat y \<le> k" using assms(1) by blast
    then show False using assms(3) by simp
  qed
  then have "m y = None" by blast
  moreover have "card (dom m) < 2 ^ 32" using card_below [OF assms(1)] assms(2) by simp
  moreover have "\<forall>x \<in> dom m. unat x \<le> k + 1" using assms(1) by (blast intro: trans_le_add1)
  ultimately show ?thesis using assms(3,4) by simp
qed

definition resting :: "side \<Rightarrow> u64 \<Rightarrow> u32 \<Rightarrow> u64 \<times> order_info" where
  "resting sd p n = (STOCK_AAPL, \<lparr>oi_side = sd, oi_price = p, oi_shares = n\<rparr>)"

lemma tick_market:
  "foldl market_step m (tick_events t mid r) =
     ((m(r + 1 \<mapsto> resting Buy (mid - 1000) (100 + ucast (t mod 500)),
         r + 2 \<mapsto> resting Buy (mid - 2000) (200 + ucast (t mod 300)),
         r + 3 \<mapsto> resting Sell (mid + 1000) (150 + ucast (t mod 400)),
         r + 4 \<mapsto> resting Sell (mid + 2000) (250 + ucast (t mod 200))))
       (saturating_sub (r + 4) 48 := None))(saturating_sub (r + 4) 47 := None)"
  by (simp add: tick_events_def resting_def)

lemma tick_refs:
  "unat r < 2 ^ 31 \<Longrightarrow> unat (r + 1) = unat r + 1 \<and> unat (r + 2) = unat r + 2
     \<and> unat (r + 3) = unat r + 3 \<and> unat (r + 4 :: u64) = unat r + 4"
  by (simp add: unat_u64_add)

lemma tick_shares:
  "(100 + ucast (t mod 500) :: u32) \<noteq> 0" "(200 + ucast (t mod 300) :: u32) \<noteq> 0"
  "(150 + ucast (t mod 400) :: u32) \<noteq> 0" "(250 + ucast (t mod 200) :: u32) \<noteq> 0" for t :: u64
  using shares_nonzero [of 100 "t mod 500"] shares_nonzero [of 200 "t mod 300"]
    shares_nonzero [of 150 "t mod 400"] shares_nonzero [of 250 "t mod 200"]
  by (simp_all add: unat_mod)

lemma tick_feed_ok:
  assumes "\<forall>x \<in> dom m. unat x \<le> unat r" "unat r < 2 ^ 31"
  shows "market_feed_ok m (tick_events t mid r)
    \<and> (\<forall>x \<in> dom (foldl market_step m (tick_events t mid r)). unat x \<le> unat r + 4)"
proof -
  note r = tick_refs [OF assms(2)]
  let ?e1 = "AddOrder t (r + 1) Buy (100 + ucast (t mod 500)) STOCK_AAPL (mid - 1000)"
  let ?e2 = "AddOrder t (r + 2) Buy (200 + ucast (t mod 300)) STOCK_AAPL (mid - 2000)"
  let ?e3 = "AddOrder t (r + 3) Sell (150 + ucast (t mod 400)) STOCK_AAPL (mid + 1000)"
  let ?e4 = "AddOrder t (r + 4) Sell (250 + ucast (t mod 200)) STOCK_AAPL (mid + 2000)"
  have 1: "event_fresh m ?e1 \<and> event_sized ?e1 \<and> (\<forall>x \<in> dom (market_step m ?e1). unat x \<le> unat r + 1)"
    by (rule add_next [OF assms(1)]) (use r assms(2) tick_shares in simp_all)
  let ?m1 = "market_step m ?e1"
  have 2: "event_fresh ?m1 ?e2 \<and> event_sized ?e2
      \<and> (\<forall>x \<in> dom (market_step ?m1 ?e2). unat x \<le> unat r + 1 + 1)"
    by (rule add_next) (use 1 r assms(2) tick_shares in auto)
  let ?m2 = "market_step ?m1 ?e2"
  have 3: "event_fresh ?m2 ?e3 \<and> event_sized ?e3
      \<and> (\<forall>x \<in> dom (market_step ?m2 ?e3). unat x \<le> unat r + 1 + 1 + 1)"
    by (rule add_next) (use 2 r assms(2) tick_shares in auto)
  let ?m3 = "market_step ?m2 ?e3"
  have 4: "event_fresh ?m3 ?e4 \<and> event_sized ?e4
      \<and> (\<forall>x \<in> dom (market_step ?m3 ?e4). unat x \<le> unat r + 1 + 1 + 1 + 1)"
    by (rule add_next) (use 3 r assms(2) tick_shares in auto)
  have "market_feed_ok m (tick_events t mid r)"
    using 1 2 3 4 by (simp add: tick_events_def del: event_fresh.simps(1))
  moreover have "unat x \<le> unat r + 4"
    if "x \<in> dom (foldl market_step m (tick_events t mid r))" for x
  proof -
    have "x \<in> {r + 1, r + 2, r + 3, r + 4} \<union> dom m"
      using that by (auto simp: tick_market split: if_splits)
    then show ?thesis using r assms(1) by (auto intro: trans_le_add1)
  qed
  ultimately show ?thesis by blast
qed

text \<open>At most two of the orders are deleted.\<close>

lemma tick_card:
  assumes "\<forall>x \<in> dom m. unat x \<le> unat r" "unat r < 2 ^ 31"
  shows "card (dom m) + 2 \<le> card (dom (foldl market_step m (tick_events t mid r)))"
proof -
  note r = tick_refs [OF assms(2)]
  let ?new = "{r + 1, r + 2, r + 3, r + 4}" and ?d = "{saturating_sub (r + 4) 48, saturating_sub (r + 4) 47}"
  have "x \<notin> ?new" if "x \<in> dom m" for x
  proof
    assume "x \<in> ?new"
    then have "unat r < unat x" using r by auto
    moreover have "unat x \<le> unat r" using that assms(1) by blast
    ultimately show False by simp
  qed
  then have "?new \<inter> dom m = {}" by blast
  moreover have "distinct (map unat [r + 1, r + 2, r + 3, r + 4])" using r by simp
  then have "card ?new = 4" by (auto simp: card_insert_if)
  ultimately have "card (?new \<union> dom m) = 4 + card (dom m)"
    using card_below [OF assms(1)] by (simp add: card_Un_disjoint del: Un_insert_left)
  moreover have dom: "dom (foldl market_step m (tick_events t mid r)) = ?new \<union> dom m - ?d"
    by (auto simp: tick_market split: if_splits)
  moreover have "card (?new \<union> dom m) - card ?d \<le> card (?new \<union> dom m - ?d)"
    by (rule diff_card_le_card_Diff) simp
  moreover have "card ?d \<le> 2" by (simp add: card_insert_if)
  ultimately show ?thesis unfolding dom by linarith
qed

text \<open>The orders of the second and third reference of a tick are never deleted.\<close>

lemma deleted_mod:
  assumes "0 < x"
  shows "x = 25 + 4 * n - 48 \<Longrightarrow> x mod 4 = (1 :: nat)"
    and "x = 25 + 4 * n - 47 \<Longrightarrow> x mod 4 = (2 :: nat)"
proof -
  assume "x = 25 + 4 * n - 48"
  then have "x = 1 + (n - 6) * 4" using assms by simp
  then show "x mod 4 = 1" by (simp only: mod_mult_self1) simp
next
  assume "x = 25 + 4 * n - 47"
  then have "x = 2 + (n - 6) * 4" using assms by simp
  then show "x mod 4 = 2" by (simp only: mod_mult_self1) simp
qed

lemma tick_keeps:
  assumes "unat r < 2 ^ 31" "unat r = 21 + 4 * n" "unat x \<le> unat r"
    and "unat x mod 4 \<in> {0, 3}" "0 < unat x"
  shows "foldl market_step m (tick_events t mid r) x = m x"
proof -
  note r = tick_refs [OF assms(1)]
  have "x \<noteq> r + 1" "x \<noteq> r + 2" "x \<noteq> r + 3" "x \<noteq> r + 4" using r assms(3) by auto
  moreover have "x \<noteq> saturating_sub (r + 4) 48"
  proof
    assume "x = saturating_sub (r + 4) 48"
    then have "unat x = 25 + 4 * n - 48" using r assms(2) by (simp add: unat_saturating_sub)
    from deleted_mod(1) [OF assms(5) this] show False using assms(4) by simp
  qed
  moreover have "x \<noteq> saturating_sub (r + 4) 47"
  proof
    assume "x = saturating_sub (r + 4) 47"
    then have "unat x = 25 + 4 * n - 47" using r assms(2) by (simp add: unat_saturating_sub)
    from deleted_mod(2) [OF assms(5) this] show False using assms(4) by simp
  qed
  ultimately show ?thesis by (simp add: tick_market)
qed

lemma tick_new:
  assumes "unat r < 2 ^ 31" "unat r = 21 + 4 * n"
  shows "foldl market_step m (tick_events t mid r) (r + 2) =
      Some (resting Buy (mid - 2000) (200 + ucast (t mod 300)))"
    and "foldl market_step m (tick_events t mid r) (r + 3) =
      Some (resting Sell (mid + 1000) (150 + ucast (t mod 400)))"
proof -
  note r = tick_refs [OF assms(1)]
  have "unat (saturating_sub (r + 4) 48) < unat (r + 2)" "unat (saturating_sub (r + 4) 47) < unat (r + 2)"
    using r assms(2) by (simp_all add: unat_saturating_sub)
  then have "r + 2 \<noteq> saturating_sub (r + 4) 48" "r + 2 \<noteq> saturating_sub (r + 4) 47"
    "r + 3 \<noteq> saturating_sub (r + 4) 48" "r + 3 \<noteq> saturating_sub (r + 4) 47"
    using r by auto
  then show "foldl market_step m (tick_events t mid r) (r + 2) =
      Some (resting Buy (mid - 2000) (200 + ucast (t mod 300)))"
    and "foldl market_step m (tick_events t mid r) (r + 3) =
      Some (resting Sell (mid + 1000) (150 + ucast (t mod 400)))"
    by (simp_all add: tick_market)
qed

text \<open>What rests in the market is for the one stock, with a price and shares.\<close>

definition proper :: "market \<Rightarrow> bool" where
  "proper m \<longleftrightarrow> (\<forall>x s info. m x = Some (s, info) \<longrightarrow>
     s = STOCK_AAPL \<and> oi_price info \<noteq> 0 \<and> oi_shares info \<noteq> 0)"

lemma tick_proper:
  assumes "proper m" "2000 < unat mid" "unat mid < 2 ^ 32"
  shows "proper (foldl market_step m (tick_events t mid r))"
proof -
  have "unat (mid - 1000) = unat mid - 1000" "unat (mid - 2000) = unat mid - 2000"
    "unat (mid + 1000) = unat mid + 1000" "unat (mid + 2000) = unat mid + 2000"
    using assms(2,3) by (simp_all add: unat_sub word_le_nat_alt unat_u64_add)
  then have "mid - 1000 \<noteq> 0" "mid - 2000 \<noteq> 0" "mid + 1000 \<noteq> 0" "mid + 2000 \<noteq> 0"
    using assms(2) by auto
  then show ?thesis
    using assms(1) tick_shares [of t]
    by (auto simp: proper_def tick_market resting_def split: if_splits)
qed

section \<open>The market after some ticks\<close>

abbreviation "market_after evs \<equiv> foldl market_step Map.empty evs"

definition ticks_ok :: "nat \<Rightarrow> market \<Rightarrow> bool" where
  "ticks_ok n m \<longleftrightarrow> (\<forall>x \<in> dom m. unat x \<le> 21 + 4 * n) \<and> 2 * n \<le> card (dom m) \<and> proper m
     \<and> (1 \<le> n \<longrightarrow> m 24 = Some (resting Sell 1452000 151))
     \<and> (5 \<le> n \<longrightarrow> m 39 = Some (resting Buy 1453000 205))"

text \<open>The lower ask of the first tick and the lower bid of the fifth, once they are there.\<close>

lemma tick_sample_orders:
  assumes "unat r < 2 ^ 31" "unat r = 21 + 4 * n" "unat t = Suc n"
    and mid: "n < 100 \<Longrightarrow> unat mid = 1450000 + 1000 * (Suc n mod 100)"
    and "1 \<le> n \<longrightarrow> m 24 = Some (resting Sell 1452000 151)"
    and "5 \<le> n \<longrightarrow> m 39 = Some (resting Buy 1453000 205)"
  defines "m' \<equiv> foldl market_step m (tick_events t mid r)"
  shows "m' 24 = Some (resting Sell 1452000 151)"
    and "5 \<le> Suc n \<Longrightarrow> m' 39 = Some (resting Buy 1453000 205)"
proof -
  note keep = tick_keeps [OF assms(1,2), where m = m and t = t and mid = mid]
  show "m' 24 = Some (resting Sell 1452000 151)"
  proof (cases "n = 0")
    case True
    then have "mid = 1451000" "t = 1" "r + 3 = 24"
      using mid assms(2,3) tick_refs [OF assms(1)] by (simp_all add: word_unat_eq_iff)
    then show ?thesis using tick_new(2) [OF assms(1,2), of m t mid] by (simp add: m'_def)
  next
    case False
    then show ?thesis using keep [of 24] assms(2,5) by (simp add: m'_def)
  qed
  assume n: "5 \<le> Suc n"
  show "m' 39 = Some (resting Buy 1453000 205)"
  proof (cases "n = 4")
    case True
    then have "mid = 1455000" "t = 5" "r + 2 = 39"
      using mid assms(2,3) tick_refs [OF assms(1)] by (simp_all add: word_unat_eq_iff)
    then show ?thesis using tick_new(1) [OF assms(1,2), of m t mid] by (simp add: m'_def)
  next
    case False
    then show ?thesis using keep [of 39] assms(2,6) n by (simp add: m'_def)
  qed
qed

lemma tick_ok:
  assumes "ticks_ok n m" "n < 2 ^ 28" "unat r = 21 + 4 * n" "unat t = Suc n"
    and base: "unat base = 1500000 + j div 100000 * 10000" "j \<le> n"
  defines "evs \<equiv> tick_events t (base + gen_drift t * 1000) r"
  shows "market_feed_ok m evs \<and> ticks_ok (Suc n) (foldl market_step m evs)"
proof -
  let ?mid = "base + gen_drift t * 1000"
  have r: "unat r < 2 ^ 31" using assms(2,3) by simp
  have m: "\<forall>x \<in> dom m. unat x \<le> unat r" "2 * n \<le> card (dom m)" "proper m"
    "1 \<le> n \<longrightarrow> m 24 = Some (resting Sell 1452000 151)"
    "5 \<le> n \<longrightarrow> m 39 = Some (resting Buy 1453000 205)"
    using assms(1,3) by (simp_all add: ticks_ok_def)
  have small: "unat base < 2 ^ 31" using base assms(2) by simp
  have mid: "unat ?mid = unat base - 50000 + 1000 * (Suc n mod 100)"
    using mid_price_value [of t base] assms(2,4) base small by simp
  have "Suc n mod 100 < 100" by simp
  then have "2000 < unat ?mid" "unat ?mid < 2 ^ 32" using mid base small by simp_all
  note proper = tick_proper [OF m(3) this]
  have near: "unat ?mid = 1450000 + 1000 * (Suc n mod 100)" if "n < 100"
    using mid base that by simp
  show ?thesis
    using tick_feed_ok [OF m(1) r, of t ?mid] tick_card [OF m(1) r, of t ?mid] proper m(2) assms(3)
      tick_sample_orders [OF r assms(3,4) near m(4,5)]
    by (simp add: ticks_ok_def evs_def)
qed

lemma gen_ticks_market:
  assumes "n < 2 ^ 28" "gen_ticks es n (generator_new now) = (evs, g)"
  shows "market_feed_ok Map.empty evs \<and> ticks_ok n (market_after evs)"
  using assms
proof (induction n arbitrary: evs g)
  case 0
  then show ?case by (simp add: proper_def ticks_ok_def)
next
  case (Suc n)
  obtain evs1 g1 where g1: "gen_ticks es n (generator_new now) = (evs1, g1)" by fastforce
  obtain orders evs2 where tick: "gen_tick (es n) g1 = (orders, evs2, g)"
    and evs: "evs = evs1 @ evs2"
    using Suc.prems(2) by (auto simp: g1 split: prod.splits)
  define t where "t = gen_tick_count g1 + 1"
  have evs2: "evs2 = tick_events t (gen_base_price g1 + gen_drift t * 1000) (first_ref g1)"
    using gen_tick_result [OF tick] by (simp add: t_def)
  from gen_ticks_state [OF _ g1] Suc.prems(1) obtain j
    where count: "unat (gen_tick_count g1) = n" and r: "unat (first_ref g1) = 21 + 4 * n"
      and j: "unat (gen_base_price g1) = 1500000 + j div 100000 * 10000" "j \<le> n"
    by auto
  have t: "unat t = Suc n" using count Suc.prems(1) by (simp add: t_def unat_u64_add)
  show ?case
    using tick_ok [OF _ _ r t j, of "market_after evs1"] Suc.IH [OF _ g1] Suc.prems(1)
    by (simp add: evs evs2 market_feed_ok_append)
qed

section \<open>Expirations\<close>

lemma abs_sdiv: "\<bar>k sdiv l\<bar> = \<bar>k\<bar> div \<bar>l\<bar>" for k l :: int
  by (cases "k = 0 \<or> l = 0")
    (auto simp: signed_divide_int_def abs_mult pos_imp_zdiv_nonneg_iff)

lemma sdiv_bound: "0 < l \<Longrightarrow> \<bar>k\<bar> \<le> l * c \<Longrightarrow> \<bar>k sdiv l\<bar> \<le> c" for k l c :: int
  using zdiv_mono1 [of "\<bar>k\<bar>" "l * c" l] by (simp add: abs_sdiv)

text \<open>The Julian day of the first ten years, whatever the digits of month and day.\<close>

lemma julian_day_small:
  fixes y m d :: nat
  assumes "y \<le> 9" "m \<le> 99" "d \<le> 99"
  shows "\<bar>julian_day (int y) (int m) (int d)\<bar> < 2000000"
proof -
  define a where "a = (14 - int m) sdiv 12"
  define ma where "ma = (153 * (int m + 12 * a - 3) + 2) sdiv 5"
  define ya where "ya = int y + 4800 - a"
  have a: "\<bar>a\<bar> \<le> 8" unfolding a_def using assms(2) by (intro sdiv_bound) simp_all
  have ma: "\<bar>ma\<bar> \<le> 6200" unfolding ma_def using assms(2) a by (intro sdiv_bound) simp_all
  have ya: "4792 \<le> ya" "ya \<le> 4817" using a assms(1) by (simp_all add: ya_def)
  have "\<bar>ya sdiv 4\<bar> \<le> 1205" "\<bar>ya sdiv 100\<bar> \<le> 49" "\<bar>ya sdiv 400\<bar> \<le> 13"
    using ya by (intro sdiv_bound; simp)+
  moreover have "julian_day (int y) (int m) (int d) = int d + ma + 365 * ya + ya sdiv 4 - ya sdiv 100 + ya sdiv 400 - 32045"
    by (simp add: julian_day_def ma_def ya_def a_def Let_def)
  ultimately show ?thesis using ma ya assms(3) by simp
qed

lemma negative_as_u64:
  assumes "- (2 ^ 63) \<le> k" "k < 0"
  shows "2 ^ 63 \<le> unat (word_of_int k :: u64)"
proof -
  have "uint (word_of_int k :: u64) = k mod 2 ^ 64" by (simp add: uint_word_of_int)
  also have "\<dots> = (k + 2 ^ 64) mod 2 ^ 64" by simp
  also have "\<dots> = k + 2 ^ 64" by (rule mod_pos_pos_trivial) (use assms in simp_all)
  finally have "2 ^ 63 \<le> uint (word_of_int k :: u64)" using assms by simp
  then have "int (2 ^ 63) \<le> int (unat (word_of_int k :: u64))" by simp
  then show ?thesis by (simp only: of_nat_le_iff)
qed

lemma small_date_wraps:
  assumes "unat e < 100000"
  shows "2 ^ 63 \<le> unat (date_to_unix_secs e)"
proof -
  have "unat (date_year e) \<le> 9" "unat (date_month e) \<le> 99" "unat (date_day e) \<le> 99"
    using assms by (simp_all add: date_year_def date_month_def date_day_def unat_div unat_mod
        less_Suc_eq_le [symmetric] less_mult_imp_div_less)
  then have "\<bar>julian_day (int (unat (date_year e))) (int (unat (date_month e))) (int (unat (date_day e)))\<bar>
      < 2000000" (is "\<bar>?j\<bar> < _")
    by (rule julian_day_small)
  then have "- (2 ^ 63) \<le> (?j - 2440588) * 86400" "(?j - 2440588) * 86400 < 0" by simp_all
  from negative_as_u64 [OF this] show ?thesis by (simp add: date_to_unix_secs_def Let_def)
qed

lemma gen_expiry_values:
  assumes "unat now < 86400 * 90000"
  shows "unat (expiry_near (generator_new now)) = unat now div 86400 + 30"
    and "unat (expiry_far (generator_new now)) = unat now div 86400 + 120"
proof -
  let ?n = "unat now div 86400 + 30"
  have "?n < 2 ^ 31" using assms by (simp add: less_mult_imp_div_less)
  moreover have "unat (now div 86400 + 30) = ?n"
    using calculation by (subst unat_u64_add) (simp_all add: unat_div)
  ultimately have near: "unat (ucast (now div 86400 + 30) :: u32) = ?n"
    by (simp add: unsigned_ucast_eq take_bit_nat_eq_self)
  then show "unat (expiry_near (generator_new now)) = ?n" by (simp add: generator_new_def Let_def)
  have "unat (ucast (now div 86400 + 30) + 90 :: u32) = ?n + 90"
    using near \<open>?n < 2 ^ 31\<close> by (simp add: unat_plus_if')
  then show "unat (expiry_far (generator_new now)) = unat now div 86400 + 120"
    by (simp add: generator_new_def Let_def)
qed

section \<open>Properties\<close>

text \<open>
  The drift of the generator works out as meant although it is computed in unsigned
  arithmetic that wraps: the mid price of tick \<open>t\<close> runs from 50000 below the base price to
  49000 above it, in steps of 1000 with period 100.
\<close>

theorem generator_mid_price_drifts:
  assumes "unat (gen_tick_count g) < 2 ^ 63"
    and "50000 \<le> unat (gen_base_price g)" "unat (gen_base_price g) < 2 ^ 63"
  shows "unat (gen_mid_price g) =
    unat (gen_base_price g) - 50000 + 1000 * (unat (gen_tick_count g) mod 100)"
  using mid_price_value [OF assms] by (simp add: gen_mid_price_def)

theorem generator_mid_price_drifts_witness:
  "unat (gen_mid_price ((generator_new 0)\<lparr>gen_tick_count := 7\<rparr>)) = 1457000"
  using generator_mid_price_drifts [of "(generator_new 0)\<lparr>gen_tick_count := 7\<rparr>"]
  by (simp add: generator_new_def Let_def)

text \<open>
  The generator's feed is fresh and sized, whatever its clock, so the books quote its
  orders; but it deletes at most two of the four orders of a tick, and the live orders grow
  by two or more with every tick.
\<close>

theorem generator_orders_accumulate:
  assumes "n < 2 ^ 28" "gen_ticks es n (generator_new now) = (evs, g)"
  shows "market_feed_ok Map.empty evs \<and> 2 * n \<le> card (dom (foldl market_step Map.empty evs))"
  using gen_ticks_market [OF assms] by (simp add: ticks_ok_def)

theorem generator_orders_accumulate_witness:
  "2000000 \<le> card (dom (foldl market_step Map.empty (fst (gen_ticks (\<lambda>_. 0) 1000000 (generator_new 0)))))"
proof -
  obtain evs g where run: "gen_ticks (\<lambda>_. 0) 1000000 (generator_new 0) = (evs, g)" by fastforce
  from generator_orders_accumulate [OF _ run] show ?thesis by (simp add: run)
qed

text \<open>
  From its fifth tick on, the generator leaves the book it feeds crossed for good: the
  lower bid of the fifth tick is above the lower ask of the first, and neither is ever
  deleted.  The writer reports this as an inconsistency on every turn.
\<close>

theorem generator_crosses_book:
  assumes "5 \<le> n" "n < 2 ^ 28" "gen_ticks es n (generator_new now) = (evs, g)"
    and "feeds order_book_new evs ob us"
  shows "\<exists>b. books ob STOCK_AAPL = Some b \<and> \<not> is_consistent b"
proof -
  let ?m = "foldl market_step Map.empty evs"
  have m: "market_feed_ok Map.empty evs" "proper ?m" "?m 24 = Some (resting Sell 1452000 151)"
    "?m 39 = Some (resting Buy 1453000 205)"
    using gen_ticks_market [OF assms(2,3)] assms(1) by (simp_all add: ticks_ok_def)
  have ok: "routing_ok ob" "all_positive ob" "market_of ob = ?m"
    using market_run_ok [OF feeds_market [OF assms(4) m(1)]] by simp_all
  obtain b where b: "books ob STOCK_AAPL = Some b"
    using m(3) by (auto simp: ok(3) [symmetric] market_of_def resting_def split: option.splits)
  have orders: "sb_orders b = stock_orders ?m STOCK_AAPL"
    using stock_orders_market_of [OF ok(1), of STOCK_AAPL] ok(3) b by (simp add: entry_def)
  have bok: "book_ok b" "book_positive b"
    using routing_book [OF ok(1) b] ok(2) b by (auto simp: all_positive_def)
  have live: "sb_orders b 24 = Some \<lparr>oi_side = Sell, oi_price = 1452000, oi_shares = 151\<rparr>"
    "sb_orders b 39 = Some \<lparr>oi_side = Buy, oi_price = 1453000, oi_shares = 205\<rparr>"
    using m(3,4) by (simp_all add: orders stock_orders_Some_iff resting_def)
  note pos = map_total_pos [OF book_ok_finite [OF bok(1)]]
  have "live_volume (sb_orders b) Sell 1452000 \<noteq> 0" "live_volume (sb_orders b) Buy 1453000 \<noteq> 0"
    unfolding live_volume_def by (rule pos [OF live(1)] pos [OF live(2)]; simp add: spot_amount_def)+
  moreover have "spot_amount Sell (the (sb_orders b x)) 0 = 0" if dom: "x \<in> dom (sb_orders b)" for x
  proof -
    obtain info where info: "sb_orders b x = Some info" using dom by blast
    then have "?m x = Some (STOCK_AAPL, info)" by (simp add: orders stock_orders_Some_iff)
    then have "oi_price info \<noteq> 0" using m(2) unfolding proper_def by blast
    then show ?thesis by (simp add: info spot_amount_def)
  qed
  then have "live_volume (sb_orders b) Sell 0 = 0" by (simp add: live_volume_def map_total_def)
  ultimately have "\<not> is_consistent b"
    using consistent_not_crossed [OF bok] by fastforce
  with b show ?thesis by blast
qed

theorem generator_crosses_book_witness:
  "\<exists>ob us b. feeds order_book_new (fst (gen_ticks (\<lambda>_. 0) 5 (generator_new 0))) ob us
     \<and> books ob STOCK_AAPL = Some b \<and> \<not> is_consistent b"
proof -
  obtain evs g where run: "gen_ticks (\<lambda>_. 0) 5 (generator_new 0) = (evs, g)" by fastforce
  obtain ob us where feed: "feeds order_book_new evs ob us"
    using feeds_exist [of order_book_new evs] by (auto simp: new_books)
  from generator_crosses_book [OF _ _ run feed] feed show ?thesis by (auto simp: run)
qed

text \<open>
  The generator writes its expirations as a count of days where the contracts expect the
  digits of a date: until the year 2216 every one of them lies, for the pricing, before the
  epoch, where the unsigned arithmetic makes it an expiry of more than \<open>2\<^sup>6\<^sup>3\<close> seconds.
\<close>

theorem generator_expirations_wrap:
  assumes "unat now < 86400 * 90000" "k \<in> set (gen_contract_keys (generator_new now))"
  shows "2 ^ 63 \<le> unat (date_to_unix_secs (ck_expiry_date k))"
proof -
  have "unat now div 86400 < 90000" using assms(1) by (simp add: less_mult_imp_div_less)
  then have "unat (expiry_near (generator_new now)) < 100000"
    "unat (expiry_far (generator_new now)) < 100000"
    using gen_expiry_values [OF assms(1)] by simp_all
  moreover have "ck_expiry_date k \<in> {expiry_near (generator_new now), expiry_far (generator_new now)}"
    using assms(2) by (auto simp: gen_contract_keys_def option_contract_new_def)
  ultimately show ?thesis using small_date_wraps by auto
qed

theorem generator_expirations_wrap_witness:
  "2 ^ 63 \<le> unat (date_to_unix_secs (expiry_near (generator_new 1700000000)))"
proof -
  let ?k = "\<lparr>ck_underlying = STOCK_AAPL, ck_expiry_date = expiry_near (generator_new 1700000000),
    ck_strike_price = 1400000, ck_option_type = Call\<rparr>"
  have "?k \<in> set (gen_contract_keys (generator_new 1700000000))"
    by (simp add: gen_contract_keys_def gen_strikes_def option_contract_new_def)
  from generator_expirations_wrap [OF _ this] show ?thesis by simp
qed

end
