(* ===== verification/Generator_Run.thy ===== *)
theory Generator_Run
  imports Generator_Correct
begin

text \<open>
  The gateway fed by its own test generator: the pushes of its ticks, and what the writer
  makes of them.
\<close>

section \<open>The pushes of the ticks\<close>

text \<open>The loop of the generator with its pushes; \<open>es\<close> is the clock.\<close>

primrec gen_pushes ::
  "('f, 'e, 'b, 'o, 's) pipeline_ops \<Rightarrow> (nat \<Rightarrow> u64) \<Rightarrow> nat \<Rightarrow> generator \<Rightarrow> ('e, 'b, 'o, 's) pipeline
     \<Rightarrow> generator \<times> ('e, 'b, 'o, 's) pipeline" where
  "gen_pushes L es 0 g pl = (g, pl)"
| "gen_pushes L es (Suc n) g pl = (let (g, pl) = gen_pushes L es n g pl in gen_push L (es n) g pl)"

lemma push_events_consume:
  "fold (\<lambda>event pl. snd (push_event L event pl)) events pl = consume_items L (map Inr events) pl"
  by (induction events arbitrary: pl) simp_all

lemma event_tx_push_option: "event_tx (snd (push_option_event L ev pl)) = event_tx pl"
  by (simp add: push_option_event_def split: option.split)

lemma event_tx_push_options:
  "event_tx (fold (\<lambda>event pl. snd (push_option_event L event pl)) events pl) = event_tx pl"
  by (induction events arbitrary: pl) (simp_all add: event_tx_push_option)

lemma length_gen_ticks: "length (fst (gen_ticks es n g)) = 6 * n"
proof (induction n)
  case (Suc n)
  obtain orders evs g' where tick: "gen_tick (es n) (snd (gen_ticks es n g)) = (orders, evs, g')"
    by (cases "gen_tick (es n) (snd (gen_ticks es n g))") auto
  have "length evs = 6" using gen_tick_result [OF tick] by (simp add: tick_events_def)
  with Suc tick show ?case by (simp add: split_def)
qed simp

context gateway_queues
begin

text \<open>While the queue has room, all events of the ticks are queued in order.\<close>

lemma gen_pushes_contents:
  assumes "v_event V (event_tx pl) = []" "6 * n \<le> EVENT_QUEUE_CAP"
  shows "v_event V (event_tx (snd (gen_pushes L es n g pl))) = fst (gen_ticks es n g)
    \<and> fst (gen_pushes L es n g pl) = snd (gen_ticks es n g)"
  using assms(2)
proof (induction n)
  case 0
  then show ?case using assms(1) by simp
next
  case (Suc n)
  obtain pl1 where pushes: "gen_pushes L es n g pl = (snd (gen_ticks es n g), pl1)"
    and pl1: "v_event V (event_tx pl1) = fst (gen_ticks es n g)"
    using Suc by (cases "gen_pushes L es n g pl") auto
  obtain orders evs g' where tick: "gen_tick (es n) (snd (gen_ticks es n g)) = (orders, evs, g')"
    by (cases "gen_tick (es n) (snd (gen_ticks es n g))") auto
  have room: "length (fst (gen_ticks es n g)) + length evs \<le> EVENT_QUEUE_CAP"
    using gen_tick_result [OF tick] Suc.prems by (simp add: length_gen_ticks tick_events_def)
  then have "v_event V (event_tx (consume_items L (map Inr evs) pl1)) = fst (gen_ticks es n g) @ evs"
    using consume_items_contents [of pl1 "map Inr evs"] by (simp add: pl1 comp_def)
  with pushes tick show ?case
    by (simp add: gen_push_def push_events_consume event_tx_push_options split_def Let_def)
qed

end

section \<open>Properties\<close>

text \<open>
  C40: The gateway on its own test data.  When the generator has done five ticks or more --
  as many as the writer takes at once -- into an empty queue, the next turn of the writer
  completes, empties the queue, and reports a crossed book, whatever the clock and the order
  of the hash maps are.
\<close>

theorem generator_makes_writer_report:
  fixes rate :: 'f and srv :: "('f, 'q, 'p) broadcast_server" and secs :: "nat \<Rightarrow> u64" and now :: u64
  assumes "gateway_queues L Q P V" "honest es" "5 \<le> n" "6 * n \<le> WRITER_BATCH_SIZE"
    and "v_event V (event_tx pl) = []"
  defines "gw \<equiv> gateway_new (snd (gen_pushes L secs n (generator_new now) pl)) srv rate"
  shows "\<exists>gw'. writer_turn F L Q P es es' ks gw = Some gw'
    \<and> v_event V (event_tx (gw_pipeline gw')) = []
    \<and> STOCK_AAPL \<in> dom (books (wr_order_book (gw_writer gw')))
    \<and> (STOCK_AAPL \<in> set ks \<longrightarrow> crossed_reported gw')"
proof -
  obtain evs g where run: "gen_ticks secs n (generator_new now) = (evs, g)" by fastforce
  have "6 * n \<le> EVENT_QUEUE_CAP" using assms(4) by (simp add: WRITER_BATCH_SIZE_def EVENT_QUEUE_CAP_def)
  from gateway_queues.gen_pushes_contents [OF assms(1,5) this, of secs "generator_new now"]
  have queue: "v_event V (event_tx (gw_pipeline gw)) = evs" by (simp add: gw_def gateway_new_def run)
  have "length evs = 6 * n" using length_gen_ticks [of secs n "generator_new now"] by (simp add: run)
  with assms(3,4) have batch: "take 1024 evs = evs" "drop 1024 evs = []" "evs \<noteq> []"
    by (auto simp: WRITER_BATCH_SIZE_def)
  have "no_contracts (wr_option_manager (gw_writer gw))" "finite (dom (books (wr_order_book (gw_writer gw))))"
    by (simp_all add: gw_def gateway_new_def writer_new_def new_books)
  from gateway_queues.writer_turn_idle [OF assms(1,2) this, where F = F and es' = es' and ks = ks
      and bits = "\<lambda>_. 0" and R = "\<lambda>_. True"]
  obtain q q' m ob us where turn: "writer_turn F L Q P es es' ks gw = Some (end_turn ks (gw\<lparr>
      gw_pipeline := (gw_pipeline gw)\<lparr>event_tx := q, option_event_tx := q'\<rparr>,
      gw_writer := (gw_writer gw)\<lparr>opt_count := 0, wr_order_book := ob,
        wr_server := fold (enqueue_bbo Q) us (wr_server (gw_writer gw)), bbo_count := of_nat (length us),
        wr_option_manager := m, events_count := of_nat (length evs
          + length (take 1024 (v_option_event V (option_event_tx (gw_pipeline gw)))))\<rparr>\<rparr>))"
    and q: "v_event V q = []" and us: "feeds (wr_order_book (gw_writer gw)) evs ob us"
    unfolding queue batch by blast
  have "feeds order_book_new evs ob us" using us by (simp add: gw_def gateway_new_def writer_new_def)
  then obtain b where crossed: "books ob STOCK_AAPL = Some b" "\<not> is_consistent b"
    using generator_crosses_book [OF assms(3) _ run] assms(4) by (auto simp: WRITER_BATCH_SIZE_def)
  moreover have "\<not> all_consistent ks ob" if "STOCK_AAPL \<in> set ks"
    using map_values_member [of STOCK_AAPL ks "books ob" b] that crossed by (auto simp: all_consistent_def list_all_iff)
  moreover have "0 < (of_nat (length evs + length (take 1024 os)) :: u64)" for os :: "option_order_event list"
  proof -
    have "length evs \<le> 1024" using batch(1) by (metis length_take min.cobounded2)
    moreover have "length (take 1024 os) \<le> 1024" by simp
    ultimately have "unat (of_nat (length evs + length (take 1024 os)) :: u64) = length evs + length (take 1024 os)"
      by (intro unat_u64_of_nat) simp
    with batch(3) show ?thesis by (simp add: word_less_nat_alt)
  qed
  ultimately show ?thesis using turn q
    by (intro exI [of _ "the (writer_turn F L Q P es es' ks gw)"]) (simp add: end_turn_def domI)
qed

theorem generator_makes_writer_report_witness:
  "\<exists>gw'. writer_turn exact_ops list_pipeline (list_queue BROADCAST_QUEUE_CAP) (list_queue OPTION_QUEUE_CAP)
       (\<lambda>n ob. sample_env\<lparr>env_books := sorted_list_of_set (dom (books ob))\<rparr>) (\<lambda>n. sample_env) [STOCK_AAPL]
       (gateway_new (snd (gen_pushes list_pipeline (\<lambda>_. 0) 5 (generator_new 0) (fresh_pipeline [])))
         fresh_server (Fin 0.03)) = Some gw'
     \<and> crossed_reported gw'"
proof -
  let ?es = "\<lambda>n ob. sample_env\<lparr>env_books := sorted_list_of_set (dom (books ob))\<rparr>"
  have "honest ?es" by (simp add: honest_def enumerates_def)
  moreover have "(6 :: nat) * 5 \<le> WRITER_BATCH_SIZE" by (simp add: WRITER_BATCH_SIZE_def)
  moreover have "v_event list_views (event_tx (fresh_pipeline [])) = []" by (simp add: list_views_def)
  ultimately show ?thesis
    using generator_makes_writer_report [OF lists.gateway_queues_axioms, of ?es 5 "fresh_pipeline []" exact_ops
        "\<lambda>n. sample_env" "[STOCK_AAPL]" "\<lambda>_. 0" 0 fresh_server "Fin 0.03"] by auto
qed


end
