(* ===== verification/Spot_Stress_Tests.thy ===== *)
theory Spot_Stress_Tests
  imports Spot_Tests
begin

text \<open>
  The two long tests of src/orderbook/mod.rs: the storm of replacements on one book, and the
  readers that look at the books of two stocks while a writer replaces orders.  Neither is
  evaluated; both feeds keep buys and sells on their sides of a price.
\<close>

section \<open>Orders by reference\<close>

text \<open>
  The references in use are among \<open>U\<close>, and what is kept under a reference satisfies \<open>I\<close>.
\<close>

definition refs_ok :: "nat set \<Rightarrow> (nat \<Rightarrow> 'a \<Rightarrow> bool) \<Rightarrow> (u64 \<rightharpoonup> 'a) \<Rightarrow> bool" where
  "refs_ok U I m \<longleftrightarrow> (\<forall>r x. m r = Some x \<longrightarrow> unat r \<in> U \<and> I (unat r) x)"

lemma refs_okD: "refs_ok U I m \<Longrightarrow> m r = Some x \<Longrightarrow> unat r \<in> U \<and> I (unat r) x"
  by (simp add: refs_ok_def)

lemma refs_ok_empty [simp]: "refs_ok U I Map.empty"
  by (simp add: refs_ok_def)

lemma refs_ok_mono: "refs_ok U I m \<Longrightarrow> U \<subseteq> U' \<Longrightarrow> refs_ok U' I m"
  by (auto simp: refs_ok_def)

lemma refs_ok_remove: "refs_ok U I m \<Longrightarrow> refs_ok U I (m(r := None))"
  by (simp add: refs_ok_def)

lemma refs_ok_store:
  "refs_ok U I m \<Longrightarrow> k < 2 ^ 64 \<Longrightarrow> I k x \<Longrightarrow> refs_ok (insert k U) I (m(word_of_nat k \<mapsto> x))"
  by (auto simp: refs_ok_def unat_u64_of_nat)

lemma refs_fresh: "refs_ok U I m \<Longrightarrow> k < 2 ^ 64 \<Longrightarrow> k \<notin> U \<Longrightarrow> m (word_of_nat k) = None"
  unfolding refs_ok_def by (metis not_None_eq unat_u64_of_nat)

lemma refs_card:
  assumes "refs_ok U I m" "finite U"
  shows "card (dom m) \<le> card U"
proof -
  have "inj_on unat (dom m)" by (rule inj_onI) (simp add: word_unat_eq_iff)
  then have "card (dom m) = card (unat ` dom m)" by (simp add: card_image)
  also have "\<dots> \<le> card U" by (rule card_mono [OF assms(2)]) (use assms(1) in \<open>auto simp: refs_ok_def\<close>)
  finally show ?thesis .
qed

lemma word_less: "a < b \<Longrightarrow> b < 2 ^ 64 \<Longrightarrow> (word_of_nat a :: u64) < word_of_nat b"
  by (simp add: word_less_nat_alt unat_u64_of_nat)

lemma word_le: "a \<le> b \<Longrightarrow> b < 2 ^ 64 \<Longrightarrow> (word_of_nat a :: u64) \<le> word_of_nat b"
  by (simp add: word_le_nat_alt unat_u64_of_nat)

lemma test_shares_nonzero: "0 < n \<Longrightarrow> n < 2 ^ 32 \<Longrightarrow> (word_of_nat n :: u32) \<noteq> 0"
  by (auto simp: word_unat_eq_iff unat_of_nat)

section \<open>The storm\<close>

definition storm_setup :: "nat \<Rightarrow> itch_event list" where
  "storm_setup n = concat (map (\<lambda>i.
     [add_order_event (word_of_nat (i * 2 + 1)) Buy 100 (word_of_nat (900000 + (i mod 50) * 1000)),
      add_order_event (word_of_nat (i * 2 + 2)) Sell 150 (word_of_nat (1100000 + (i mod 50) * 1000))]) [0..<n])"

definition storm_replace :: "nat \<Rightarrow> itch_event" where
  "storm_replace i =
     (let old_ref = (i mod 200) + 1;
          new_ref = 10000 + i;
          sd = (if old_ref mod 2 = 1 then Buy else Sell);
          drift = (i mod 100) * 500;
          new_price = (if sd = Buy then 800000 + drift else 1200000 + drift)
      in replace_order_event (word_of_nat old_ref) (word_of_nat new_ref) (word_of_nat (100 + i mod 500))
           (word_of_nat new_price))"

fun assert_each :: "(single_book \<Rightarrow> bool) \<Rightarrow> itch_event list \<Rightarrow> single_book \<Rightarrow> bool" where
  "assert_each A [] book = True"
| "assert_each A (ev # evs) book =
     (let book = fst (book_apply book ev) in A book \<and> assert_each A evs book)"

definition test_replace_storm_no_cross :: bool where
  "test_replace_storm_no_cross =
     (let book = apply_all (storm_setup 100) (single_book_new TEST_STOCK)
      in is_consistent book \<and> assert_each is_consistent (map storm_replace [0..<100000]) book)"

text \<open>What is kept: buys below a million, sells above, and odd references of the setup buy.\<close>

definition storm_order :: "nat \<Rightarrow> order_info \<Rightarrow> bool" where
  "storm_order r info \<longleftrightarrow> on_band_side 1000000 (oi_side info) (oi_price info)
     \<and> (r \<le> 200 \<longrightarrow> oi_side info = (if odd r then Buy else Sell))"

abbreviation "storm_refs n \<equiv> refs_ok {..<n} storm_order"

lemma storm_refs_banded: "storm_refs n live \<Longrightarrow> banded 1000000 live"
  by (auto simp: refs_ok_def storm_order_def banded_def)

lemma storm_add:
  assumes "storm_refs n live" "n < 2 ^ 32" "storm_order n \<lparr>oi_side = sd, oi_price = p, oi_shares = q\<rparr>"
  shows "event_fresh live (add_order_event (word_of_nat n) sd q p)"
    and "storm_refs (Suc n) (live_step live (add_order_event (word_of_nat n) sd q p))"
proof -
  have "live (word_of_nat n) = None" by (rule refs_fresh [OF assms(1)]) (use assms(2) in simp_all)
  moreover have "card (dom live) \<le> n" using refs_card [OF assms(1)] by simp
  ultimately show "event_fresh live (add_order_event (word_of_nat n) sd q p)"
    using assms(2) by (simp add: add_order_event_def)
  have "insert n {..<n} = {..<Suc n}" by auto
  with refs_ok_store [OF assms(1) _ assms(3)] assms(2)
  show "storm_refs (Suc n) (live_step live (add_order_event (word_of_nat n) sd q p))"
    by (simp add: add_order_event_def)
qed

lemma feed_ok_append: "feed_ok live (evs @ evs') \<longleftrightarrow> feed_ok live evs \<and> feed_ok (foldl live_step live evs) evs'"
  by (induction evs arbitrary: live) auto

lemma storm_setup_ok:
  "n \<le> 100 \<Longrightarrow> feed_ok Map.empty (storm_setup n)
     \<and> storm_refs (2 * n + 1) (foldl live_step Map.empty (storm_setup n))"
proof (induction n)
  case 0
  show ?case by (simp add: storm_setup_def)
next
  case (Suc n)
  let ?buy = "add_order_event (word_of_nat (n * 2 + 1)) Buy 100 (word_of_nat (900000 + (n mod 50) * 1000))"
  let ?sell = "add_order_event (word_of_nat (n * 2 + 2)) Sell 150 (word_of_nat (1100000 + (n mod 50) * 1000))"
  define live where "live = foldl live_step Map.empty (storm_setup n)"
  have split: "storm_setup (Suc n) = storm_setup n @ [?buy, ?sell]" by (simp add: storm_setup_def)
  have ok: "feed_ok Map.empty (storm_setup n)" "storm_refs (n * 2 + 1) live"
    using Suc by (simp_all add: live_def mult.commute)
  have "n mod 50 < 50" by simp
  then have "(word_of_nat (900000 + (n mod 50) * 1000) :: u64) < word_of_nat 1000000"
    and "(word_of_nat 1000000 :: u64) \<le> word_of_nat (1100000 + (n mod 50) * 1000)"
    by (intro word_less word_le; simp)+
  then have orders: "storm_order (n * 2 + 1) \<lparr>oi_side = Buy, oi_price = word_of_nat (900000 + (n mod 50) * 1000), oi_shares = 100\<rparr>"
    "storm_order (n * 2 + 2) \<lparr>oi_side = Sell, oi_price = word_of_nat (1100000 + (n mod 50) * 1000), oi_shares = 150\<rparr>"
    by (simp_all add: storm_order_def on_band_side_def)
  note buy = storm_add [OF ok(2) _ orders(1)]
  have small: "n * 2 + 1 < 2 ^ 32" "n * 2 + 2 < 2 ^ 32" using Suc.prems by simp_all
  have "storm_refs (n * 2 + 2) (live_step live ?buy)" using buy(2) small(1) by simp
  note sell = storm_add [OF this small(2) orders(2)]
  have "event_sized ?buy" "event_sized ?sell" by (simp_all add: add_order_event_def)
  then have "feed_ok live [?buy, ?sell]" using buy(1) sell(1) small(1) by simp
  moreover have "storm_refs (2 * Suc n + 1) (foldl live_step live [?buy, ?sell])"
    using sell(2) by (simp add: mult.commute)
  ultimately show ?case using ok(1) by (simp add: split feed_ok_append live_def)
qed

text \<open>A replacement of the storm leaves the book as it was or moves one order to a new reference.\<close>

lemma storm_replace_step:
  assumes "storm_refs (10000 + i) live" "i < 100000"
  shows "event_fresh live (storm_replace i) \<and> event_sized (storm_replace i)
    \<and> storm_refs (10000 + Suc i) (live_step live (storm_replace i))"
proof -
  define r where "r = i mod 200 + 1"
  define sd where "sd = (if r mod 2 = 1 then Buy else Sell)"
  define p where "p = (if sd = Buy then 800000 + (i mod 100) * 500 else 1200000 + (i mod 100) * 500)"
  define q :: u32 where "q = word_of_nat (100 + i mod 500)"
  have ev: "storm_replace i = OrderReplace 3 (word_of_nat r) (word_of_nat (10000 + i)) q (word_of_nat p)"
    by (simp add: storm_replace_def Let_def replace_order_event_def r_def sd_def p_def q_def)
  have bounds: "i mod 200 < 200" "i mod 100 < 100" "i mod 500 < 500" by simp_all
  have fresh: "live (word_of_nat (10000 + i)) = None"
    by (rule refs_fresh [OF assms(1)]) (use assms(2) in simp_all)
  have "q \<noteq> 0" unfolding q_def by (rule test_shares_nonzero) (use bounds in simp_all)
  moreover have "storm_refs (10000 + Suc i) (live_step live (storm_replace i))"
  proof (cases "live (word_of_nat r)")
    case None
    then show ?thesis using refs_ok_mono [OF assms(1)] by (auto simp: ev live_replace_def)
  next
    case (Some info)
    have r: "r \<le> 200" using bounds by (simp add: r_def)
    then have "unat (word_of_nat r :: u64) = r" by (intro unat_u64_of_nat) simp
    note r = r this
    then have side: "oi_side info = sd"
      using assms(1) Some by (auto simp: refs_ok_def storm_order_def sd_def odd_iff_mod_2_eq_one)
    have "on_band_side 1000000 sd (word_of_nat p)"
    proof (cases "sd = Buy")
      case True
      then have "(word_of_nat p :: u64) < word_of_nat 1000000" using bounds by (intro word_less) (simp_all add: p_def)
      with True show ?thesis by (simp add: on_band_side_def)
    next
      case False
      then have "(word_of_nat 1000000 :: u64) \<le> word_of_nat p" using bounds by (intro word_le) (simp_all add: p_def)
      with False show ?thesis by (cases sd) (simp_all add: on_band_side_def)
    qed
    then have order: "storm_order (10000 + i) \<lparr>oi_side = sd, oi_price = word_of_nat p, oi_shares = q\<rparr>"
      by (simp add: storm_order_def)
    have "refs_ok (insert (10000 + i) {..<10000 + i}) storm_order (live_step live (storm_replace i))"
      using refs_ok_store [OF refs_ok_remove [OF assms(1)] _ order, of "word_of_nat r"] assms(2) Some side
      by (simp add: ev live_replace_def)
    moreover have "insert (10000 + i) {..<10000 + i} = {..<10000 + Suc i}" by auto
    ultimately show ?thesis by (simp only:)
  qed
  ultimately show ?thesis using fresh by (simp add: ev)
qed

lemma storm_consistent:
  assumes "book_ok b" "book_positive b" "storm_refs n (sb_orders b)"
  shows "is_consistent b"
proof -
  have "prices_apart (snapshot_bbo b)"
    using banded_apart [OF storm_refs_banded [OF assms(3)]] best_snapshot_quotes [OF assms(1,2), of Buy]
      best_snapshot_quotes [OF assms(1,2), of Sell] by (simp add: snapshot_bbo_sides)
  then show ?thesis by (rule prices_apart_consistent)
qed

lemma assert_each_storm:
  "book_ok b \<Longrightarrow> book_positive b \<Longrightarrow> storm_refs (10000 + i) (sb_orders b) \<Longrightarrow> i + k \<le> 100000 \<Longrightarrow>
     assert_each is_consistent (map storm_replace [i..<i + k]) b"
proof (induction k arbitrary: i b)
  case (Suc k)
  let ?b = "fst (book_apply b (storm_replace i))"
  have step: "event_fresh (sb_orders b) (storm_replace i)" "event_sized (storm_replace i)"
    "storm_refs (10000 + Suc i) (sb_orders ?b)"
    using storm_replace_step [OF Suc.prems(3)] Suc.prems(4) by (simp_all add: orders_book_apply)
  have ok: "book_ok ?b" "book_positive ?b"
    using Suc.prems(1,2) step by (simp_all add: book_apply_ok book_apply_positive)
  have "assert_each is_consistent (map storm_replace [Suc i..<Suc i + k]) ?b"
    using Suc.IH [OF ok step(3)] Suc.prems(4) by simp
  moreover have "[i..<i + Suc k] = i # [Suc i..<Suc i + k]" by (simp add: upt_conv_Cons)
  ultimately show ?case using storm_consistent [OF ok step(3)] by (simp add: Let_def)
qed simp

lemma apply_all_book_run: "apply_all evs b = fst (book_run b evs)"
  by (induction evs arbitrary: b) (simp_all add: apply_all_def Let_def split_def)

lemma replace_storm_test: "test_replace_storm_no_cross"
proof -
  let ?b = "apply_all (storm_setup 100) (single_book_new TEST_STOCK)"
  obtain upds where run: "book_run (single_book_new TEST_STOCK) (storm_setup 100) = (?b, upds)"
    unfolding apply_all_book_run by (metis prod.collapse)
  have init: "feed_ok Map.empty (storm_setup 100)"
    "storm_refs 201 (foldl live_step Map.empty (storm_setup 100))"
    using storm_setup_ok [of 100] by simp_all
  note ok = book_run_new_ok [OF init(1) run]
  have refs: "storm_refs (10000 + 0) (sb_orders ?b)"
    using refs_ok_mono [OF init(2), of "{..<10000}"] by (simp add: ok(3))
  from assert_each_storm [OF ok(1,2) this, of 100000] storm_consistent [OF ok(1,2) refs]
  show ?thesis by (simp add: test_replace_storm_no_cross_def Let_def)
qed

section \<open>A writer and a reader\<close>

text \<open>
  The two threads of the test share the books behind a mutex: an iteration of the writer and
  one of the reader are atomic.  A schedule says whose turn it is; a thread that has done its
  20,000 iterations has stopped.
\<close>

definition test_add :: "nat \<Rightarrow> nat \<Rightarrow> side \<Rightarrow> u64 \<Rightarrow> nat \<Rightarrow> itch_event" where
  "test_add i order_ref sd stock price =
     AddOrder (word_of_nat i) (word_of_nat order_ref) sd 100 stock (word_of_nat price)"

definition concurrent_setup_round :: "nat \<Rightarrow> itch_event list" where
  "concurrent_setup_round i =
     [test_add i (i * 4 + 1) Buy TEST_STOCK (1000000 + i * 100),
      test_add i (i * 4 + 2) Sell TEST_STOCK (2000000 + i * 100),
      test_add i (i * 4 + 3) Buy STOCK_B (3000000 + i * 100),
      test_add i (i * 4 + 4) Sell STOCK_B (4000000 + i * 100)]"

definition concurrent_setup :: "nat \<Rightarrow> itch_event list" where
  "concurrent_setup n = concat (map concurrent_setup_round [0..<n])"

definition test_replace :: "nat \<Rightarrow> nat \<Rightarrow> nat \<Rightarrow> nat \<Rightarrow> itch_event" where
  "test_replace i order_ref new_ref price =
     OrderReplace (word_of_nat i) (word_of_nat order_ref) (word_of_nat new_ref)
       (word_of_nat (100 + i mod 500)) (word_of_nat price)"

definition writer_round :: "nat \<Rightarrow> itch_event list" where
  "writer_round i =
     [test_replace i ((i mod 200) * 4 + 1) (100000 + i) (1000000 + (i mod 200) * 100),
      test_replace i ((i mod 200) * 4 + 3) (500000 + i) (3000000 + (i mod 200) * 100)]"

definition reader_check :: "order_book \<Rightarrow> u64 \<Rightarrow> bool" where
  "reader_check ob stock =
     (case ob_get ob stock of
        None \<Rightarrow> True
      | Some book \<Rightarrow>
          (let bid = (case best_bid book of None \<Rightarrow> 0 | Some l \<Rightarrow> pl_price l);
               ask = (case best_ask book of None \<Rightarrow> 0 | Some l \<Rightarrow> pl_price l)
           in bid \<noteq> 0 \<and> ask \<noteq> 0 \<longrightarrow> bid < ask))"

datatype turn = Writer_Turn | Reader_Turn

fun run_schedule :: "turn list \<Rightarrow> nat \<Rightarrow> order_book \<Rightarrow> bool" where
  "run_schedule [] i ob = all_consistent [TEST_STOCK, STOCK_B] ob"
| "run_schedule (Writer_Turn # ts) i ob =
     (if i < 20000 then
        (let ob = apply_all_books (writer_round i) ob
         in all_consistent [TEST_STOCK, STOCK_B] ob \<and> run_schedule ts (Suc i) ob)
      else run_schedule ts i ob)"
| "run_schedule (Reader_Turn # ts) i ob =
     (reader_check ob TEST_STOCK \<and> reader_check ob STOCK_B \<and> run_schedule ts i ob)"

definition test_concurrent_bbo_read_consistency :: "turn list \<Rightarrow> bool" where
  "test_concurrent_bbo_read_consistency schedule =
     run_schedule schedule 0 (apply_all_books (concurrent_setup 50) order_book_new)"

text \<open>Each stock keeps to its price, and the references of the set-up keep their side and stock.\<close>

definition split_price :: "u64 \<Rightarrow> u64" where
  "split_price s = (if s = TEST_STOCK then 2000000 else 4000000)"

definition concurrent_order :: "nat \<Rightarrow> u64 \<times> order_info \<Rightarrow> bool" where
  "concurrent_order r x \<longleftrightarrow> on_band_side (split_price (fst x)) (oi_side (snd x)) (oi_price (snd x))
     \<and> (r < 1000 \<longrightarrow> oi_side (snd x) = (if odd r then Buy else Sell)
          \<and> fst x = (if r mod 4 \<in> {1, 2} then TEST_STOCK else STOCK_B))"

abbreviation "concurrent_refs U \<equiv> refs_ok U concurrent_order"

lemma concurrent_banded: "concurrent_refs U m \<Longrightarrow> market_banded split_price m"
  by (auto simp: refs_ok_def concurrent_order_def market_banded_def)

lemma mod_4: "(n * 4 + 1) mod 4 = 1" "(n * 4 + 2) mod 4 = 2" "(n * 4 + 3) mod 4 = 3" "(n * 4 + 4) mod 4 = 0"
  for n :: nat by presburger+

text \<open>Additions and replacements do not look at the order of the hash map.\<close>

fun adds_or_replaces :: "itch_event \<Rightarrow> bool" where
  "adds_or_replaces (AddOrder t r sd n s p) \<longleftrightarrow> True"
| "adds_or_replaces (OrderReplace t r r' n p) \<longleftrightarrow> True"
| "adds_or_replaces ev \<longleftrightarrow> False"

lemma market_run_unordered:
  assumes "market_run ob m" "event_fresh m ev" "event_sized ev" "adds_or_replaces ev"
  shows "market_run (fst (ob_apply [] ob ev)) (market_step m ev)"
proof -
  have "finite (dom (books ob))" using market_run_ok [OF assms(1)] by (simp add: routing_ok_def)
  then obtain ks where "enumerates ks (books ob)" using enumerates_exists by blast
  moreover have "ob_apply ks ob ev = ob_apply [] ob ev" using assms(4) by (cases ev) simp_all
  ultimately show ?thesis using market_run.event [OF assms(1-3)] by metis
qed

lemma market_run_apply_all:
  assumes "market_run ob m" "market_feed_ok m evs" "list_all adds_or_replaces evs"
  shows "market_run (apply_all_books evs ob) (foldl market_step m evs)"
  using assms
proof (induction evs arbitrary: ob m)
  case (Cons ev evs)
  from Cons.IH [OF market_run_unordered [of ob m ev]] Cons.prems
  show ?case by (simp add: apply_all_books_def)
qed (simp add: apply_all_books_def)

lemma concurrent_add:
  assumes "concurrent_refs {..<n} m" "n < 2 ^ 32" "concurrent_order n (s, \<lparr>oi_side = sd, oi_price = word_of_nat p, oi_shares = 100\<rparr>)"
  shows "event_fresh m (test_add i n sd s p) \<and> concurrent_refs {..<Suc n} (market_step m (test_add i n sd s p))"
proof
  have "m (word_of_nat n) = None" by (rule refs_fresh [OF assms(1)]) (use assms(2) in simp_all)
  moreover have "card (dom m) \<le> n" using refs_card [OF assms(1)] by simp
  ultimately show "event_fresh m (test_add i n sd s p)" using assms(2) by (simp add: test_add_def)
  have "insert n {..<n} = {..<Suc n}" by auto
  with refs_ok_store [OF assms(1) _ assms(3)] assms(2)
  show "concurrent_refs {..<Suc n} (market_step m (test_add i n sd s p))" by (simp add: test_add_def)
qed

lemma concurrent_setup_ok:
  "n \<le> 50 \<Longrightarrow> market_feed_ok Map.empty (concurrent_setup n)
     \<and> concurrent_refs {..<4 * n + 1} (foldl market_step Map.empty (concurrent_setup n))"
proof (induction n)
  case 0
  show ?case by (simp add: concurrent_setup_def)
next
  case (Suc n)
  define m where "m = foldl market_step Map.empty (concurrent_setup n)"
  have split: "concurrent_setup (Suc n) = concurrent_setup n @ concurrent_setup_round n"
    by (simp add: concurrent_setup_def)
  have ok: "market_feed_ok Map.empty (concurrent_setup n)" "concurrent_refs {..<n * 4 + 1} m"
    using Suc by (simp_all add: m_def mult.commute)
  have prices: "(word_of_nat (1000000 + n * 100) :: u64) < word_of_nat 2000000"
    "(word_of_nat 2000000 :: u64) \<le> word_of_nat (2000000 + n * 100)"
    "(word_of_nat (3000000 + n * 100) :: u64) < word_of_nat 4000000"
    "(word_of_nat 4000000 :: u64) \<le> word_of_nat (4000000 + n * 100)"
    using Suc.prems by (intro word_less word_le; simp)+
  have orders: "concurrent_order (n * 4 + 1) (TEST_STOCK, \<lparr>oi_side = Buy, oi_price = word_of_nat (1000000 + n * 100), oi_shares = 100\<rparr>)"
    "concurrent_order (n * 4 + 2) (TEST_STOCK, \<lparr>oi_side = Sell, oi_price = word_of_nat (2000000 + n * 100), oi_shares = 100\<rparr>)"
    "concurrent_order (n * 4 + 3) (STOCK_B, \<lparr>oi_side = Buy, oi_price = word_of_nat (3000000 + n * 100), oi_shares = 100\<rparr>)"
    "concurrent_order (n * 4 + 4) (STOCK_B, \<lparr>oi_side = Sell, oi_price = word_of_nat (4000000 + n * 100), oi_shares = 100\<rparr>)"
    unfolding concurrent_order_def fst_conv snd_conv mod_4
    using prices by (simp_all add: on_band_side_def split_price_def TEST_STOCK_def STOCK_B_def)
  have small: "n * 4 + 4 < 2 ^ 32" using Suc.prems by simp
  have "n * 4 + 1 < 2 ^ 32" using small by simp
  note one = concurrent_add [OF ok(2) this orders(1), of n]
  have "Suc (n * 4 + 1) = n * 4 + 2" "n * 4 + 2 < 2 ^ 32" using small by simp_all
  note two = concurrent_add [OF one [THEN conjunct2, unfolded this(1)] this(2) orders(2), of n]
  have "Suc (n * 4 + 2) = n * 4 + 3" "n * 4 + 3 < 2 ^ 32" using small by simp_all
  note three = concurrent_add [OF two [THEN conjunct2, unfolded this(1)] this(2) orders(3), of n]
  have "Suc (n * 4 + 3) = n * 4 + 4" by simp
  note four = concurrent_add [OF three [THEN conjunct2, unfolded this(1)] small orders(4), of n]
  have "event_sized (test_add i r sd s p)" for i r sd s p by (simp add: test_add_def)
  with one two three four have "market_feed_ok m (concurrent_setup_round n)"
    by (simp only: concurrent_setup_round_def market_feed_ok.simps simp_thms)
  moreover have "Suc (n * 4 + 4) = 4 * Suc n + 1" by simp
  then have "concurrent_refs {..<4 * Suc n + 1} (foldl market_step m (concurrent_setup_round n))"
    using four by (simp only: concurrent_setup_round_def foldl.simps)
  ultimately show ?case using ok(1) by (simp add: split market_feed_ok_append m_def)
qed

lemma concurrent_replace:
  assumes "concurrent_refs U m" "odd r" "r < 1000" "k \<notin> U" "1000 \<le> k" "k < 2 ^ 64"
    and "on_band_side (split_price (if r mod 4 \<in> {1, 2} then TEST_STOCK else STOCK_B)) Buy (word_of_nat p)"
  shows "event_fresh m (test_replace i r k p) \<and> event_sized (test_replace i r k p)
    \<and> concurrent_refs (insert k U) (market_step m (test_replace i r k p))"
proof -
  have "(word_of_nat (100 + i mod 500) :: u32) \<noteq> 0" by (rule test_shares_nonzero) (simp_all add: less_Suc_eq_le)
  moreover have "m (word_of_nat k) = None" by (rule refs_fresh [OF assms(1,6,4)])
  moreover have "concurrent_refs (insert k U) (market_step m (test_replace i r k p))"
  proof (cases "m (word_of_nat r)")
    case None
    then show ?thesis using refs_ok_mono [OF assms(1)] by (auto simp: test_replace_def market_replace_def)
  next
    case (Some x)
    obtain s info where x: "x = (s, info)" by fastforce
    have "unat (word_of_nat r :: u64) = r" using assms(3) by (intro unat_u64_of_nat) simp
    then have "concurrent_order r (s, info)" using refs_okD [OF assms(1) Some] x by (simp only:)
    then have info: "oi_side info = Buy" "s = (if r mod 4 \<in> {1, 2} then TEST_STOCK else STOCK_B)"
      using assms(2,3) unfolding concurrent_order_def by simp_all
    have "concurrent_order k (s, \<lparr>oi_side = Buy, oi_price = word_of_nat p, oi_shares = word_of_nat (100 + i mod 500)\<rparr>)"
      using assms(5,7) info(2) by (simp add: concurrent_order_def)
    from refs_ok_store [OF refs_ok_remove [OF assms(1)] assms(6) this] show ?thesis
      using Some x info(1) by (simp add: test_replace_def market_replace_def)
  qed
  ultimately show ?thesis by (simp add: test_replace_def)
qed

definition used_refs :: "nat \<Rightarrow> nat set" where
  "used_refs i = {..<201} \<union> {100000..<100000 + i} \<union> {500000..<500000 + i}"

lemma writer_round_ok:
  assumes "concurrent_refs (used_refs i) m" "i < 20000"
  shows "market_feed_ok m (writer_round i)
    \<and> concurrent_refs (used_refs (Suc i)) (foldl market_step m (writer_round i))"
proof -
  define a where "a = test_replace i ((i mod 200) * 4 + 1) (100000 + i) (1000000 + (i mod 200) * 100)"
  define b where "b = test_replace i ((i mod 200) * 4 + 3) (500000 + i) (3000000 + (i mod 200) * 100)"
  have bound: "i mod 200 < 200" by simp
  have prices: "(word_of_nat (1000000 + (i mod 200) * 100) :: u64) < word_of_nat 2000000"
    "(word_of_nat (3000000 + (i mod 200) * 100) :: u64) < word_of_nat 4000000"
    using bound by (intro word_less; simp)+
  have one: "event_fresh m a \<and> event_sized a
      \<and> concurrent_refs (insert (100000 + i) (used_refs i)) (market_step m a)"
    unfolding a_def
  proof (rule concurrent_replace [OF assms(1)])
    show "on_band_side (split_price (if (i mod 200 * 4 + 1) mod 4 \<in> {1, 2} then TEST_STOCK else STOCK_B)) Buy
        (word_of_nat (1000000 + i mod 200 * 100))"
      unfolding mod_4 using prices by (simp add: on_band_side_def split_price_def)
  qed (use assms(2) bound in \<open>simp_all add: used_refs_def\<close>)
  have two: "event_fresh (market_step m a) b \<and> event_sized b
      \<and> concurrent_refs (insert (500000 + i) (insert (100000 + i) (used_refs i))) (market_step (market_step m a) b)"
    unfolding b_def
  proof (rule concurrent_replace [OF one [THEN conjunct2, THEN conjunct2]])
    show "on_band_side (split_price (if (i mod 200 * 4 + 3) mod 4 \<in> {1, 2} then TEST_STOCK else STOCK_B)) Buy
        (word_of_nat (3000000 + i mod 200 * 100))"
      unfolding mod_4 using prices by (simp add: on_band_side_def split_price_def TEST_STOCK_def STOCK_B_def)
  qed (use assms(2) bound in \<open>simp_all add: used_refs_def\<close>)
  have "insert (500000 + i) (insert (100000 + i) (used_refs i)) \<subseteq> used_refs (Suc i)"
    by (auto simp: used_refs_def)
  with one two refs_ok_mono show ?thesis
    unfolding writer_round_def a_def [symmetric] b_def [symmetric]
    by (simp only: market_feed_ok.simps foldl.simps simp_thms) blast
qed

lemma reader_check_apart:
  assumes "market_run ob m" "market_banded c m"
  shows "reader_check ob s"
proof (cases "books ob s")
  case None
  then show ?thesis by (simp add: reader_check_def ob_get_def)
next
  case (Some b)
  have "fst (best_snapshot side) = (case best side of None \<Rightarrow> 0 | Some l \<Rightarrow> pl_price l)" for side
    by (simp add: best_snapshot_best split: option.split)
  moreover have "prices_apart (snapshot_bbo b)" by (rule market_run_apart [OF assms Some])
  ultimately show ?thesis
    using Some snapshot_bbo_sides [of b]
    by (auto simp: reader_check_def ob_get_def prices_apart_def best_bid_def best_ask_def Let_def prod_eq_iff)
qed

lemma run_schedule_ok:
  "market_run ob m \<Longrightarrow> concurrent_refs (used_refs i) m \<Longrightarrow> run_schedule ts i ob"
proof (induction ts i ob arbitrary: m rule: run_schedule.induct)
  case (1 i ob)
  then show ?case using market_run_consistent [OF _ concurrent_banded] by simp
next
  case (2 ts i ob)
  show ?case
  proof (cases "i < 20000")
    case True
    note round = writer_round_ok [OF "2.prems"(2) True]
    have "list_all adds_or_replaces (writer_round i)" by (simp add: writer_round_def test_replace_def)
    from market_run_apply_all [OF "2.prems"(1) round [THEN conjunct1] this]
    have run: "market_run (apply_all_books (writer_round i) ob) (foldl market_step m (writer_round i))" .
    have refs: "concurrent_refs (used_refs (Suc i)) (foldl market_step m (writer_round i))" using round by simp
    show ?thesis
      using True "2.IH"(1) [OF True refl run refs] market_run_consistent [OF run concurrent_banded [OF refs]]
      by (simp add: Let_def)
  next
    case False
    then show ?thesis using "2.IH"(2) [OF False "2.prems"] by simp
  qed
next
  case (3 ts i ob)
  then show ?case using reader_check_apart [OF _ concurrent_banded] by simp
qed

lemma concurrent_test: "test_concurrent_bbo_read_consistency schedule"
proof -
  have start: "market_feed_ok Map.empty (concurrent_setup 50)"
    "concurrent_refs {..<201} (foldl market_step Map.empty (concurrent_setup 50))"
    using concurrent_setup_ok [of 50] by simp_all
  have "list_all adds_or_replaces (concurrent_setup 50)"
    by (simp add: list_all_iff concurrent_setup_def concurrent_setup_round_def test_add_def)
  from market_run_apply_all [OF market_run.start start(1) this]
  have "market_run (apply_all_books (concurrent_setup 50) order_book_new)
      (foldl market_step Map.empty (concurrent_setup 50))" .
  moreover have "concurrent_refs (used_refs 0) (foldl market_step Map.empty (concurrent_setup 50))"
    using refs_ok_mono [OF start(2)] by (auto simp: used_refs_def)
  ultimately show ?thesis
    unfolding test_concurrent_bbo_read_consistency_def by (rule run_schedule_ok)
qed

section \<open>Properties\<close>

text \<open>
  C39: The two stress tests of the order books.  In the storm the book is uncrossed after the
  set-up and after each of the 100,000 replacements.  In the concurrent test, under every
  schedule of the iterations of its two threads, each of which holds the lock, and wherever
  the schedule ends, the writer finds both books consistent after each of its iterations and
  the reader finds the best bid of each stock below its best offer.
\<close>

theorem stress_tests_never_cross:
  "test_replace_storm_no_cross \<and> (\<forall>schedule. test_concurrent_bbo_read_consistency schedule)"
  by (intro conjI allI replace_storm_test concurrent_test)

end
