(* ===== verification/Option_Tests.thy ===== *)
theory Option_Tests
  imports Option_Manager_Correct Spot_Tests
begin

text \<open>
  The unit tests of src/options/mod.rs on the model, in exact arithmetic.  The hash map orders
  are arguments, as is the clock, on which three of the tests depend.
\<close>

section \<open>Contracts\<close>

definition test_option_contract_ttm :: "u64 \<Rightarrow> u64 \<Rightarrow> bool" where
  "test_option_contract_ttm now now_secs =
     (let contract = option_contract_new now TEST_STOCK 20270101 1500000 Call 100;
          ttm = time_to_maturity exact_ops contract now_secs
      in x_less (Fin 0.4) ttm \<and> x_less ttm (Fin 0.8))"

text \<open>
  The date of the test is fixed and the clock is not: the test passes between 14 March and
  7 August 2026 only.
\<close>

lemma expiry_of_test: "date_to_unix_secs 20270101 = 1798761600"
  by (simp add: date_to_unix_secs_def date_year_def date_month_def date_day_def julian_day_def Let_def)

lemma ttm_test_window:
  "test_option_contract_ttm now now_secs \<longleftrightarrow> 1773515520 < now_secs \<and> now_secs < 1786138560"
proof -
  let ?c = "option_contract_new now TEST_STOCK 20270101 1500000 Call 100"
  have expiry: "date_to_unix_secs (oc_expiry_date ?c) = 1798761600"
    by (simp add: option_contract_new_def expiry_of_test)
  show ?thesis
  proof (cases "1798761600 \<le> now_secs")
    case True
    then have "time_to_maturity exact_ops ?c now_secs = Fin 0"
      by (simp add: time_to_maturity_def expiry)
    moreover have "\<not> now_secs < 1786138560" using True by (simp add: word_less_nat_alt word_le_nat_alt)
    ultimately show ?thesis by (simp add: test_option_contract_ttm_def)
  next
    case False
    then have less: "unat now_secs < 1798761600" by (simp add: word_le_nat_alt)
    have "unat (1798761600 - now_secs) = 1798761600 - unat now_secs"
      using False by (subst unat_sub) simp_all
    then have "time_to_maturity exact_ops ?c now_secs = Fin ((1798761600 - real (unat now_secs)) / 31557600)"
      using False less by (simp add: time_to_maturity_def expiry of_rat_divide of_nat_diff)
    then have "test_option_contract_ttm now now_secs \<longleftrightarrow>
        1773515520 < real (unat now_secs) \<and> real (unat now_secs) < 1786138560"
      by (auto simp: test_option_contract_ttm_def field_simps)
    also have "\<dots> \<longleftrightarrow> 1773515520 < unat now_secs \<and> unat now_secs < 1786138560" by linarith
    finally show ?thesis by (simp add: word_less_nat_alt)
  qed
qed

section \<open>A book\<close>

definition test_option_book :: "u64 \<Rightarrow> xreal option_book" where
  "test_option_book now =
     (let book = option_book_new (option_contract_new now TEST_STOCK 20261217 1500000 Call 100);
          book = option_add_order book 1 Buy 50000 10;
          book = option_add_order book 2 Buy 45000 20;
          book = option_add_order book 3 Sell 55000 15
      in option_add_order book 4 Sell 60000 25)"

definition test_option_book_add_and_bbo :: "u64 \<Rightarrow> hash_order \<Rightarrow> bool" where
  "test_option_book_add_and_bbo now ks =
     (let book = test_option_book now
      in option_bbo_snapshot ks book = (50000, 10, 55000, 15)
         \<and> unwrapped (option_mid_price exact_ops ks book) (\<lambda>mid. mid = Fin 5.25))"

lemma enumerates_two:
  assumes "enumerates ks [a \<mapsto> x, b \<mapsto> y]" "a \<noteq> b"
  shows "ks = [a, b] \<or> ks = [b, a]"
proof -
  have ks: "distinct ks" "set ks = {a, b}" using assms by (auto simp: enumerates_def)
  then have "length ks = 2" using distinct_card [OF ks(1)] assms(2) by simp
  then obtain c d where "ks = [c, d]" by (auto simp: length_Suc_conv eval_nat_numeral)
  with ks show ?thesis by auto
qed

lemma test_option_book_levels:
  "opt_bids (test_option_book now) = [50000 \<mapsto> price_level_new 50000 10 1, 45000 \<mapsto> price_level_new 45000 20 1]"
  "opt_asks (test_option_book now) = [55000 \<mapsto> price_level_new 55000 15 1, 60000 \<mapsto> price_level_new 60000 25 1]"
  by (simp_all add: test_option_book_def option_book_new_def option_add_order_def on_levels_def
      join_level_def Let_def)

lemma option_book_test:
  assumes "enumerates (ks Buy) (opt_bids (test_option_book now))"
    and "enumerates (ks Sell) (opt_asks (test_option_book now))"
  shows "test_option_book_add_and_bbo now ks"
proof -
  have "ks Buy = [50000, 45000] \<or> ks Buy = [45000, 50000]" "ks Sell = [55000, 60000] \<or> ks Sell = [60000, 55000]"
    using assms unfolding test_option_book_levels by (auto dest: enumerates_two)
  then have "option_best_bid ks (test_option_book now) = Some (price_level_new 50000 10 1)"
    "option_best_ask ks (test_option_book now) = Some (price_level_new 55000 15 1)"
    by (auto simp: option_best_bid_def option_best_ask_def test_option_book_levels max_by_key_def
        min_by_key_def price_level_new_def)
  then show ?thesis
    by (simp add: test_option_book_add_and_bbo_def option_bbo_snapshot_def option_mid_price_def
        unwrapped_def price_level_new_def of_rat_divide)
qed

section \<open>The manager\<close>

definition test_contract1 :: "u64 \<Rightarrow> option_contract" where
  "test_contract1 now = option_contract_new now TEST_STOCK 20261217 1500000 Call 100"

definition test_option_manager :: "u64 \<Rightarrow> xreal option_chain_manager" where
  "test_option_manager now =
     (let manager = option_chain_manager_new (Fin 0.03);
          manager = mgr_register_contract manager (test_contract1 now);
          manager = mgr_register_contract manager (option_contract_new now TEST_STOCK 20261217 1500000 Put 100)
      in mgr_register_contract manager (option_contract_new now TEST_STOCK 20270317 1500000 Call 100))"

text \<open>The clock is read when the contracts are created and at each of the two events.\<close>

definition test_option_chain_manager ::
  "u64 \<Rightarrow> u64 \<Rightarrow> u64 \<Rightarrow> hash_order \<Rightarrow> hash_order \<Rightarrow> bool" where
  "test_option_chain_manager now now1 now2 ks1 ks2 =
     (let contract1 = test_contract1 now; manager = test_option_manager now in
      unwrapped (get_chain manager TEST_STOCK) (\<lambda>chain. chain_len chain = 3 \<and> length (expiry_dates chain) = 2)
      \<and> (let manager = mgr_update_spot_price manager TEST_STOCK (Fin 150) 1234567890;
             add_buy = option_event_add (oc_key contract1) 1 Buy 50000 10 1234567891;
             (manager, _) = apply_option_order_event exact_ops ks1 now1 manager add_buy;
             add_sell = option_event_add (oc_key contract1) 2 Sell 55000 15 1234567892;
             (manager, result) = apply_option_order_event exact_ops ks2 now2 manager add_sell
         in result \<noteq> None))"

lemma chain_manager_listing:
  "unwrapped (get_chain (test_option_manager now) TEST_STOCK) (\<lambda>chain. chain_len chain = 3 \<and> length (expiry_dates chain) = 2)"
  by (simp add: test_option_manager_def test_contract1_def option_chain_manager_new_def mgr_register_contract_def
      get_or_create_chain_def put_chain_def register_contract_def option_chain_new_def get_chain_def
      chain_len_def option_contract_new_def Let_def)

section \<open>Prices after the expiry\<close>

definition test_option_pricing_calculation :: "u64 \<Rightarrow> u64 \<Rightarrow> hash_order \<Rightarrow> bool" where
  "test_option_pricing_calculation now now_secs ks =
     (let book = option_book_new (option_contract_new now TEST_STOCK 20261217 1000000 Call 100);
          book = option_add_order book 1 Buy 70000 10;
          book = option_add_order book 2 Sell 72000 15;
          (book, greeks) = compute_pricing exact_ops ks book (Fin 100) now_secs (Fin 0.03)
      in unwrapped greeks (\<lambda>greeks.
           x_less (Fin 0) (gs_implied_volatility greeks)
           \<and> (x_less (Fin 0) (gs_delta greeks) \<and> x_less (gs_delta greeks) (Fin 1))
           \<and> x_less (Fin 0) (gs_gamma greeks)))"

text \<open>
  Two tests price a contract of 17 December 2026 by the clock: from that day on there is no
  time to maturity, so nothing is priced and both fail.
\<close>

lemma expired_unpriced:
  assumes "date_to_unix_secs (oc_expiry_date (opt_contract b)) \<le> now"
  shows "snd (compute_pricing exact_ops ks b spot now rate) = None"
  using assms
  by (simp add: compute_pricing_def time_to_maturity_def solve_iv_and_greeks_def solve_implied_volatility_def
      Let_def split: option.split)

lemma expiry_of_contract1: "date_to_unix_secs 20261217 = 1797465600"
  by (simp add: date_to_unix_secs_def date_year_def date_month_def date_day_def julian_day_def Let_def)

lemma opt_contract_add [simp]: "opt_contract (option_add_order b r sd p n) = opt_contract b"
  by (simp add: option_add_order_def on_levels_def Let_def split: side.split option.split)

lemma pricing_test_expires:
  assumes "1797465600 \<le> now_secs"
  shows "\<not> test_option_pricing_calculation now now_secs ks"
  using expired_unpriced [of _ now_secs ks "Fin 100" "Fin 0.03"] assms
  by (simp add: test_option_pricing_calculation_def Let_def split_def expiry_of_contract1 option_book_new_def
      option_contract_new_def)


lemma opt_contract_act: "opt_contract (option_book_act b a) = opt_contract b"
  by (cases a) (simp_all add: option_remove_order_def option_delete_order_def on_levels_def Let_def
      split: side.split option.split)

lemma opt_contract_priced: "opt_contract (fst (compute_pricing F ks b spot now rate)) = opt_contract b"
  by (simp add: compute_pricing_def Let_def split: option.split)

lemma event_on_contract:
  assumes "mgr_chains m (ck_underlying (oe_contract_key ev)) = Some ch" "ch_contracts ch (oe_contract_key ev) = Some b"
  shows "\<exists>ch' b'. mgr_chains (fst (apply_option_order_event F ks now m ev)) (ck_underlying (oe_contract_key ev)) = Some ch'
    \<and> ch_contracts ch' (oe_contract_key ev) = Some b' \<and> opt_contract b' = opt_contract b"
  using assms
  by (auto simp: apply_option_order_event_def get_or_create_chain_def put_chain_def opt_contract_act
      opt_contract_priced Let_def split_def split: option.split)

lemma event_on_expired:
  assumes "mgr_chains m (ck_underlying (oe_contract_key ev)) = Some ch" "ch_contracts ch (oe_contract_key ev) = Some b"
    and "date_to_unix_secs (oc_expiry_date (opt_contract b)) \<le> now"
  shows "snd (apply_option_order_event exact_ops ks now m ev) = None"
  using assms expired_unpriced [of "option_book_act b (oe_action ev)" now ks]
  by (auto simp: apply_option_order_event_def get_or_create_chain_def opt_contract_act Let_def split_def split: option.split)

lemma manager_test_expires:
  assumes "1797465600 \<le> now2"
  shows "\<not> test_option_chain_manager now now1 now2 ks1 ks2"
proof -
  let ?m = "mgr_update_spot_price (test_option_manager now) TEST_STOCK (Fin 150) 1234567890"
  let ?key = "oc_key (test_contract1 now)"
  let ?m1 = "fst (apply_option_order_event exact_ops ks1 now1 ?m (option_event_add ?key 1 Buy 50000 10 1234567891))"
  have key: "ck_underlying ?key = TEST_STOCK" by (simp add: test_contract1_def option_contract_new_def)
  obtain ch b where "mgr_chains ?m TEST_STOCK = Some ch" "ch_contracts ch ?key = Some b" "opt_contract b = test_contract1 now"
    by (simp add: test_option_manager_def test_contract1_def option_chain_manager_new_def mgr_register_contract_def
        mgr_update_spot_price_def update_spot_price_def get_or_create_chain_def put_chain_def register_contract_def
        option_chain_new_def option_book_new_def option_contract_new_def Let_def)
  with event_on_contract [of ?m "option_event_add ?key 1 Buy 50000 10 1234567891" ch b exact_ops ks1 now1] key
  obtain ch' b' where "mgr_chains ?m1 TEST_STOCK = Some ch'" "ch_contracts ch' ?key = Some b'" "opt_contract b' = test_contract1 now"
    by (auto simp: option_event_add_def)
  with event_on_expired [of ?m1 "option_event_add ?key 2 Sell 55000 15 1234567892" ch' b' now2 ks2] key assms
  have "snd (apply_option_order_event exact_ops ks2 now2 ?m1 (option_event_add ?key 2 Sell 55000 15 1234567892)) = None"
    by (simp add: option_event_add_def test_contract1_def option_contract_new_def expiry_of_contract1)
  then show ?thesis by (simp add: test_option_chain_manager_def Let_def split_def)
qed

end
