(* ===== verification/Pricing_Tests.thy ===== *)
theory Pricing_Tests
  imports Pricing_Correct
begin

text \<open>
  The unit tests of src/pricing/mod.rs that compare the formulas with known values, replayed
  in exact arithmetic.  The comparison \<open>assert_relative_eq\<close> of the approx crate is the argument
  \<open>close\<close>; of it is used that it accepts values at most its epsilon apart.  The two tests of
  the volatility search are not replayed.
\<close>

section \<open>The tests\<close>

type_synonym comparison = "xreal \<Rightarrow> xreal \<Rightarrow> rat \<Rightarrow> bool"

definition absolute_epsilon :: "comparison \<Rightarrow> bool" where
  "absolute_epsilon close \<longleftrightarrow> (\<forall>a b q. \<bar>a - b\<bar> \<le> of_rat q \<longrightarrow> close (Fin a) (Fin b) q)"

definition test_norm_cdf :: "comparison \<Rightarrow> bool" where
  "test_norm_cdf close \<longleftrightarrow>
     close (norm_cdf exact_ops (Fin 0)) (Fin 0.5) (1 / 10 ^ 6)
     \<and> close (norm_cdf exact_ops (Fin 1)) (Fin 0.841344746) (1 / 10 ^ 6)
     \<and> close (norm_cdf exact_ops (Fin (- 1))) (Fin 0.158655254) (1 / 10 ^ 6)
     \<and> close (norm_cdf exact_ops (Fin 2)) (Fin 0.977249868) (1 / 10 ^ 6)"

definition test_inputs :: "option_type \<Rightarrow> xreal bsm_inputs" where
  "test_inputs ot =
     \<lparr>bi_spot_price = Fin 100, bi_strike_price = Fin 100, bi_risk_free_rate = Fin 0.05,
      bi_time_to_maturity = Fin 1, bi_volatility = Fin 0.2, bi_option_type = ot\<rparr>"

definition test_bsm_atm_call :: "comparison \<Rightarrow> bool" where
  "test_bsm_atm_call close \<longleftrightarrow> close (bsm_price exact_ops (test_inputs Call)) (Fin 10.4506) (1 / 100)"

definition test_bsm_atm_put :: "comparison \<Rightarrow> bool" where
  "test_bsm_atm_put close \<longleftrightarrow> close (bsm_price exact_ops (test_inputs Put)) (Fin 5.5735) (1 / 100)"

definition test_put_call_parity :: "comparison \<Rightarrow> bool" where
  "test_put_call_parity close =
     (let inputs_call = \<lparr>bi_spot_price = Fin 100, bi_strike_price = Fin 105, bi_risk_free_rate = Fin 0.03,
            bi_time_to_maturity = Fin 0.5, bi_volatility = Fin 0.25, bi_option_type = Call\<rparr>;
          inputs_put = inputs_call\<lparr>bi_option_type := Put\<rparr>;
          call_price = bsm_price exact_ops inputs_call;
          put_price = bsm_price exact_ops inputs_put;
          k_exp = x_mul (Fin 105) (x_exp (x_mul (x_neg (Fin 0.03)) (Fin 0.5)))
      in close (x_sub call_price put_price) (x_sub (Fin 100) k_exp) (1 / 10 ^ 6))"

definition test_greeks_delta_call :: "comparison \<Rightarrow> bool" where
  "test_greeks_delta_call close =
     (let result = bsm_greeks exact_ops (test_inputs Call)
      in close (br_delta result) (Fin 0.6368) (1 / 100) \<and> x_less (Fin 0) (br_gamma result)
         \<and> x_less (Fin 0) (br_vega result) \<and> x_less (br_theta result) (Fin 0))"

definition test_greeks_delta_put :: "comparison \<Rightarrow> bool" where
  "test_greeks_delta_put close =
     (let result = bsm_greeks exact_ops (test_inputs Put)
      in close (br_delta result) (Fin (- 0.3632)) (1 / 100))"

section \<open>Values of the exponential function\<close>

fun taylor :: "nat \<Rightarrow> nat \<Rightarrow> real \<Rightarrow> real" where
  "taylor 0 k x = 0"
| "taylor (Suc n) k x = 1 + x / real k * taylor n (Suc k) x"

lemma taylor_sum:
  assumes "0 < k"
  shows "taylor n k x = (\<Sum>m<n. x ^ m * fact (k - 1) / fact (k - 1 + m))"
  using assms
proof (induction n arbitrary: k)
  case (Suc n)
  have "taylor (Suc n) k x = 1 + x / real k * (\<Sum>m<n. x ^ m * fact k / fact (k + m))"
    using Suc.IH [of "Suc k"] by simp
  also have "x / real k * (\<Sum>m<n. x ^ m * fact k / fact (k + m)) =
      (\<Sum>m<n. x ^ Suc m * fact (k - 1) / fact (k - 1 + Suc m))"
    unfolding sum_distrib_left
  proof (rule sum.cong [OF refl])
    fix m
    have "(fact k :: real) = real k * fact (k - 1)" using Suc.prems by (simp add: fact_reduce)
    then show "x / real k * (x ^ m * fact k / fact (k + m)) = x ^ Suc m * fact (k - 1) / fact (k - 1 + Suc m)"
      using Suc.prems by simp
  qed
  finally show ?case by (simp add: sum.lessThan_Suc_shift del: sum.lessThan_Suc)
qed simp

lemma exp_near:
  assumes "\<bar>x\<bar> \<le> 2"
  shows "\<bar>exp x - taylor 18 1 x\<bar> \<le> 1 / 10 ^ 8"
proof -
  obtain t where t: "\<bar>t\<bar> \<le> \<bar>x\<bar>" "exp x = (\<Sum>m<18. x ^ m / fact m) + exp t / fact 18 * x ^ 18"
    using Maclaurin_exp_le [of x 18] by blast
  have "exp t \<le> exp (1 + 1)" using t(1) assms by simp
  also have "\<dots> \<le> 9"
    using mult_mono [OF exp_le exp_le] by (simp only: exp_add) simp
  finally have "exp t \<le> 9" .
  moreover have "\<bar>x\<bar> ^ 18 \<le> 2 ^ 18" using assms by (intro power_mono) simp_all
  ultimately have "exp t * \<bar>x\<bar> ^ 18 \<le> 9 * 2 ^ 18" by (intro mult_mono) simp_all
  then have "\<bar>exp t / fact 18 * x ^ 18\<bar> \<le> 9 * 2 ^ 18 / fact 18"
    by (simp add: abs_mult power_abs divide_right_mono)
  also have "\<dots> \<le> 1 / 10 ^ 8" by (simp add: fact_numeral)
  finally show ?thesis using t(2) taylor_sum [of 1 18 x] by simp
qed

text \<open>So the distribution can be computed at a given point.\<close>

definition tail_value :: "real \<Rightarrow> real" where
  "tail_value a = 0.3989423 * taylor 18 1 (- (a * a) / 2) * tail_poly (1 / (1 + 0.2316419 * a))"

lemma taylor_numeral:
  "taylor (numeral k) j x = 1 + x / real j * taylor (pred_numeral k) (Suc j) x"
  by (simp add: numeral_eq_Suc)

lemma upper_tail_near:
  assumes "0 \<le> a" "a \<le> 2"
  shows "\<bar>upper_tail a - tail_value a\<bar> \<le> 1 / 10 ^ 8"
proof -
  define p where "p = tail_poly (1 / (1 + 0.2316419 * a))"
  have p: "0 \<le> p" "p \<le> 1.2533137"
    using tail_poly_bounds [of "1 / (1 + 0.2316419 * a)"] assms(1) by (simp_all add: p_def)
  have "a * a \<le> 2 * 2" using assms by (intro mult_mono) simp_all
  then have near: "\<bar>exp (- (a * a) / 2) - taylor 18 1 (- (a * a) / 2)\<bar> \<le> 1 / 10 ^ 8"
    by (intro exp_near) simp
  have eq: "upper_tail a - tail_value a =
      0.3989423 * p * (exp (- (a * a) / 2) - taylor 18 1 (- (a * a) / 2))"
    by (simp add: upper_tail_def tail_value_def p_def algebra_simps)
  have "\<bar>upper_tail a - tail_value a\<bar> =
      0.3989423 * p * \<bar>exp (- (a * a) / 2) - taylor 18 1 (- (a * a) / 2)\<bar>"
    unfolding eq abs_mult using p(1) by simp
  also have "\<dots> \<le> 1 * (1 / 10 ^ 8)" using p near by (intro mult_mono) simp_all
  finally show ?thesis by simp
qed

lemma near_through: "\<bar>x - y\<bar> \<le> 1 / 10 ^ 8 \<Longrightarrow> \<bar>y - z\<bar> \<le> d \<Longrightarrow> \<bar>x - z\<bar> \<le> d + 1 / 10 ^ 8"
  for x y z d :: real
  by linarith

lemmas tail_eval = tail_value_def tail_poly_def taylor_numeral

lemma upper_tail_values:
  "\<bar>upper_tail 0 - 0.5\<bar> \<le> 2 / 10 ^ 7" "\<bar>upper_tail 1 - 0.158655254\<bar> \<le> 2 / 10 ^ 7"
  "\<bar>upper_tail 2 - 0.022750132\<bar> \<le> 2 / 10 ^ 7"
  "\<bar>upper_tail 0.35 - 0.3631693\<bar> \<le> 2 / 10 ^ 6" "\<bar>upper_tail 0.15 - 0.4403823\<bar> \<le> 2 / 10 ^ 6"
proof -
  have "\<bar>tail_value 0 - 0.5\<bar> \<le> 1.9 / 10 ^ 7" by (simp add: tail_eval)
  from near_through [OF upper_tail_near this] show "\<bar>upper_tail 0 - 0.5\<bar> \<le> 2 / 10 ^ 7" by simp
  have "\<bar>tail_value 1 - 0.158655254\<bar> \<le> 1.9 / 10 ^ 7" by (simp add: tail_eval)
  from near_through [OF upper_tail_near this] show "\<bar>upper_tail 1 - 0.158655254\<bar> \<le> 2 / 10 ^ 7" by simp
  have "\<bar>tail_value 2 - 0.022750132\<bar> \<le> 1.9 / 10 ^ 7" by (simp add: tail_eval)
  from near_through [OF upper_tail_near this] show "\<bar>upper_tail 2 - 0.022750132\<bar> \<le> 2 / 10 ^ 7" by simp
  have "\<bar>tail_value 0.35 - 0.3631693\<bar> \<le> 1.9 / 10 ^ 6" by (simp add: tail_eval)
  from near_through [OF upper_tail_near this] show "\<bar>upper_tail 0.35 - 0.3631693\<bar> \<le> 2 / 10 ^ 6" by simp
  have "\<bar>tail_value 0.15 - 0.4403823\<bar> \<le> 1.9 / 10 ^ 6" by (simp add: tail_eval)
  from near_through [OF upper_tail_near this] show "\<bar>upper_tail 0.15 - 0.4403823\<bar> \<le> 2 / 10 ^ 6" by simp
qed

section \<open>The tests pass\<close>

lemma closeI: "absolute_epsilon close \<Longrightarrow> \<bar>a - b\<bar> \<le> of_rat q \<Longrightarrow> close (Fin a) (Fin b) q"
  by (simp add: absolute_epsilon_def)

lemma norm_cdf_test:
  assumes "absolute_epsilon close"
  shows "test_norm_cdf close"
proof -
  have "cdf 0 = 1 - upper_tail 0" "cdf 1 = 1 - upper_tail 1" "cdf 2 = 1 - upper_tail 2"
    "cdf (- 1) = upper_tail 1" by (simp_all add: cdf_def)
  then have "\<bar>cdf 0 - 0.5\<bar> \<le> 1 / 10 ^ 6" "\<bar>cdf 1 - 0.841344746\<bar> \<le> 1 / 10 ^ 6"
    "\<bar>cdf (- 1) - 0.158655254\<bar> \<le> 1 / 10 ^ 6" "\<bar>cdf 2 - 0.977249868\<bar> \<le> 1 / 10 ^ 6"
    using upper_tail_values(1-3) unfolding abs_diff_le_iff by simp_all
  then show ?thesis
    unfolding test_norm_cdf_def norm_cdf_exact
    by (intro conjI closeI [OF assms]) (simp_all add: of_rat_divide)
qed

lemma test_inputs_quote: "test_inputs ot = quote_inputs 100 100 0.05 1 ot 0.2"
  by (simp add: test_inputs_def quote_inputs_def iv_inputs_def)

lemma test_d: "regular 100 100 1 0.2" "d_one 100 100 0.05 0.2 1 = 0.35" "d_two 100 100 0.05 0.2 1 = 0.15"
  by (simp_all add: regular_def d_one_def d_two_def)

lemma test_cdf: "\<bar>cdf 0.35 - 0.6368307\<bar> \<le> 2 / 10 ^ 6" "\<bar>cdf 0.15 - 0.5596177\<bar> \<le> 2 / 10 ^ 6"
proof -
  have "cdf 0.35 = 1 - upper_tail 0.35" "cdf 0.15 = 1 - upper_tail 0.15" by (simp_all add: cdf_def)
  then show "\<bar>cdf 0.35 - 0.6368307\<bar> \<le> 2 / 10 ^ 6" "\<bar>cdf 0.15 - 0.5596177\<bar> \<le> 2 / 10 ^ 6"
    using upper_tail_values(4,5) unfolding abs_diff_le_iff by simp_all
qed

lemma test_discount: "\<bar>exp (- 0.05) - 0.9512294 :: real\<bar> \<le> 1 / 10 ^ 7"
proof -
  have "\<bar>taylor 18 1 (- 0.05) - 0.9512294\<bar> \<le> 0.9 / 10 ^ 7" by (simp add: taylor_numeral)
  from near_through [OF exp_near this] show ?thesis by simp
qed

lemma product_near:
  fixes a b x y :: real
  assumes "\<bar>a - x\<bar> \<le> d" "\<bar>b - y\<bar> \<le> e" "0 \<le> b" "b \<le> 1" "0 \<le> x" "x \<le> 1"
  shows "\<bar>a * b - x * y\<bar> \<le> d + e"
proof -
  have "\<bar>(a - x) * b\<bar> \<le> d * 1" unfolding abs_mult using assms by (intro mult_mono) auto
  moreover have "\<bar>x * (b - y)\<bar> \<le> 1 * e" unfolding abs_mult using assms by (intro mult_mono) auto
  moreover have "a * b - x * y = (a - x) * b + x * (b - y)" by (simp add: algebra_simps)
  ultimately show ?thesis by linarith
qed

lemma price_tests:
  assumes "absolute_epsilon close"
  shows "test_bsm_atm_call close" "test_bsm_atm_put close"
proof -
  have call: "\<bar>exp (- 0.05) * cdf 0.15 - 0.9512294 * 0.5596177\<bar> \<le> 1 / 10 ^ 7 + 2 / 10 ^ 6"
    by (rule product_near [OF test_discount test_cdf(2) cdf_bounds]) simp_all
  have "\<bar>(1 - cdf 0.15) - (1 - 0.5596177)\<bar> \<le> 2 / 10 ^ 6" using test_cdf(2) by linarith
  then have put: "\<bar>exp (- 0.05) * (1 - cdf 0.15) - 0.9512294 * (1 - 0.5596177)\<bar> \<le> 1 / 10 ^ 7 + 2 / 10 ^ 6"
    by (rule product_near [OF test_discount]) (simp_all add: cdf_bounds)
  have prices: "bsm_price exact_ops (test_inputs Call) = Fin (100 * cdf 0.35 - 100 * (exp (- 0.05) * cdf 0.15))"
    "bsm_price exact_ops (test_inputs Put) =
       Fin (100 * (exp (- 0.05) * (1 - cdf 0.15)) - 100 * (1 - cdf 0.35))"
    unfolding test_inputs_quote bsm_price_exact [OF test_d(1)] test_d by simp_all
  have eps: "of_rat (1 / 100) = (1 / 100 :: real)" by (simp add: of_rat_divide)
  have "\<bar>100 * cdf 0.35 - 100 * (exp (- 0.05) * cdf 0.15) - 10.4506\<bar> \<le> 1 / 100"
    using call test_cdf unfolding abs_diff_le_iff by simp
  then show "test_bsm_atm_call close"
    unfolding test_bsm_atm_call_def prices by (intro closeI [OF assms]) (simp only: eps)
  have "\<bar>100 * (exp (- 0.05) * (1 - cdf 0.15)) - 100 * (1 - cdf 0.35) - 5.5735\<bar> \<le> 1 / 100"
    using put test_cdf unfolding abs_diff_le_iff by simp
  then show "test_bsm_atm_put close"
    unfolding test_bsm_atm_put_def prices by (intro closeI [OF assms]) (simp only: eps)
qed

lemma parity_test:
  assumes "absolute_epsilon close"
  shows "test_put_call_parity close"
proof -
  have "regular 100 105 0.5 0.25" by (simp add: regular_def)
  note price = bsm_price_exact [OF this, of "0.03"]
  have inputs: "\<lparr>bi_spot_price = Fin 100, bi_strike_price = Fin 105, bi_risk_free_rate = Fin 0.03,
      bi_time_to_maturity = Fin 0.5, bi_volatility = Fin 0.25, bi_option_type = ot\<rparr>
    = quote_inputs 100 105 0.03 0.5 ot 0.25" for ot
    by (simp add: quote_inputs_def iv_inputs_def)
  have put: "quote_inputs 100 105 0.03 0.5 ot 0.25\<lparr>bi_option_type := Put\<rparr> = quote_inputs 100 105 0.03 0.5 Put 0.25" for ot
    by (simp add: quote_inputs_def iv_inputs_def)
  show ?thesis
    unfolding test_put_call_parity_def Let_def inputs put price x_neg.simps x_mul.simps x_exp.simps x_sub_Fin
      option_type.case
    by (rule closeI [OF assms]) (simp add: algebra_simps)
qed

lemma greeks_tests:
  assumes "absolute_epsilon close"
  shows "test_greeks_delta_call close" "test_greeks_delta_put close"
proof -
  have eps: "of_rat (1 / 100) = (1 / 100 :: real)" by (simp add: of_rat_divide)
  have pdf: "0 < pdf 0.35" by (simp add: pdf_def)
  have "0 \<le> exp (- 0.05) * cdf 0.15" by (simp add: cdf_bounds)
  with pdf have theta: "- 100 * pdf 0.35 * 0.2 / (2 * sqrt 1) - 0.05 * (100 * exp (- 0.05 * 1)) * cdf 0.15 < 0"
    by simp
  note greeks = bsm_greeks_exact [OF test_d(1), of "0.05", folded test_inputs_quote, unfolded test_d Let_def]
  have "close (Fin (cdf 0.35)) (Fin 0.6368) (1 / 100)"
    by (rule closeI [OF assms], unfold eps abs_diff_le_iff) (use test_cdf [unfolded abs_diff_le_iff] in simp)
  then show "test_greeks_delta_call close"
    using pdf theta by (simp add: test_greeks_delta_call_def greeks)
  have "close (Fin (cdf 0.35 - 1)) (Fin (- 0.3632)) (1 / 100)"
    by (rule closeI [OF assms], unfold eps abs_diff_le_iff) (use test_cdf [unfolded abs_diff_le_iff] in simp)
  then show "test_greeks_delta_put close" by (simp add: test_greeks_delta_put_def greeks)
qed

end
