(* ===== verification/Wire_Tests.thy ===== *)
theory Wire_Tests
  imports Protocol_Correct Client_View Startup_Correct Spot_Tests
begin

text \<open>
  The unit tests of src/protocol/mod.rs and src/network, replayed on the model.  The network
  tests take an operating system on which the server can be started; the pauses that let its
  threads work are the turns of these threads.
\<close>

section \<open>The parser\<close>

definition test_side_from_byte :: bool where
  "test_side_from_byte \<longleftrightarrow>
     side_from_byte 0x42 = Inr Buy \<and> side_from_byte 0x53 = Inr Sell \<and> isl (side_from_byte 0x58)"

text \<open>A buffer of 36 bytes into which the test writes a header and the fields of an order.\<close>

definition test_add_order_data :: "u8 list" where
  "test_add_order_data =
     [0, 34, 0x41] @ be_digits 2 0x1234 @ be_digits 4 0x56789ABC @ be_digits 8 12345 @ [0x42]
       @ be_digits 4 1000 @ be_digits 8 0x4141504C20202020 @ be_digits 4 1500000 @ [0, 0]"

definition test_add_order_parse :: "byte_reader \<Rightarrow> bool" where
  "test_add_order_parse rd =
     unwrapped (parse_message rd test_add_order_data) (\<lambda>result.
       case result of
         Inr (AddOrder _ order_ref sd shares _ price) \<Rightarrow>
           order_ref = 12345 \<and> sd = Buy \<and> shares = 1000 \<and> price = 1500000
       | _ \<Rightarrow> False)"

lemma length_test_data: "length test_add_order_data = 36"
  by (simp add: test_add_order_data_def)

lemma protocol_tests:
  assumes "big_endian_reader rd"
  shows "test_side_from_byte" "test_add_order_parse rd"
proof -
  show "test_side_from_byte" by (simp add: test_side_from_byte_def side_from_byte_def)
  have "test_add_order_data ! 2 = 0x41" by (simp add: test_add_order_data_def)
  moreover have "decode_fields 0x41 (drop 3 test_add_order_data) =
      Inr (AddOrder (be_at 0 6 (drop 3 test_add_order_data)) 12345 Buy 1000 0x4141504C20202020 1500000)"
    by (simp add: decode_fields_def test_add_order_data_def side_from_byte_def be_at_def bytes_at_def
        be_value_append be_value_def be_digits_def le_digits_numeral)
  ultimately have "decode_message test_add_order_data =
      Inr (AddOrder (be_at 0 6 (drop 3 test_add_order_data)) 12345 Buy 1000 0x4141504C20202020 1500000)"
    by (simp add: decode_message_def guard_length_def length_test_data)
  then show "test_add_order_parse rd"
    using assms by (simp add: test_add_order_parse_def big_endian_reader.parse_message_eq unwrapped_def)
qed

section \<open>The server\<close>

definition test_addr :: socket_addr where
  "test_addr = ((127, 0, 0, 1), 0)"

definition test_server_creation :: "('e, 's, 'l) os_ops \<Rightarrow> bool" where
  "test_server_creation os =
     unwrapped (tcp_broadcast_server_new os (\<lambda>_. ()) (\<lambda>_. ()) test_addr []) (\<lambda>(result, _).
       case result of
         Inl _ \<Rightarrow> False
       | Inr (server :: (xreal, unit, unit) broadcast_server, local_addr) \<Rightarrow> snd local_addr > 0)"

definition read_exact :: "nat \<Rightarrow> u8 list \<Rightarrow> (u8 list \<times> u8 list) option" where
  "read_exact n stream = (if n \<le> length stream then Some (take n stream, drop n stream) else None)"

definition received :: "u8 list \<Rightarrow> bool" where
  "received stream =
     unwrapped (read_exact 3 stream) (\<lambda>(header, stream).
       let msg_len = unat (from_le_bytes [header ! 1, header ! 2] :: u16)
       in header ! 0 = MSG_TYPE_SPOT_BBO \<and> msg_len = BBO_SERIALIZED_SIZE
          \<and> unwrapped (read_exact msg_len stream) (\<lambda>(data, _). word_at 0 data = 123 \<and> word_at 8 data = 456))"

definition test_client_connection_and_broadcast ::
  "('e, 's, 'l) os_ops \<Rightarrow> client \<Rightarrow> ('f \<Rightarrow> u64) \<Rightarrow> bool" where
  "test_client_connection_and_broadcast os stream bits =
     (let Q = list_queue BROADCAST_QUEUE_CAP; P = list_queue OPTION_QUEUE_CAP in
      unwrapped (tcp_broadcast_server_new os (\<lambda>_. []) (\<lambda>_. []) test_addr []) (\<lambda>(result, _).
        case result of
          Inl _ \<Rightarrow> False
        | Inr (server, _) \<Rightarrow>
            (let server = accept_loop_turn (Accepted stream) server
             in client_count server = 1
                \<and> unwrapped (broadcast_turn Q P bits (\<lambda>_. Written) (enqueue_bbo Q test_update server))
                    (\<lambda>server. received (cl_stream (srv_clients server ! 0))))))"

definition test_multicast_receiver_creation :: "('e, 's) socket_ops \<Rightarrow> bool" where
  "test_multicast_receiver_creation S \<longleftrightarrow>
     \<not> isl (multicast_receiver_new S (233, 1, 1, 1) 12345 (0, 0, 0, 0) (8 * 1024 * 1024))"

text \<open>An operating system that has a port, two threads and a socket with its options to give.\<close>

definition sockets_serve :: "('e, 's) socket_ops \<Rightarrow> bool" where
  "sockets_serve S \<longleftrightarrow>
     \<not> isl (so_new S) \<and> (\<forall>s. \<not> isl (so_set_reuse_address S True s) \<and> \<not> isl (so_set_reuse_port S True s)
       \<and> \<not> isl (so_bind S ((0, 0, 0, 0), 12345) s) \<and> \<not> isl (so_join_multicast S (233, 1, 1, 1) (0, 0, 0, 0) s)
       \<and> \<not> isl (so_set_recv_buffer_size S (8 * 1024 * 1024) s) \<and> \<not> isl (so_set_nonblocking S False s))"

definition os_serves :: "('e, 's, 'l) os_ops \<Rightarrow> bool" where
  "os_serves os \<longleftrightarrow>
     (\<exists>l l' addr. os_listen os test_addr = Inr l \<and> os_set_nonblocking os True l = Inr l'
        \<and> os_local_addr os l' = Inr addr \<and> 0 < snd addr)
     \<and> os_spawn os Tcp_Acceptor = None \<and> os_spawn os Tcp_Broadcaster = None
     \<and> sockets_serve (os_sockets os)"

lemma sample_os_serves: "os_serves sample_os"
  by (simp add: os_serves_def sockets_serve_def sample_os_def list_socket_def)

lemma multicast_test: "sockets_serve S \<Longrightarrow> test_multicast_receiver_creation S"
  by (auto simp: test_multicast_receiver_creation_def sockets_serve_def multicast_receiver_new_def try_io_def
      unspecified_def isl_def split: sum.split)

lemma server_created:
  assumes "os_serves os"
  obtains addr where "tcp_broadcast_server_new os new_q new_p test_addr [] =
      Some (Inr (broadcast_server_new new_q new_p, addr), [Tcp_Acceptor, Tcp_Broadcaster])"
    "0 < snd addr"
  using assms by (auto simp: os_serves_def tcp_broadcast_server_new_def st_bind_def st_try_def
      st_spawn_expect_def st_return_def)

lemma received_frame: "received (bbo_frame test_update)"
proof -
  have length_payload: "length (bbo_payload test_update) = BBO_SERIALIZED_SIZE"
    using whole_bbo_frame [of test_update]
    by (simp add: whole_frame_def bbo_frame_def frame_size_def bytes_at_def BBO_SERIALIZED_SIZE_def
        unat_u16_of_nat)
  obtain a b where ab: "u16_to_le_bytes (word_of_nat BBO_SERIALIZED_SIZE) = [a, b]"
    by (simp add: u16_to_le_bytes_def le_digits_numeral)
  have "unat (from_le_bytes [a, b] :: u16) = BBO_SERIALIZED_SIZE"
    unfolding ab [symmetric] by (simp add: BBO_SERIALIZED_SIZE_def unat_u16_of_nat)
  moreover have "word_at 0 (bbo_payload test_update) = 123" "word_at 8 (bbo_payload test_update) = 456"
    using bbo_payload_at [of 0 test_update] bbo_payload_at [of 1 test_update]
    by (simp_all add: bbo_words_def test_update_def)
  ultimately show ?thesis
    by (simp add: received_def bbo_frame_def ab read_exact_def unwrapped_def length_payload)
qed

lemma network_tests:
  fixes bits :: "'a \<Rightarrow> u64"
  assumes "os_serves os" "cl_stream c = []"
  shows "test_server_creation os" "test_client_connection_and_broadcast os c bits"
    "test_multicast_receiver_creation (os_sockets os)"
proof -
  show "test_server_creation os"
    by (rule server_created [OF assms(1), of "\<lambda>_. ()" "\<lambda>_. ()"]) (simp add: test_server_creation_def unwrapped_def)
  show "test_multicast_receiver_creation (os_sockets os)"
    using assms(1) by (intro multicast_test) (simp add: os_serves_def)
  let ?Q = "list_queue BROADCAST_QUEUE_CAP" and ?P = "list_queue OPTION_QUEUE_CAP"
  define srv where "srv = enqueue_bbo ?Q test_update
      (accept_turn c (broadcast_server_new (\<lambda>_. []) (\<lambda>_. [])) ::
        ('a, bbo_update list, 'a aggregated_option_snapshot list) broadcast_server)"
  have srv: "srv_clients srv = [c]" "broadcast_queue srv = [test_update]" "option_queue srv = []"
    by (simp_all add: srv_def enqueue_bbo_def accept_turn_def accept_client_def MAX_CLIENTS_def
        broadcast_server_new_def list_queue_def BROADCAST_QUEUE_CAP_def)
  have "drain ?Q BATCH_SIZE [test_update] = ([test_update], [])"
    "drain ?P MAX_OPTION_BATCH ([] :: 'a aggregated_option_snapshot list) = ([], [])"
    by (simp_all add: list_queue_def BATCH_SIZE_def MAX_OPTION_BATCH_def eval_nat_numeral)
  then obtain srv' where "broadcast_turn ?Q ?P bits (\<lambda>_. Written) srv = Some srv'"
    "srv_clients srv' = [c\<lparr>cl_stream := bbo_frame test_update\<rparr>]"
    using assms(2) by (simp add: srv broadcast_turn_def frame_bbos_bytes broadcast_bytes_def marks_def
        cl_write_def bbo_frame_def)
  then show "test_client_connection_and_broadcast os c bits"
    using server_created [OF assms(1), of "\<lambda>_. [] :: bbo_update list"
        "\<lambda>_. [] :: 'a aggregated_option_snapshot list"] received_frame
    by (fastforce simp: test_client_connection_and_broadcast_def accept_loop_turn_def client_count_def
        srv_def accept_turn_def accept_client_def MAX_CLIENTS_def broadcast_server_new_def unwrapped_def Let_def)
qed

end
