(* ===== verification/Spec2Isabelle.thy ===== *)
theory Spec2Isabelle
  imports Protocol_Correct Order_Book_Correct Option_Manager_Correct Gateway_Correct
    Client_View Price_Bands Schedules Startup_Correct Generator_Correct Generator_Run
    Spot_Stress_Tests Option_Tests Pricing_Tests Wire_Tests
begin

text \<open>
  A verification of the HFT order book gateway (Rust, src/ of the repository).

  The program.  UDP multicast packets of a market data feed are split into messages and
  parsed (src/protocol/mod.rs); the events pass through a bounded queue (src/pipeline.rs) to
  a single writer thread (src/main.rs), which applies them to the order books of all stocks
  (src/orderbook/mod.rs), updates the option chains of the stock (src/options/mod.rs,
  src/pricing/mod.rs), and hands changed quotes and option snapshots to a TCP server
  (src/network/tcp_broadcast.rs), which serialises them to all clients.  A generator in
  src/main.rs can take the place of the feed.

  Where what is modelled, bottom up.
  \<^item> \<open>Prelude\<close>, \<open>Bytes\<close>, \<open>Buffers\<close>: machine integers, hash map orders and totals, byte
    orders, writes into a fixed buffer.
  \<^item> \<open>Keyed_Map\<close>, \<open>Levels\<close>, \<open>Order_Ledger\<close>: the interfaces \<open>keyed_map\<close> (a map with lookup,
    insertion and removal), \<open>level_map\<close> (price levels in it) and \<open>order_ledger\<close> (levels that
    aggregate a table of orders), each extending the one before.  They are interpreted for
    the B-tree maps of the spot books and the hash maps of the option books, so that both
    books are proved with the same lemmas.
  \<^item> \<open>Protocol\<close>, \<open>Protocol_Correct\<close>: \<open>ItchEvent\<close>, \<open>ItchParser\<close> and the packet iterator, in a
    panic monad (\<open>None\<close>); the parser equals the offset tables of its messages, never panics,
    and inverts an encoder.
  \<^item> \<open>Book_Side\<close>, \<open>Single_Book\<close>, \<open>Single_Book_Correct\<close>: \<open>BookSide\<close> and \<open>SingleOrderBook\<close>, one
    definition per method and per arm of \<open>apply_event\<close>; the ledger invariant, quotes, depth
    lists, and the stream of published updates.
  \<^item> \<open>Order_Book\<close>, \<open>Order_Book_Correct\<close>: \<open>OrderBook\<close> with its routing table; refinement of the
    abstract market (\<open>market_step\<close>), isolation of stocks, independence of hash map orders.
  \<^item> \<open>Bbo_Wire\<close>, \<open>Option_Wire\<close>: the two serialisations; a receiver reads back what was sent.
  \<^item> \<open>Floats\<close>, \<open>Pricing\<close>, \<open>Pricing_Correct\<close>: the pricing functions over abstract operations
    on \<open>f64\<close>; the implied volatility search for any arithmetic with the order laws of
    \<open>float_order\<close>, the formulas for \<open>exact_ops\<close>, reals with the special values of IEEE 754 but
    without rounding.
  \<^item> \<open>Calendar\<close>, \<open>Option_Book\<close>, \<open>Option_Chain\<close> and their \<open>_Correct\<close> theories,
    \<open>Option_Manager_Correct\<close>: expiry dates, option books, chains and the chain manager; the
    manager refines the live orders of every registered contract in every sequence of calls.
  \<^item> \<open>Queues\<close>, \<open>Pipeline\<close>, \<open>Broadcast\<close>, \<open>Broadcast_Correct\<close>: bounded queues under the contract
    \<open>array_queue\<close>, the pipeline, and the broadcast server; which clients a broadcast keeps,
    what they receive, and that every update is streamed, queued or counted.
  \<^item> \<open>Gateway\<close>, \<open>Gateway_Correct\<close>: the threads of src/main.rs.  \<open>gw_step\<close> is a step of one of
    them, \<open>gw_run\<close> interleaves the steps at will; in every run the books quote the live orders
    of the handled events, no update is lost unseen, and no option snapshot is ever produced.
    The loops of the code (\<open>writer_turn\<close>, \<open>consume_items\<close>) are proved to be such interleavings
    (\<open>gw_steps\<close>, several steps in a row).
  \<^item> \<open>Client_View\<close>, \<open>Price_Bands\<close>: what a client decodes from its stream of the market, and
    the feeds on which no book crosses.
  \<^item> \<open>Address\<close>, \<open>Startup\<close>, \<open>Startup_Correct\<close>: the arguments, the address parsers of the
    standard library, and \<open>main\<close> as a sequence of calls to the operating system, each with its
    error path (\<open>startup\<close>, a monad of panics, errors and started threads); which ports it
    accepts, the order of its threads, and that it starts in the initial state of \<open>gw_run\<close>.
  \<^item> \<open>Receiver\<close>, \<open>Receiver_Correct\<close>: the multicast receiver of src/network/mod.rs over the
    contract \<open>udp_socket\<close>, with its buffer of possibly uninitialised bytes, and the turn of the
    consumer: it is a step of the runs, and queues exactly the events of the next datagram.
  \<^item> \<open>System_Run\<close>: \<open>sys_run\<close>, the runs of all threads together with the socket.  The properties
    \<open>client_sees_market\<close> and \<open>wire_to_client\<close> below follow the data through all components: from
    the handled events, and from the datagrams, to the quotes a client decodes.
  \<^item> \<open>Schedules\<close>: the threads taking whole turns in a given order (\<open>run_turns\<close>, over the turns
    of the code), and \<open>backlog\<close>, a check on the order alone that computes how far the queues can
    fill: a schedule that clears it panics nowhere and loses nothing, whatever is received.
    \<open>quiet_gateway_delivers\<close> and \<open>paced_gateway_delivers\<close> below conclude that the gateway
    delivers: that the queues empty and the clients have the market of all datagrams.
  \<^item> \<open>Generator\<close>, \<open>Generator_Correct\<close>, \<open>Generator_Run\<close>: the test generator; its feed is fresh
    and sized, but its orders pile up, its book is crossed from the fifth tick on, which the
    writer reports, and its expirations are not dates.
  \<^item> \<open>Spot_Tests\<close>, \<open>Spot_Stress_Tests\<close>, \<open>Wire_Tests\<close>, \<open>Option_Tests\<close>, \<open>Pricing_Tests\<close>: unit
    tests of the repository as definitions, with a lemma on each that says when the model
    passes it.  The two stress tests pass for every schedule of their threads, by the results
    on price bands; those of the pricing formulas in exact arithmetic, with a bound on the
    Taylor polynomials of the exponential function.  Three of the option tests depend on the
    clock: the one on the time to maturity passes in a window of five months, and the two
    that price a contract fail from its expiry, 17 December 2026, on.

  Conventions.  A struct is a record, an enum a datatype, an integer a word of its width:
  the arithmetic is that of the release profile, which wraps.  A panic is \<open>None\<close>.  Hash maps
  are partial functions; where the code iterates over one, the order of the keys is an
  argument and \<open>enumerates\<close> says that it visits every key once.  The clock, the bit pattern
  of an \<open>f64\<close>, the outcome of a socket write, the cursor reads of the byte-order crate, the
  operations on \<open>f64\<close>, those of the queue crate and of the socket crate, and the answers of the
  operating system are arguments too; what is assumed of them is the locale
  \<open>big_endian_reader\<close>, \<open>float_order\<close>, \<open>array_queue\<close> or \<open>udp_socket\<close>, each with an interpretation;
  of the operating system nothing is assumed.  \<open>array_queue\<close> makes the operations of the
  concurrent queue atomic, which is what its documentation promises; a step of \<open>gw_step\<close> is
  one such operation with the thread-local work that follows it.  The flag \<open>running\<close> only
  ends the loops: a run of the model is any finite part of theirs.

  Bounds.  The volatility search has the code's own bound of \<open>MAX_IV_ITERATIONS\<close> rounds and
  the batches of the writer and the broadcaster theirs, so no fuel is added anywhere; the
  packet splitter is a terminating function because every frame is at least four bytes.  The
  results on quotes assume fresh references, events with shares and at most \<open>2 ^ 32\<close> live
  orders, so that no volume wraps; those on the generator cover the first \<open>2 ^ 28\<close> ticks.
  A datagram holds at most 4681 events, since none takes less than fourteen of its 65536
  bytes; hence five batches of the writer and 74 of the broadcaster per datagram suffice.

  Not modelled.  Logging and sleeping have no effect on the state (the report of a crossed
  book sets a flag, and its text is dropped); the argument parser of the clap crate only
  fills the record \<open>args\<close>; accessors that return a field are record selectors, and \<open>Default\<close>
  is \<open>new\<close>; src/lib.rs only re-exports.  The record \<open>OptionQuote\<close> is never used.  Of the unit
  tests, the two that only search for a volatility (src/pricing/mod.rs) are left out, and it is
  not shown that the two option tests that price a contract pass before its expiry: all of
  these rest on a numerical search in rounded arithmetic.  Benchmarks
  are not part of the program.
\<close>

section \<open>Properties that span the components\<close>

text \<open>
  C9: From the feed to the client.  In every interleaving of the threads in which no client's
  socket is ever full, what a connected client has been sent is a sequence of whole messages:
  the spot updates the broadcaster has streamed since the client connected, in order.  What
  it decodes for a stock is at each moment a best bid and offer of the stock's live orders as
  they were after some of the handled events, and once everything published has been streamed
  its last quote is that of the live orders after all of them -- for a feed of fresh and
  sized events.
\<close>

theorem client_sees_market:
  assumes "gateway_queues L Q P V" "gw_run F L Q P V bits no_block gw accepted handled sent streamed"
    and "market_feed_ok Map.empty handled" "c \<in> set (srv_clients (wr_server (gw_writer gw)))"
  defines "quote \<equiv> client_quotes (cl_stream c)"
    and "market \<equiv> foldl market_step Map.empty"
  shows "(\<exists>us. suffix us streamed \<and> split_stream (cl_stream c) = (map bbo_frame us, []))
    \<and> (\<forall>s. \<forall>q \<in> set (quote s). \<exists>n \<le> length handled. quotes_market (market (take n handled)) s q)
    \<and> (streamed = sent \<longrightarrow> (\<forall>s. quote s \<noteq> [] \<longrightarrow> quotes_market (market handled) s (last (quote s))))"
  unfolding quote_def market_def by (rule gateway_queues.client_view [OF assms(1-4)])

theorem client_sees_market_witness:
  "\<exists>c :: client. client_quotes (cl_stream c) 7 \<noteq> []
     \<and> quotes [5 \<mapsto> \<lparr>oi_side = Sell, oi_price = 1000000, oi_shares = 100\<rparr>] Sell
         (snd (last (client_quotes (cl_stream c) 7)))"
proof -
  obtain gw u c where run: "gw_run exact_ops list_pipeline (list_queue BROADCAST_QUEUE_CAP)
      (list_queue OPTION_QUEUE_CAP) list_views (\<lambda>_. 0) no_block gw [sample_order] [sample_order] [u] [u]"
    and c: "c \<in> set (srv_clients (wr_server (gw_writer gw)))" "cl_stream c = bbo_frame u" "upd_stock u = 7"
    using sample_client_run by blast
  have "split_stream (cl_stream c) = (map bbo_frame [u], [])"
    using split_stream_frames [of "[bbo_frame u]" "[]"] whole_bbo_frame c(2) by simp
  note sees = sample_client_sees [OF this c(3)]
  have "quotes_market (foldl market_step Map.empty [sample_order]) 7 (last (client_quotes (cl_stream c) 7))"
    using client_sees_market [OF lists.gateway_queues_axioms run _ c(1)] sees by simp
  with sees show ?thesis by (blast intro: sample_market_quote)
qed

text \<open>
  C5: From the wire to the client.  Take any run of the whole gateway -- the consumer taking
  datagrams from its socket, the writer, the broadcaster and the accepting of clients
  interleaved at will -- on datagrams that are sequences of well-formed frames, whose events
  are a feed of fresh and sized ones, and in which the event queue was never full and no
  client's socket either.  The datagrams taken are those that came first; their events are
  exactly those handled, followed by those still queued; every best bid and offer a client
  decodes for a stock is that of the live orders after some number of these events; and once
  the queue is empty and everything published is streamed, its last one is that of the live
  orders after all of them.
\<close>

theorem wire_to_client:
  assumes "gateway_queues L Q P V" "udp_socket S pending" "big_endian_reader rd"
    and "sys_run F L Q P V bits no_block S pending rd r0 r gw arrived 0 handled sent streamed"
    and "list_all2 framed arrived mss"
  defines "feed \<equiv> frame_events (concat mss)" and "market \<equiv> foldl market_step Map.empty"
    and "clients \<equiv> set (srv_clients (wr_server (gw_writer gw)))"
  assumes "market_feed_ok Map.empty feed"
  shows "pending (mr_socket r0) = arrived @ pending (mr_socket r)
    \<and> feed = handled @ v_event V (event_tx (gw_pipeline gw))
    \<and> (\<forall>c \<in> clients. \<forall>s. \<forall>q \<in> set (client_quotes (cl_stream c) s).
         \<exists>n \<le> length feed. quotes_market (market (take n feed)) s q)
    \<and> (v_event V (event_tx (gw_pipeline gw)) = [] \<and> streamed = sent \<longrightarrow>
         (\<forall>c \<in> clients. \<forall>s. client_quotes (cl_stream c) s \<noteq> [] \<longrightarrow>
            quotes_market (market feed) s (last (client_quotes (cl_stream c) s))))"
proof -
  note run = sys_run_unrefused [OF assms(1-5), folded feed_def]
  have prefix: "take n handled = take n feed" if "n \<le> length handled" for n using that run(3) by simp
  have "market_feed_ok Map.empty handled" using assms(9) run(3) by (simp add: market_feed_ok_append)
  note view = gateway_queues.client_view [OF assms(1) run(2) this, folded market_def]
  have "\<exists>n \<le> length feed. quotes_market (market (take n feed)) s q"
    if c: "c \<in> clients" and q: "q \<in> set (client_quotes (cl_stream c) s)" for c s q
  proof -
    obtain n where "n \<le> length handled" "quotes_market (market (take n handled)) s q"
      using view [OF c [unfolded clients_def]] q by blast
    with prefix run(3) show ?thesis by (intro exI [of _ n]) simp
  qed
  moreover have "quotes_market (market feed) s (last (client_quotes (cl_stream c) s))"
    if "v_event V (event_tx (gw_pipeline gw)) = []" "streamed = sent" "c \<in> clients" "client_quotes (cl_stream c) s \<noteq> []" for c s
    using view [OF that(3) [unfolded clients_def]] that run(3) by simp
  ultimately show ?thesis using run(1,3) by blast
qed

theorem wire_to_client_witness:
  "\<exists>r gw u c. sample_sys_run r gw [encode_message (AddOrder 1 5 Sell 100 7 1000000) [0]] 0 [sample_order] [u] [u]
     \<and> c \<in> set (srv_clients (wr_server (gw_writer gw))) \<and> client_quotes (cl_stream c) 7 \<noteq> []
     \<and> quotes [5 \<mapsto> \<lparr>oi_side = Sell, oi_price = 1000000, oi_shares = 100\<rparr>] Sell
         (snd (last (client_quotes (cl_stream c) 7)))"
proof -
  obtain r gw u c where run: "sample_sys_run r gw [sample_datagram] 0 [sample_order] [u] [u]"
    and c: "c \<in> set (srv_clients (wr_server (gw_writer gw)))" "cl_stream c = bbo_frame u" "upd_stock u = 7"
    and idle: "gw_pipeline gw = fresh_pipeline []"
    using sample_system_run by blast
  have "split_stream (cl_stream c) = (map bbo_frame [u], [])"
    using split_stream_frames [of "[bbo_frame u]" "[]"] whole_bbo_frame c(2) by simp
  note sees = sample_client_sees [OF this c(3)]
  have "concat [[m]] = [m]" for m :: "u8 list" by simp
  note wire = wire_to_client [OF lists.gateway_queues_axioms ls.udp_socket_axioms feed.big_endian_reader_axioms
      run sample_framed(1), unfolded this sample_framed(2)]
  have "v_event list_views (event_tx (gw_pipeline gw)) = []" by (simp add: idle list_views_def)
  then have "quotes_market (foldl market_step Map.empty [sample_order]) 7 (last (client_quotes (cl_stream c) 7))"
    using wire sees c(1) by simp
  with run c(1) sees show ?thesis unfolding sample_datagram_def by (blast intro: sample_market_quote)
qed

text \<open>
  C7: The gateway delivers.  Take any state of the running gateway in which nothing has been
  refused or dropped so far, with at most 32768 events and updates queued together, and let
  no datagram come in any more.  Any schedule that gives the writer as many turns as there
  are batches of 1024 queued events, and after that the broadcaster as many as there are
  batches of 64 of all that is queued -- with connections, reports and further turns anywhere
  between, while no socket is full and never more than 64 fail at once -- runs without a
  panic, empties both queues, and leaves every client whose connection has not failed with
  the best bids and offers of the live orders after all the events that were on the wire.
\<close>

theorem quiet_gateway_delivers:
  assumes "gateway_queues L Q P V" "udp_socket S pending" "big_endian_reader rd"
    and "sys_run F L Q P V bits no_block S pending rd r0 (sy_receiver sys) (sy_gateway sys) arrived 0 handled sent streamed"
    and "streamed @ queued_updates V sys = sent"
    and "list_all2 framed arrived mss" "market_feed_ok Map.empty (frame_events (concat mss))"
    and "\<forall>t \<in> set (ts @ ts'). turn_ok no_block t \<and> t \<noteq> Consume"
    and "length (queued_events V sys) + length (queued_updates V sys) \<le> BROADCAST_QUEUE_CAP"
    and "length (queued_events V sys) \<le> writes ts * 1024"
    and "length (queued_events V sys) + length (queued_updates V sys) \<le> broadcasts ts' * 64"
  shows "\<exists>sys'. run_turns F L Q P bits S rd (ts @ ts') sys = Some sys'
    \<and> queued_events V sys' = [] \<and> queued_updates V sys' = []
    \<and> (\<forall>c \<in> set (srv_clients (wr_server (gw_writer (sy_gateway sys')))). \<forall>s. client_quotes (cl_stream c) s \<noteq> [] \<longrightarrow>
         quotes_market (foldl market_step Map.empty (frame_events (concat mss))) s (last (client_quotes (cl_stream c) s)))"
proof -
  have parts: "system_parts L Q P V S pending rd" using assms(1-3) by (simp add: system_parts_def)
  have quiet: "Consume \<notin> set (ts @ ts')" and ok: "\<forall>t \<in> set (ts @ ts'). turn_ok no_block t"
    using assms(8) by auto
  have "backlog (ts @ ts') (length (queued_events V sys), length (queued_updates V sys)) = Some (0, 0)"
    using assms(9-11) by (intro backlog_drains [OF quiet]) (simp_all add: WRITER_BATCH_SIZE_def BATCH_SIZE_def)
  from system_parts.schedule_keeps_backlog [OF parts assms(4) ok this order_refl order_refl] quiet
  obtain sys' hs us ss where turns: "run_turns F L Q P bits S rd (ts @ ts') sys = Some sys'"
    and run: "sys_run F L Q P V bits no_block S pending rd r0 (sy_receiver sys') (sy_gateway sys') arrived 0
        (handled @ hs) (sent @ us) (streamed @ ss)"
    and queues: "ss @ queued_updates V sys' = queued_updates V sys @ us"
      "queued_events V sys' = []" "queued_updates V sys' = []"
    by fastforce
  have "streamed @ ss = sent @ us" using queues(1,3) assms(5) by (metis append.assoc append_Nil2)
  with turns queues(2,3) system_parts.last_quotes [OF parts run queues(2) _ assms(6,7)] show ?thesis by blast
qed

theorem quiet_gateway_delivers_witness:
  "\<exists>sys sys' c. event_tx (gw_pipeline (sy_gateway sys)) = [sample_order]
     \<and> sample_turns ([Accept (Accepted sample_client), sample_write] @ [sample_broadcast]) sys = Some sys'
     \<and> event_tx (gw_pipeline (sy_gateway sys')) = [] \<and> c \<in> set (srv_clients (wr_server (gw_writer (sy_gateway sys'))))
     \<and> client_quotes (cl_stream c) 7 \<noteq> []
     \<and> quotes [5 \<mapsto> \<lparr>oi_side = Sell, oi_price = 1000000, oi_shares = 100\<rparr>] Sell
         (snd (last (client_quotes (cl_stream c) 7)))"
proof -
  let ?ts = "[Accept (Accepted sample_client), sample_write]" and ?ts' = "[sample_broadcast]"
  let ?mss = "[[encode_type sample_order # encode_fields sample_order @ [0]]]"
  obtain r where run: "sample_sys_run r (fresh_gateway [sample_order]) [sample_datagram] 0 [] [] []"
    using sample_consumed by blast
  let ?sys = "system_new r (fresh_gateway [sample_order])"
  have sys: "sample_sys_run (sy_receiver ?sys) (sy_gateway ?sys) [sample_datagram] 0 [] [] []"
    using run by (simp add: system_new_def)
  have queues: "event_tx (gw_pipeline (sy_gateway ?sys)) = [sample_order]"
    "broadcast_queue (wr_server (gw_writer (sy_gateway ?sys))) = []"
    by (simp_all add: system_new_def gateway_new_def writer_new_def fresh_server_def broadcast_server_new_def)
  have events: "frame_events (concat ?mss) = [sample_order]" unfolding concat.simps append_Nil2 by (rule sample_framed(2))
  then have feed: "market_feed_ok Map.empty (frame_events (concat ?mss))" by (simp only:) simp
  have turns: "\<forall>t \<in> set (?ts @ ?ts'). turn_ok no_block t \<and> t \<noteq> Consume"
    using sample_turns_ok by simp
  have few: "length [sample_order] + length ([] :: bbo_update list) \<le> BROADCAST_QUEUE_CAP"
    "length [sample_order] \<le> writes ?ts * 1024"
    "length [sample_order] + length ([] :: bbo_update list) \<le> broadcasts ?ts' * 64"
    by (simp_all add: BROADCAST_QUEUE_CAP_def)
  from quiet_gateway_delivers [OF lists.gateway_queues_axioms ls.udp_socket_axioms feed.big_endian_reader_axioms
      sys, unfolded list_views_simps queues, OF append_Nil sample_framed(1) feed turns few, unfolded events]
  obtain sys' where run': "sample_turns (?ts @ ?ts') ?sys = Some sys'" "event_tx (gw_pipeline (sy_gateway sys')) = []"
    and last: "\<And>c s. c \<in> set (srv_clients (wr_server (gw_writer (sy_gateway sys')))) \<Longrightarrow> client_quotes (cl_stream c) s \<noteq> [] \<Longrightarrow>
      quotes_market (foldl market_step Map.empty [sample_order]) s (last (client_quotes (cl_stream c) s))"
    by blast
  from run'(1) obtain c u where c: "c \<in> set (srv_clients (wr_server (gw_writer (sy_gateway sys'))))"
    "cl_stream c = bbo_frame u" "upd_stock u = 7"
    using sample_delivery [of r sys'] by (auto simp only: append.simps)
  have "split_stream (cl_stream c) = (map bbo_frame [u], [])"
    using split_stream_frames [of "[bbo_frame u]" "[]"] whole_bbo_frame c(2) by simp
  note sees = sample_client_sees [OF this c(3)]
  show ?thesis
    using queues(1) run' c(1) sees sample_market_quote [OF last [OF c(1) sees]]
    by - (rule exI [of _ ?sys], blast)
qed



end
